(* ===== verification/Prelude.thy ===== *)
theory Prelude
  imports Main "HOL-Library.Multiset"
begin

text \<open>
  Shared vocabulary of the development: the Go integer types and their arithmetic
  (\<open>int64\<close> wrap-around, truncated division), errors as trees of wrapped errors,
  contexts as sequences of observations, panics as a value of the result type, and the
  generic list lemmas the component theories use.
\<close>

section \<open>Collections of rewrite rules\<close>

named_theorems go_arith \<open>wrap-around and truncated division on in-range operands\<close>
named_theorems go_error_simps \<open>unfolding of errors.Is and errors.As on concrete errors\<close>
named_theorems go_loop \<open>a loop of the source equals its reference definition\<close>

section \<open>Machine integers\<close>

text \<open>
  A Go \<open>int64\<close> (and \<open>int\<close> and \<open>time.Duration\<close>, which are 64 bits wide on the supported
  platforms) is an \<open>int\<close> in the range below; \<open>i64\<close> is the wrap-around of two's complement
  arithmetic, written out at every operation of the source that can leave the range.
\<close>

definition MaxInt64 :: int where
  "MaxInt64 = 9223372036854775807"

definition MinInt64 :: int where
  "MinInt64 = - 9223372036854775808"

definition i64 :: "int \<Rightarrow> int" where
  "i64 x = (x + 9223372036854775808) mod 18446744073709551616 - 9223372036854775808"

definition in_i64 :: "int \<Rightarrow> bool" where
  "in_i64 x \<longleftrightarrow> MinInt64 \<le> x \<and> x \<le> MaxInt64"

lemma in_i64_i64 [simp]: "in_i64 (i64 x)"
proof -
  have "0 \<le> (x + 9223372036854775808) mod 18446744073709551616"
    and "(x + 9223372036854775808) mod 18446744073709551616 < 18446744073709551616"
    by simp_all
  then show ?thesis
    unfolding in_i64_def i64_def MinInt64_def MaxInt64_def by linarith
qed

lemma i64_id [go_arith]: "in_i64 x \<Longrightarrow> i64 x = x"
  by (simp add: in_i64_def i64_def MinInt64_def MaxInt64_def)

lemma i64_range: "MinInt64 \<le> i64 x" "i64 x \<le> MaxInt64"
  using in_i64_i64 [of x] by (simp_all add: in_i64_def)

lemma in_i64_nonneg: "0 \<le> x \<Longrightarrow> x \<le> MaxInt64 \<Longrightarrow> in_i64 x"
  by (simp add: in_i64_def MinInt64_def)

text \<open>Integer division and remainder of Go truncate towards zero.\<close>

definition go_div :: "int \<Rightarrow> int \<Rightarrow> int" where
  "go_div a b = sgn a * sgn b * (\<bar>a\<bar> div \<bar>b\<bar>)"

definition go_mod :: "int \<Rightarrow> int \<Rightarrow> int" where
  "go_mod a b = a - b * go_div a b"

lemma go_div_nonneg [go_arith]: "0 \<le> a \<Longrightarrow> 0 < b \<Longrightarrow> go_div a b = a div b"
  by (cases "a = 0") (simp_all add: go_div_def)

lemma go_mod_nonneg [go_arith]: "0 \<le> a \<Longrightarrow> 0 < b \<Longrightarrow> go_mod a b = a mod b"
  by (simp add: go_mod_def go_div_nonneg minus_mult_div_eq_mod)

text \<open>\<open>time.Time.Sub\<close> saturates at the bounds of \<open>time.Duration\<close>.\<close>

definition time_Sub :: "int \<Rightarrow> int \<Rightarrow> int" where
  "time_Sub t u = max MinInt64 (min MaxInt64 (t - u))"

text \<open>Rounding a quotient up, as the rate limiter does with a remainder test.\<close>

lemma div_round_up_bounds:
  fixes a b :: int
  assumes "0 < b"
  defines "q \<equiv> (if a mod b \<noteq> 0 then a div b + 1 else a div b)"
  shows "a \<le> b * q" and "b * q < a + b"
proof -
  have a: "a = b * (a div b) + a mod b" by simp
  have r: "0 \<le> a mod b" "a mod b < b" using assms(1) by simp_all
  show "a \<le> b * q"
  proof (cases "a mod b = 0")
    case True
    then show ?thesis using a by (simp add: q_def)
  next
    case False
    then have "b * q = b * (a div b) + b" by (simp add: q_def distrib_left)
    then show ?thesis using a r by linarith
  qed
  show "b * q < a + b"
  proof (cases "a mod b = 0")
    case True
    then show ?thesis using a assms(1) by (simp add: q_def)
  next
    case False
    then have "b * q = b * (a div b) + b" by (simp add: q_def distrib_left)
    moreover have "0 < a mod b" using False r by linarith
    ultimately show ?thesis using a by linarith
  qed
qed

lemma div_round_up_pos:
  fixes a b :: int
  assumes "0 < b" and "0 < a"
  shows "0 < (if a mod b \<noteq> 0 then a div b + 1 else a div b)"
proof -
  have "a \<le> b * (if a mod b \<noteq> 0 then a div b + 1 else a div b)"
    using div_round_up_bounds(1) [OF assms(1)] .
  with assms(2) have "0 < b * (if a mod b \<noteq> 0 then a div b + 1 else a div b)" by linarith
  with assms(1) show ?thesis by (simp add: zero_less_mult_iff)
qed

lemma le_div_iff_mult_le:
  fixes a b c :: int
  assumes "0 < b"
  shows "c \<le> a div b \<longleftrightarrow> c * b \<le> a"
proof
  assume "c \<le> a div b"
  then have "c * b \<le> a div b * b" using assms by (intro mult_right_mono) auto
  also have "\<dots> \<le> a" using assms by (simp add: div_times_less_eq_dividend minus_mod_eq_div_mult [symmetric])
  finally show "c * b \<le> a" .
next
  assume "c * b \<le> a"
  then have "(c * b) div b \<le> a div b" using assms by (intro zdiv_mono1)
  then show "c \<le> a div b" using assms by simp
qed

section \<open>Outcomes, contexts\<close>

text \<open>
  A call returns a value or panics. A panic is not recovered by the code modelled here, so
  it ends the computation; the state a panicking call leaves behind is kept next to it.
\<close>

datatype 'a outcome = Return 'a | Panic

section \<open>Errors\<close>

text \<open>
  An \<open>error\<close> value is a tree. \<open>Sentinel\<close> is a package-level \<open>errors.New\<close> value, identified by
  its message (the messages of the repository carry their package name and are distinct);
  \<open>Wrapped\<close> is \<open>fmt.Errorf("...%w")\<close> with the text of its format besides the verb \<open>%w\<close>; \<open>Joined\<close> is \<open>errors.Join\<close> of
  its non-nil arguments; the others are the error structs of the packages \<open>retry\<close> and
  \<open>queue\<close>.
\<close>

datatype go_error =
    Sentinel string
  | Wrapped string go_error
  | Joined "go_error list"
  | PermanentError go_error
  | AfterError int go_error
  | RetryAfterError int
  | DeadLetterError string

abbreviation Canceled :: go_error where
  "Canceled \<equiv> Sentinel ''context canceled''"

abbreviation DeadlineExceeded :: go_error where
  "DeadlineExceeded \<equiv> Sentinel ''context deadline exceeded''"

text \<open>
  \<open>errors.Is\<close> and \<open>errors.AsType\<close> walk the tree in pre-order; \<open>as_first\<close> returns the first
  node on which the probe succeeds.
\<close>

fun as_first :: "(go_error \<Rightarrow> 'a option) \<Rightarrow> go_error \<Rightarrow> 'a option"
and as_first_list :: "(go_error \<Rightarrow> 'a option) \<Rightarrow> go_error list \<Rightarrow> 'a option" where
  "as_first probe (Sentinel m) = probe (Sentinel m)"
| "as_first probe (Wrapped m e) =
     (case probe (Wrapped m e) of Some a \<Rightarrow> Some a | None \<Rightarrow> as_first probe e)"
| "as_first probe (Joined es) =
     (case probe (Joined es) of Some a \<Rightarrow> Some a | None \<Rightarrow> as_first_list probe es)"
| "as_first probe (PermanentError e) =
     (case probe (PermanentError e) of Some a \<Rightarrow> Some a | None \<Rightarrow> as_first probe e)"
| "as_first probe (AfterError d e) =
     (case probe (AfterError d e) of Some a \<Rightarrow> Some a | None \<Rightarrow> as_first probe e)"
| "as_first probe (RetryAfterError d) = probe (RetryAfterError d)"
| "as_first probe (DeadLetterError r) = probe (DeadLetterError r)"
| "as_first_list probe [] = None"
| "as_first_list probe (e # es) =
     (case as_first probe e of Some a \<Rightarrow> Some a | None \<Rightarrow> as_first_list probe es)"

definition errors_Is :: "go_error \<Rightarrow> go_error \<Rightarrow> bool" where
  "errors_Is e target \<longleftrightarrow> as_first (\<lambda>x. if x = target then Some () else None) e \<noteq> None"

text \<open>\<open>errors.Join\<close> drops nil arguments and is nil when nothing is left.\<close>

definition errors_Join :: "go_error option list \<Rightarrow> go_error option" where
  "errors_Join es =
     (let errs = List.map_filter (\<lambda>e. e) es in if errs = [] then None else Some (Joined errs))"

lemma errors_Is_refl [simp]: "errors_Is e e"
  by (cases e) (simp_all add: errors_Is_def)

lemma errors_Is_Sentinel [simp, go_error_simps]: "errors_Is (Sentinel m) t \<longleftrightarrow> Sentinel m = t"
  by (simp add: errors_Is_def)

lemma errors_Is_Wrapped [simp, go_error_simps]:
  "errors_Is (Wrapped m e) t \<longleftrightarrow> Wrapped m e = t \<or> errors_Is e t"
  by (simp add: errors_Is_def)

lemma as_first_list_unit:
  "as_first_list (\<lambda>x. if x = t then Some () else None) es \<noteq> None \<longleftrightarrow> (\<exists>e \<in> set es. errors_Is e t)"
  by (induction es) (auto simp: errors_Is_def split: option.splits)

lemma errors_Is_Joined [simp, go_error_simps]:
  "errors_Is (Joined es) t \<longleftrightarrow> Joined es = t \<or> (\<exists>e \<in> set es. errors_Is e t)"
  using as_first_list_unit [of t es] by (auto simp: errors_Is_def)

text \<open>
  A \<open>context.Context\<close> argument is nil (\<open>None\<close>) or a live context, of which the code sees
  only what each check of \<open>ctx.Err()\<close> or \<open>context.Cause(ctx)\<close> returns: the \<open>i\<close>-th check of
  the call sees observation \<open>i\<close>. Nothing is assumed about the order in which another
  goroutine cancels it unless a lemma says so.
\<close>

type_synonym observations = "nat \<Rightarrow> go_error option"
type_synonym go_context = "observations option"

definition ctx_after :: "nat \<Rightarrow> observations \<Rightarrow> observations" where
  "ctx_after n obs = (\<lambda>i. obs (i + n))"

abbreviation background :: go_context where
  "background \<equiv> Some (\<lambda>_. None)"

text \<open>The helper \<open>validateContext\<close> that the packages share: a nil context is an error of the
  package, a cancelled one returns its cause.\<close>

definition validateContext_with :: "go_error \<Rightarrow> go_context \<Rightarrow> go_error option" where
  "validateContext_with errInvalidContext ctx =
     (case ctx of None \<Rightarrow> Some errInvalidContext | Some obs \<Rightarrow> obs 0)"

lemma validateContext_with_None_iff:
  "validateContext_with e ctx = None \<longleftrightarrow> (\<exists>obs. ctx = Some obs \<and> obs 0 = None)"
  by (auto simp: validateContext_with_def split: option.splits)

text \<open>
  Code that waits sees the context through a world of type \<open>'w\<close> that its calls act on:
  \<open>ctx_Err\<close> is the error of the context in a world, \<open>timer_select d\<close> waits for a timer of
  \<open>d\<close> nanoseconds or for the end of the context, whichever is seen first (\<open>True\<close>: the timer).
  Where a context is passed on and others are derived from it, it is a value of its own: nil, or
  its error (or the cause of its cancellation) as a function of the world.
\<close>

type_synonym 'w wctx = "('w \<Rightarrow> go_error option) option"

record 'w go_env =
  ctx_Err :: "'w \<Rightarrow> go_error option"
  timer_select :: "int \<Rightarrow> 'w \<Rightarrow> bool \<times> 'w"

section \<open>Options\<close>

text \<open>Functional options are applied in order, so that the last one to set a field wins. \<open>last_choice\<close>
  reads that value off the list; \<open>probe\<close> is what an option sets the field to.\<close>

definition last_choice :: "('o \<Rightarrow> 'b option) \<Rightarrow> 'b \<Rightarrow> 'o list \<Rightarrow> 'b" where
  "last_choice probe d opts = List.last (d # List.map_filter probe opts)"

lemma last_choice_Nil [simp]: "last_choice probe d [] = d"
  by (simp add: last_choice_def map_filter_def)

lemma last_choice_snoc:
  "last_choice probe d (opts @ [opt]) = (case probe opt of Some x \<Rightarrow> x | None \<Rightarrow> last_choice probe d opts)"
  by (cases "probe opt") (simp_all add: last_choice_def map_filter_def)

lemma fold_last_choice:
  assumes "\<And>opt c. field (app opt c) = (case probe opt of Some x \<Rightarrow> x | None \<Rightarrow> field c)"
  shows "field (fold app opts c) = last_choice probe (field c) opts"
  by (induction opts rule: rev_induct) (simp_all add: last_choice_snoc assms split: option.splits)

section \<open>Sorting by a comparison function\<close>

text \<open>
  \<open>slices.SortFunc(s, cmp)\<close> of the standard library sorts in ascending order as \<open>cmp\<close>
  determines. It is not stable, so the model is used only with comparisons whose ties are
  equal elements: there every sorting algorithm gives the same list
  (\<open>SortFunc_unique\<close> below).
\<close>

fun insert_func :: "('a \<Rightarrow> 'a \<Rightarrow> int) \<Rightarrow> 'a \<Rightarrow> 'a list \<Rightarrow> 'a list" where
  "insert_func cmp x [] = [x]"
| "insert_func cmp x (y # ys) = (if cmp x y \<le> 0 then x # y # ys else y # insert_func cmp x ys)"

definition SortFunc :: "('a \<Rightarrow> 'a \<Rightarrow> int) \<Rightarrow> 'a list \<Rightarrow> 'a list" where
  "SortFunc cmp xs = foldr (insert_func cmp) xs []"

lemma mset_insert_func: "mset (insert_func cmp x ys) = add_mset x (mset ys)"
  by (induction ys) auto

lemma mset_SortFunc [simp]: "mset (SortFunc cmp xs) = mset xs"
  by (induction xs) (simp_all add: SortFunc_def mset_insert_func)

lemma set_SortFunc [simp]: "set (SortFunc cmp xs) = set xs"
  by (metis mset_SortFunc set_mset_mset)

lemma length_SortFunc [simp]: "length (SortFunc cmp xs) = length xs"
  by (metis mset_SortFunc size_mset)

lemma set_insert_func: "set (insert_func cmp x ys) = insert x (set ys)"
  by (metis mset_insert_func set_mset_add_mset_insert set_mset_mset)

text \<open>The contract of the comparison: a total preorder whose ties are equal elements.\<close>

locale comparison =
  fixes cmp :: "'a \<Rightarrow> 'a \<Rightarrow> int"
  assumes cmp_total: "cmp x y \<le> 0 \<or> cmp y x \<le> 0"
    and cmp_trans: "cmp x y \<le> 0 \<Longrightarrow> cmp y z \<le> 0 \<Longrightarrow> cmp x z \<le> 0"
    and cmp_antisym: "cmp x y \<le> 0 \<Longrightarrow> cmp y x \<le> 0 \<Longrightarrow> x = y"
begin

lemma sorted_insert_func:
  "sorted_wrt (\<lambda>a b. cmp a b \<le> 0) ys \<Longrightarrow> sorted_wrt (\<lambda>a b. cmp a b \<le> 0) (insert_func cmp x ys)"
proof (induction ys)
  case Nil
  then show ?case by simp
next
  case (Cons y ys)
  show ?case
  proof (cases "cmp x y \<le> 0")
    case True
    with Cons.prems show ?thesis by (auto intro: cmp_trans)
  next
    case False
    with cmp_total have "cmp y x \<le> 0" by blast
    with False Cons show ?thesis by (simp add: set_insert_func)
  qed
qed

lemma sorted_SortFunc: "sorted_wrt (\<lambda>a b. cmp a b \<le> 0) (SortFunc cmp xs)"
  by (induction xs) (simp_all add: SortFunc_def sorted_insert_func)

lemma sorted_wrt_cmp_unique:
  "sorted_wrt (\<lambda>a b. cmp a b \<le> 0) xs \<Longrightarrow> sorted_wrt (\<lambda>a b. cmp a b \<le> 0) ys \<Longrightarrow>
   mset xs = mset ys \<Longrightarrow> xs = ys"
proof (induction xs arbitrary: ys)
  case Nil
  then show ?case by simp
next
  case (Cons x xs)
  from Cons.prems(3) obtain y ys' where ys: "ys = y # ys'" by (cases ys) auto
  have "x \<in> set ys" and "y \<in> set (x # xs)"
    using Cons.prems(3) ys by (metis list.set_intros(1) set_mset_mset)+
  then have "x = y"
    using Cons.prems(1,2) ys by (auto intro: cmp_antisym)
  with Cons ys show ?case by simp
qed

lemma SortFunc_unique:
  "sorted_wrt (\<lambda>a b. cmp a b \<le> 0) ys \<Longrightarrow> mset ys = mset xs \<Longrightarrow> ys = SortFunc cmp xs"
  by (rule sorted_wrt_cmp_unique) (simp_all add: sorted_SortFunc)

end

end
