(* ===== verification/Period.thy ===== *)
theory Period
  imports Prelude
begin

text \<open>
  Package \<open>time/period\<close> (\<open>src/time/period\<close>): immutable half-open intervals and their set
  operations. A \<open>time.Time\<close> is its absolute instant in nanoseconds, an \<open>int\<close>: \<open>New\<close>
  normalises to UTC and drops the monotonic reading, so the comparisons of the package are
  comparisons of instants. The specification is the set of instants a period contains.
\<close>

section \<open>The period type and its operations\<close>

record period =
  pstart :: int
  pend :: int

definition zero_time :: int where
  "zero_time = 0"

definition zero_period :: period where
  "zero_period = \<lparr>pstart = zero_time, pend = zero_time\<rparr>"

definition ErrInvalidRange :: go_error where
  "ErrInvalidRange = Sentinel ''period: end must not precede start''"

definition New :: "int \<Rightarrow> int \<Rightarrow> period \<times> go_error option" where
  "New start end' =
     (if end' < start then (zero_period, Some ErrInvalidRange)
      else (\<lparr>pstart = start, pend = end'\<rparr>, None))"

definition Start :: "period \<Rightarrow> int" where
  "Start p = pstart p"

definition End :: "period \<Rightarrow> int" where
  "End p = pend p"

definition IsEmpty :: "period \<Rightarrow> bool" where
  "IsEmpty p \<longleftrightarrow> pstart p = pend p"

definition Duration :: "period \<Rightarrow> int" where
  "Duration p = time_Sub (pend p) (pstart p)"

definition Equal :: "period \<Rightarrow> period \<Rightarrow> bool" where
  "Equal p other \<longleftrightarrow>
     (if IsEmpty p \<and> IsEmpty other then True
      else pstart p = pstart other \<and> pend p = pend other)"

definition Contains :: "period \<Rightarrow> int \<Rightarrow> bool" where
  "Contains p t \<longleftrightarrow> \<not> t < pstart p \<and> t < pend p"

definition ContainsPeriod :: "period \<Rightarrow> period \<Rightarrow> bool" where
  "ContainsPeriod p other \<longleftrightarrow>
     (if IsEmpty other then True
      else \<not> IsEmpty p \<and> \<not> pstart other < pstart p \<and> \<not> pend other > pend p)"

definition Overlaps :: "period \<Rightarrow> period \<Rightarrow> bool" where
  "Overlaps p other \<longleftrightarrow>
     \<not> IsEmpty p \<and> \<not> IsEmpty other \<and> pstart p < pend other \<and> pstart other < pend p"

definition Adjacent :: "period \<Rightarrow> period \<Rightarrow> bool" where
  "Adjacent p other \<longleftrightarrow>
     \<not> IsEmpty p \<and> \<not> IsEmpty other \<and> (pend p = pstart other \<or> pend other = pstart p)"

definition Intersect :: "period \<Rightarrow> period \<Rightarrow> period \<times> bool" where
  "Intersect p other =
     (if \<not> Overlaps p other then (zero_period, False)
      else
        let start = (if pstart other > pstart p then pstart other else pstart p);
            end' = (if pend other < pend p then pend other else pend p)
        in (\<lparr>pstart = start, pend = end'\<rparr>, True))"

section \<open>Merge, Gaps and Subtract\<close>

text \<open>The comparison passed to \<open>slices.SortFunc\<close>: by start, then by end.\<close>

definition time_Compare :: "int \<Rightarrow> int \<Rightarrow> int" where
  "time_Compare t u = (if t < u then -1 else if t > u then 1 else 0)"

definition period_cmp :: "period \<Rightarrow> period \<Rightarrow> int" where
  "period_cmp a b =
     (let order = time_Compare (pstart a) (pstart b)
      in if order \<noteq> 0 then order else time_Compare (pend a) (pend b))"

text \<open>
  The compaction loop of \<open>Merge\<close> works in place: \<open>k\<close> (\<open>last\<close> in the source) is the index of the interval being
  extended, \<open>i\<close> the index of the next element read from the same array.
\<close>

function merge_loop :: "period list \<Rightarrow> nat \<Rightarrow> nat \<Rightarrow> period list" where
  "merge_loop result k i =
     (if i < length result then
        let p = result ! i
        in if pstart p > pend (result ! k) then
             merge_loop (result[k + 1 := p]) (k + 1) (i + 1)
           else if pend p > pend (result ! k) then
             merge_loop (result[k := (result ! k)\<lparr>pend := pend p\<rparr>]) k (i + 1)
           else merge_loop result k (i + 1)
      else take (k + 1) result)"
  by pat_completeness auto
termination
  by (relation "measure (\<lambda>(result, k, i). length result - i)") auto

declare merge_loop.simps [simp del]

fun drop_empty :: "period list \<Rightarrow> period list \<Rightarrow> period list" where
  "drop_empty result [] = result"
| "drop_empty result (p # ps) =
     drop_empty (if \<not> IsEmpty p then result @ [p] else result) ps"

definition Merge :: "period list \<Rightarrow> period list" where
  "Merge periods =
     (let result = drop_empty [] periods
      in if length result = 0 then []
         else merge_loop (SortFunc period_cmp result) 0 1)"

text \<open>The loop of \<open>Gaps\<close>: index \<open>i\<close> runs from 1, reading \<open>merged[i-1]\<close> and \<open>merged[i]\<close>.\<close>

function gaps_loop :: "period list \<Rightarrow> nat \<Rightarrow> period list \<Rightarrow> period list" where
  "gaps_loop merged i result =
     (if i < length merged then
        gaps_loop merged (i + 1)
          (result @ [\<lparr>pstart = pend (merged ! (i - 1)), pend = pstart (merged ! i)\<rparr>])
      else result)"
  by pat_completeness auto
termination
  by (relation "measure (\<lambda>(merged, i, result). length merged - i)") auto

declare gaps_loop.simps [simp del]

definition Gaps :: "period list \<Rightarrow> period list" where
  "Gaps periods =
     (let merged = Merge periods
      in if length merged < 2 then [] else gaps_loop merged 1 [])"

text \<open>
  The loop of \<open>Subtract\<close>: \<open>continue\<close> skips a cut that ends before the cursor, \<open>break\<close> leaves
  the loop and appends the rest, the inner \<open>return\<close> leaves without it.
\<close>

fun subtract_loop :: "int \<Rightarrow> int \<Rightarrow> period list \<Rightarrow> period list \<Rightarrow> period list" where
  "subtract_loop pend_p cursor result [] = result @ [\<lparr>pstart = cursor, pend = pend_p\<rparr>]"
| "subtract_loop pend_p cursor result (c # cs) =
     (if \<not> pend c > cursor then subtract_loop pend_p cursor result cs
      else if \<not> pstart c < pend_p then result @ [\<lparr>pstart = cursor, pend = pend_p\<rparr>]
      else
        let result' = (if pstart c > cursor
                       then result @ [\<lparr>pstart = cursor, pend = pstart c\<rparr>] else result);
            cursor' = pend c
        in if \<not> cursor' < pend_p then result' else subtract_loop pend_p cursor' result' cs)"

definition Subtract :: "period \<Rightarrow> period list \<Rightarrow> period list" where
  "Subtract p others =
     (if IsEmpty p then [] else subtract_loop (pend p) (pstart p) [] (Merge others))"

section \<open>Specification: the set of instants\<close>

definition points :: "period \<Rightarrow> int set" where
  "points p = {t. pstart p \<le> t \<and> t < pend p}"

definition coverage :: "period list \<Rightarrow> int set" where
  "coverage ps = (\<Union>p \<in> set ps. points p)"

text \<open>The representation invariant: the fields are private and every constructor keeps
  \<open>start \<le> end\<close>.\<close>

definition valid :: "period \<Rightarrow> bool" where
  "valid p \<longleftrightarrow> pstart p \<le> pend p"

text \<open>The normal form the package promises: non-empty, ascending, neither overlapping nor
  touching.\<close>

definition canonical :: "period list \<Rightarrow> bool" where
  "canonical ps \<longleftrightarrow>
     (\<forall>p \<in> set ps. pstart p < pend p) \<and> sorted_wrt (\<lambda>a b. pend a < pstart b) ps"

lemma coverage_simps [simp]:
  "coverage [] = {}" "coverage (p # ps) = points p \<union> coverage ps"
  "coverage (ps @ qs) = coverage ps \<union> coverage qs"
  by (auto simp: coverage_def)

lemma canonical_Nil [simp]: "canonical []"
  by (simp add: canonical_def)

lemma canonical_Cons [simp]:
  "canonical (p # ps) \<longleftrightarrow>
     pstart p < pend p \<and> (\<forall>q \<in> set ps. pend p < pstart q) \<and> canonical ps"
  by (auto simp: canonical_def)

lemma points_empty_iff: "points p = {} \<longleftrightarrow> pend p \<le> pstart p"
proof
  assume "points p = {}"
  then have "pstart p \<notin> points p" by simp
  then show "pend p \<le> pstart p" by (simp add: points_def)
qed (auto simp: points_def)

interpretation period_order: comparison period_cmp
proof unfold_locales
  fix x y :: period
  show "period_cmp x y \<le> 0 \<or> period_cmp y x \<le> 0"
    by (simp add: period_cmp_def time_Compare_def)
next
  fix x y z :: period
  assume "period_cmp x y \<le> 0" "period_cmp y z \<le> 0"
  then show "period_cmp x z \<le> 0"
    by (auto simp: period_cmp_def time_Compare_def split: if_splits)
next
  fix x y :: period
  assume "period_cmp x y \<le> 0" "period_cmp y x \<le> 0"
  then show "x = y"
    by (auto simp: period_cmp_def time_Compare_def split: if_splits)
qed

lemma period_cmp_le_start: "period_cmp a b \<le> 0 \<Longrightarrow> pstart a \<le> pstart b"
  by (auto simp: period_cmp_def time_Compare_def split: if_splits)

section \<open>The loops against their reference definitions\<close>

fun coalesce :: "period \<Rightarrow> period list \<Rightarrow> period list" where
  "coalesce cur [] = [cur]"
| "coalesce cur (p # ps) =
     (if pstart p > pend cur then cur # coalesce p ps
      else if pend p > pend cur then coalesce (cur\<lparr>pend := pend p\<rparr>) ps
      else coalesce cur ps)"

lemma drop_empty_filter [go_loop]:
  "drop_empty result ps = result @ filter (\<lambda>p. \<not> IsEmpty p) ps"
  by (induction ps arbitrary: result) auto

lemma merge_loop_coalesce [go_loop]:
  "k < i \<Longrightarrow> i \<le> length xs \<Longrightarrow>
   merge_loop xs k i = take k xs @ coalesce (xs ! k) (drop i xs)"
proof (induction xs k i rule: merge_loop.induct)
  case (1 xs k i)
  show ?case
  proof (cases "i < length xs")
    case False
    with "1.prems" show ?thesis
      by (subst merge_loop.simps) (simp add: take_Suc_conv_app_nth)
  next
    case True
    let ?p = "xs ! i"
    have d: "drop i xs = ?p # drop (i + 1) xs"
      using True by (simp add: Cons_nth_drop_Suc)
    consider (new) "pstart ?p > pend (xs ! k)"
      | (extend) "\<not> pstart ?p > pend (xs ! k)" "pend ?p > pend (xs ! k)"
      | (inside) "\<not> pstart ?p > pend (xs ! k)" "\<not> pend ?p > pend (xs ! k)"
      by blast
    then show ?thesis
    proof cases
      case new
      have "take (k + 1) (xs[k + 1 := ?p]) = take k xs @ [xs ! k]"
        using "1.prems" by (simp add: take_Suc_conv_app_nth)
      moreover have "drop (i + 1) (xs[k + 1 := ?p]) = drop (i + 1) xs"
        using "1.prems" by (simp add: drop_update_cancel)
      moreover have "xs[k + 1 := ?p] ! (k + 1) = ?p"
        using "1.prems" True by simp
      ultimately show ?thesis
        using "1.IH"(1) [OF True refl new] "1.prems" True new d
        by (simp add: merge_loop.simps [of xs k i])
    next
      case extend
      have "drop (i + 1) (xs[k := (xs ! k)\<lparr>pend := pend ?p\<rparr>]) = drop (i + 1) xs"
        using "1.prems" by (simp add: drop_update_cancel)
      then show ?thesis
        using "1.IH"(2) [OF True refl extend] "1.prems" True extend d
        by (simp add: merge_loop.simps [of xs k i])
    next
      case inside
      then show ?thesis
        using "1.IH"(3) [OF True refl inside] "1.prems" True d
        by (simp add: merge_loop.simps [of xs k i])
    qed
  qed
qed

lemma Merge_coalesce:
  "Merge ps =
     (case SortFunc period_cmp (filter (\<lambda>p. \<not> IsEmpty p) ps) of
        [] \<Rightarrow> [] | cur # rest \<Rightarrow> coalesce cur rest)"
proof (cases "SortFunc period_cmp (filter (\<lambda>p. \<not> IsEmpty p) ps)")
  case Nil
  then have "filter (\<lambda>p. \<not> IsEmpty p) ps = []"
    by (metis set_SortFunc set_empty)
  then show ?thesis by (simp add: Merge_def drop_empty_filter SortFunc_def)
next
  case (Cons cur rest)
  then have "filter (\<lambda>p. \<not> IsEmpty p) ps \<noteq> []"
    by (metis list.discI set_SortFunc set_empty)
  with Cons show ?thesis
    by (simp add: Merge_def drop_empty_filter merge_loop_coalesce)
qed

fun gaps_of :: "period list \<Rightarrow> period list" where
  "gaps_of (a # b # ps) = \<lparr>pstart = pend a, pend = pstart b\<rparr> # gaps_of (b # ps)"
| "gaps_of _ = []"

lemma gaps_loop_gaps_of [go_loop]:
  "0 < i \<Longrightarrow> i \<le> length xs \<Longrightarrow> gaps_loop xs i acc = acc @ gaps_of (drop (i - 1) xs)"
proof (induction xs i acc rule: gaps_loop.induct)
  case (1 xs i acc)
  show ?case
  proof (cases "i < length xs")
    case True
    then obtain j where i: "i = Suc j" using "1.prems" by (cases i) auto
    have "drop j xs = xs ! j # xs ! Suc j # drop (Suc (Suc j)) xs"
      using True i by (metis Cons_nth_drop_Suc Suc_lessD)
    moreover have "drop (Suc j) xs = xs ! Suc j # drop (Suc (Suc j)) xs"
      using True i by (simp add: Cons_nth_drop_Suc)
    ultimately show ?thesis
      using "1.IH" True i by (simp add: gaps_loop.simps [of xs "Suc j" acc])
  next
    case False
    with "1.prems" obtain j where i: "i = Suc j" "length xs = Suc j"
      by (metis gr0_implies_Suc le_antisym not_less)
    then have "drop j xs = [xs ! j]" using Cons_nth_drop_Suc [of j xs] by simp
    with i show ?thesis by (subst gaps_loop.simps) simp
  qed
qed

lemma Gaps_gaps_of: "Gaps ps = gaps_of (Merge ps)"
proof (cases "length (Merge ps) < 2")
  case True
  then have "Merge ps = [] \<or> (\<exists>a. Merge ps = [a])"
    by (cases "Merge ps" rule: gaps_of.cases) auto
  with True show ?thesis by (auto simp: Gaps_def)
next
  case False
  then show ?thesis by (simp add: Gaps_def gaps_loop_gaps_of)
qed

section \<open>Coverage of the normal form\<close>

lemma coverage_coalesce:
  assumes "pstart cur < pend cur" and "\<forall>p \<in> set ps. pstart p < pend p"
    and "sorted_wrt (\<lambda>a b. pstart a \<le> pstart b) (cur # ps)"
  shows "coverage (coalesce cur ps) = points cur \<union> coverage ps"
  using assms
proof (induction cur ps rule: coalesce.induct)
  case (1 cur)
  then show ?case by simp
next
  case (2 cur p ps)
  then have order: "pstart cur \<le> pstart p" by simp
  consider (new) "pstart p > pend cur"
    | (extend) "pstart p \<le> pend cur" "pend p > pend cur"
    | (inside) "pstart p \<le> pend cur" "pend p \<le> pend cur"
    by linarith
  then show ?case
  proof cases
    case new
    with "2.IH"(1) "2.prems" show ?thesis by simp
  next
    case extend
    have "points (cur\<lparr>pend := pend p\<rparr>) = points cur \<union> points p"
      using extend order by (auto simp: points_def)
    with "2.IH"(2) "2.prems" extend show ?thesis by (simp add: Un_assoc)
  next
    case inside
    have "points p \<subseteq> points cur"
      using inside order by (auto simp: points_def)
    with "2.IH"(3) "2.prems" inside show ?thesis by (simp add: Un_absorb2 flip: Un_assoc)
  qed
qed

lemma coalesce_starts:
  "x \<in> set (coalesce cur ps) \<Longrightarrow> sorted_wrt (\<lambda>a b. pstart a \<le> pstart b) (cur # ps) \<Longrightarrow>
   pstart cur \<le> pstart x"
  by (induction cur ps rule: coalesce.induct) (force split: if_splits)+

lemma canonical_coalesce:
  assumes "pstart cur < pend cur" and "\<forall>p \<in> set ps. pstart p < pend p"
    and "sorted_wrt (\<lambda>a b. pstart a \<le> pstart b) (cur # ps)"
  shows "canonical (coalesce cur ps)"
  using assms
proof (induction cur ps rule: coalesce.induct)
  case (2 cur p ps)
  show ?case
  proof (cases "pstart p > pend cur")
    case True
    have "pend cur < pstart q" if "q \<in> set (coalesce p ps)" for q
      using coalesce_starts [OF that] True "2.prems" by simp
    with True "2.IH"(1) "2.prems" show ?thesis by simp
  next
    case False
    with "2.IH"(2,3) "2.prems" show ?thesis by (cases "pend p > pend cur") auto
  qed
qed simp

lemma SortFunc_starts: "sorted_wrt (\<lambda>a b. pstart a \<le> pstart b) (SortFunc period_cmp ps)"
  by (rule sorted_wrt_mono_rel [OF _ period_order.sorted_SortFunc]) (rule period_cmp_le_start)

lemma coverage_nonempty: "coverage (filter (\<lambda>p. \<not> IsEmpty p) ps) = coverage ps"
  by (induction ps) (auto simp: IsEmpty_def points_def)

lemma coverage_set_cong: "set ps = set qs \<Longrightarrow> coverage ps = coverage qs"
  by (simp add: coverage_def)

lemma Merge_correct:
  assumes "\<forall>p \<in> set ps. valid p"
  shows "coverage (Merge ps) = coverage ps" and "canonical (Merge ps)"
proof -
  let ?s = "SortFunc period_cmp (filter (\<lambda>p. \<not> IsEmpty p) ps)"
  have ne: "\<forall>p \<in> set ?s. pstart p < pend p"
    using assms by (auto simp: IsEmpty_def valid_def)
  have cov: "coverage ?s = coverage ps"
    using coverage_set_cong [of ?s "filter (\<lambda>p. \<not> IsEmpty p) ps"] by (simp add: coverage_nonempty)
  show "coverage (Merge ps) = coverage ps"
  proof (cases ?s)
    case Nil
    with cov show ?thesis by (simp add: Merge_coalesce)
  next
    case (Cons cur rest)
    with ne cov SortFunc_starts [of "filter (\<lambda>p. \<not> IsEmpty p) ps"] show ?thesis
      by (simp add: Merge_coalesce coverage_coalesce)
  qed
  show "canonical (Merge ps)"
  proof (cases ?s)
    case Nil
    then show ?thesis by (simp add: Merge_coalesce)
  next
    case (Cons cur rest)
    with ne SortFunc_starts [of "filter (\<lambda>p. \<not> IsEmpty p) ps"] show ?thesis
      by (simp add: Merge_coalesce canonical_coalesce)
  qed
qed

lemmas coverage_Merge = Merge_correct(1)
  and canonical_Merge = Merge_correct(2)

section \<open>The normal form is unique\<close>

lemma canonical_Cons_le: "canonical (x # xs) \<Longrightarrow> t \<in> coverage (x # xs) \<Longrightarrow> pstart x \<le> t"
  by (force simp: coverage_def points_def)

lemma canonical_Cons_end: "canonical (x # xs) \<Longrightarrow> pend x \<notin> coverage (x # xs)"
  by (force simp: coverage_def points_def)

lemma canonical_Cons_head:
  assumes "canonical (x # xs)" "canonical (y # ys)" "coverage (x # xs) = coverage (y # ys)"
  shows "pstart x = pstart y" and "pend x \<le> pend y"
proof -
  have "pstart x \<in> coverage (x # xs)" "pstart y \<in> coverage (y # ys)"
    using assms(1,2) by (auto simp: points_def)
  then show start: "pstart x = pstart y"
    using canonical_Cons_le assms by (metis order_antisym)
  show "pend x \<le> pend y"
  proof (rule ccontr)
    assume "\<not> pend x \<le> pend y"
    then have "pend y \<in> points x"
      using assms(2) start by (simp add: points_def)
    then have "pend y \<in> coverage (y # ys)"
      using assms(3) by (metis UnI1 coverage_simps(2))
    with canonical_Cons_end [OF assms(2)] show False by simp
  qed
qed

lemma canonical_tail_coverage:
  "canonical (x # xs) \<Longrightarrow> coverage xs = coverage (x # xs) - points x"
  by (force simp: coverage_def points_def)

lemma canonical_unique:
  "canonical xs \<Longrightarrow> canonical ys \<Longrightarrow> coverage xs = coverage ys \<Longrightarrow> xs = ys"
proof (induction xs arbitrary: ys)
  case Nil
  then show ?case
    by (cases ys) (auto simp: points_empty_iff)
next
  case (Cons x xs)
  then obtain y ys' where ys: "ys = y # ys'"
    by (cases ys) (auto simp: points_empty_iff)
  have "pstart x = pstart y" "pend x = pend y"
    using canonical_Cons_head Cons.prems ys by (metis order_antisym)+
  then have eq: "x = y" by simp
  have "coverage xs = coverage ys'"
    using canonical_tail_coverage Cons.prems ys eq by metis
  with Cons ys eq show ?case by simp
qed

section \<open>Subtract and Gaps\<close>

lemma subtract_loop_acc: "subtract_loop e c acc cs = acc @ subtract_loop e c [] cs"
proof (induction cs arbitrary: c acc)
  case (Cons x cs)
  let ?piece = "[\<lparr>pstart = c, pend = pstart x\<rparr>]"
  show ?case
    using Cons.IH [of c acc] Cons.IH [of "pend x" acc] Cons.IH [of "pend x" "acc @ ?piece"]
      Cons.IH [of "pend x" ?piece]
    by (simp add: Let_def)
qed simp

lemma subtract_loop_Cons:
  assumes "c < pend x" "pstart x < e"
  shows "subtract_loop e c [] (x # cs) =
    (if c < pstart x then [\<lparr>pstart = c, pend = pstart x\<rparr>] else []) @
    (if pend x < e then subtract_loop e (pend x) [] cs else [])"
  using assms
  by (auto simp: Let_def subtract_loop_acc [of e "pend x" "[\<lparr>pstart = c, pend = pstart x\<rparr>]"])

lemma coverage_above: "\<forall>q \<in> set cs. b < pstart q \<Longrightarrow> t \<le> b \<Longrightarrow> t \<notin> coverage cs"
  by (auto simp: coverage_def points_def)

lemma subtract_loop_starts:
  "x \<in> set (subtract_loop e c [] cs) \<Longrightarrow> canonical cs \<Longrightarrow> c < e \<Longrightarrow> c \<le> pstart x"
proof (induction cs arbitrary: c)
  case (Cons a cs)
  show ?case
  proof (cases "c < pend a \<and> pstart a < e")
    case True
    then show ?thesis
      using Cons.IH [of "pend a"] Cons.prems
      by (auto simp: subtract_loop_Cons simp del: subtract_loop.simps split: if_splits)
  next
    case False
    then show ?thesis using Cons by (auto split: if_splits)
  qed
qed simp

lemma coverage_subtract_loop:
  "canonical cs \<Longrightarrow> c < e \<Longrightarrow> coverage (subtract_loop e c [] cs) = {c..<e} - coverage cs"
proof (induction cs arbitrary: c)
  case Nil
  then show ?case by (auto simp: points_def)
next
  case (Cons a cs)
  consider (before) "pend a \<le> c" | (after) "c < pend a" "e \<le> pstart a"
    | (cut) "c < pend a" "pstart a < e" by linarith
  then show ?case
  proof cases
    case before
    have "{c..<e} \<inter> points a = {}" using before by (auto simp: points_def)
    with before Cons show ?thesis by auto
  next
    case after
    have "{c..<e} \<inter> coverage (a # cs) = {}"
      using after Cons.prems(1) by (force simp: coverage_def points_def)
    with after show ?thesis by (auto simp: points_def)
  next
    case cut
    have rest: "t \<notin> coverage cs" if "t < pend a" for t
      using coverage_above [of cs "pend a" t] that Cons.prems(1) by auto
    have split: "{c..<e} - coverage (a # cs) =
        ({c..<pstart a} \<inter> {..<e}) \<union> ({pend a..<e} - coverage cs)"
      using cut rest Cons.prems(1) by (fastforce simp: points_def)
    have IH: "coverage (if pend a < e then subtract_loop e (pend a) [] cs else []) =
        {pend a..<e} - coverage cs"
      using Cons.IH [of "pend a"] Cons.prems(1) by simp
    have "coverage (subtract_loop e c [] (a # cs)) =
        ({c..<pstart a} \<inter> {..<e}) \<union> ({pend a..<e} - coverage cs)"
      using cut by (auto simp: subtract_loop_Cons IH points_def simp del: subtract_loop.simps)
    with split show ?thesis by (simp del: subtract_loop.simps)
  qed
qed

lemma canonical_subtract_loop:
  "canonical cs \<Longrightarrow> c < e \<Longrightarrow> canonical (subtract_loop e c [] cs)"
proof (induction cs arbitrary: c)
  case (Cons a cs)
  show ?case
  proof (cases "c < pend a \<and> pstart a < e")
    case True
    have "pstart a < pstart q" if "q \<in> set (subtract_loop e (pend a) [] cs)" "pend a < e" for q
      using subtract_loop_starts [OF that(1)] that(2) Cons.prems(1) by force
    with True Cons.IH [of "pend a"] Cons.prems show ?thesis
      by (auto simp: subtract_loop_Cons simp del: subtract_loop.simps)
  next
    case False
    then show ?thesis using Cons by (auto split: if_splits)
  qed
qed simp

lemma canonical_gaps_of: "canonical ps \<Longrightarrow> canonical (gaps_of ps)"
proof (induction ps rule: gaps_of.induct)
  case (1 a b ps)
  have "pstart b < pstart q" if "q \<in> set (gaps_of (b # ps))" for q
    using that "1.prems"
  proof (induction "b # ps" arbitrary: b ps rule: gaps_of.induct)
    case (1 x y zs)
    then show ?case by force
  qed simp
  with 1 show ?case by simp
qed simp_all

lemma coverage_gaps_of:
  "canonical ps \<Longrightarrow>
   coverage (gaps_of ps) =
     {t. t \<notin> coverage ps \<and> (\<exists>lo \<in> coverage ps. lo < t) \<and> (\<exists>hi \<in> coverage ps. t < hi)}"
proof (induction ps rule: gaps_of.induct)
  case (1 a b ps)
  let ?rest = "b # ps"
  have up: "\<And>t. t \<in> coverage ?rest \<Longrightarrow> pstart b \<le> t"
    using canonical_Cons_le [of b ps] "1.prems" by simp
  have b0: "pstart b \<in> coverage ?rest" and a0: "pstart a \<in> points a"
    using "1.prems" by (auto simp: points_def)
  show ?case (is "?L = ?R")
  proof (intro set_eqI iffI)
    fix t
    assume "t \<in> ?L"
    then consider "pend a \<le> t" "t < pstart b" | "t \<in> coverage (gaps_of ?rest)"
      by (auto simp: points_def)
    then show "t \<in> ?R"
    proof cases
      case 1
      then have "t \<notin> coverage (a # ?rest)" using up by (force simp: points_def)
      moreover have "pstart a < t" using 1 "1.prems" by simp
      ultimately show ?thesis using 1 a0 b0 by auto
    next
      case 2
      with "1.IH" "1.prems" obtain lo hi where
        t: "t \<notin> coverage ?rest" "lo \<in> coverage ?rest" "lo < t" "hi \<in> coverage ?rest" "t < hi"
        by auto
      then have "t \<notin> points a" using up [of lo] "1.prems" by (auto simp: points_def)
      with t show ?thesis by auto
    qed
  next
    fix t
    assume R: "t \<in> ?R"
    then obtain lo hi where t: "t \<notin> points a" "t \<notin> coverage ?rest"
      "lo \<in> points a \<union> coverage ?rest" "lo < t" "hi \<in> points a \<union> coverage ?rest" "t < hi"
      by auto
    have ge: "pend a \<le> t"
      using t(1,3,4) up [of lo] "1.prems" by (auto simp: points_def)
    then have hi: "hi \<in> coverage ?rest" using t(5,6) by (auto simp: points_def)
    show "t \<in> ?L"
    proof (cases "t < pstart b")
      case True
      with ge show ?thesis by (simp add: points_def)
    next
      case False
      then have "pstart b < t" using t(2) b0 by (metis linorder_less_linear)
      with t(2,6) hi b0 have "t \<in> coverage (gaps_of ?rest)"
        using "1.IH" "1.prems" by auto
      then show ?thesis by simp
    qed
  qed
qed (auto simp: points_def)

section \<open>Relations between two intervals\<close>

lemma points_subset_iff:
  "points q \<subseteq> points p \<longleftrightarrow> pend q \<le> pstart q \<or> (pstart p \<le> pstart q \<and> pend q \<le> pend p)"
proof
  assume sub: "points q \<subseteq> points p"
  show "pend q \<le> pstart q \<or> (pstart p \<le> pstart q \<and> pend q \<le> pend p)"
  proof (cases "pend q \<le> pstart q")
    case False
    then have "pstart q \<in> points q" "pend q - 1 \<in> points q" by (simp_all add: points_def)
    with sub have "pstart q \<in> points p" "pend q - 1 \<in> points p" by blast+
    then show ?thesis by (simp add: points_def)
  qed simp
qed (auto simp: points_def)

lemma points_inter_iff:
  assumes "valid p" "valid q"
  shows "points p \<inter> points q \<noteq> {} \<longleftrightarrow> Overlaps p q"
proof
  assume "Overlaps p q"
  then have "max (pstart p) (pstart q) \<in> points p \<inter> points q"
    using assms by (auto simp: Overlaps_def IsEmpty_def valid_def points_def)
  then show "points p \<inter> points q \<noteq> {}" by blast
qed (auto simp: Overlaps_def IsEmpty_def points_def)

lemma points_Intersect:
  assumes "valid p" "valid q"
  shows "points (fst (Intersect p q)) = points p \<inter> points q"
proof (cases "Overlaps p q")
  case True
  then show ?thesis by (auto simp: Intersect_def Let_def points_def)
next
  case False
  with points_inter_iff [OF assms] have "points p \<inter> points q = {}" by simp
  with False show ?thesis by (auto simp: Intersect_def zero_period_def points_def)
qed

section \<open>Properties\<close>

text \<open>C12. \<open>Merge\<close> computes the union: for intervals built by the package, its result covers
  exactly the instants its arguments cover, and it is in the documented normal form
  (non-empty intervals in ascending order that neither overlap nor touch).\<close>

theorem Merge_union:
  assumes "\<forall>p \<in> set ps. valid p"
  shows "coverage (Merge ps) = coverage ps \<and> canonical (Merge ps)"
  using Merge_correct [OF assms] by simp

theorem Merge_union_witness:
  "coverage (Merge [\<lparr>pstart = 5, pend = 8\<rparr>, \<lparr>pstart = 1, pend = 3\<rparr>, \<lparr>pstart = 3, pend = 4\<rparr>]) =
     coverage [\<lparr>pstart = 5, pend = 8\<rparr>, \<lparr>pstart = 1, pend = 3\<rparr>, \<lparr>pstart = 3, pend = 4\<rparr>] \<and>
   canonical (Merge [\<lparr>pstart = 5, pend = 8\<rparr>, \<lparr>pstart = 1, pend = 3\<rparr>, \<lparr>pstart = 3, pend = 4\<rparr>])"
  by (rule Merge_union) (simp add: valid_def)

text \<open>C26. The normal form is canonical: two lists of intervals have the same \<open>Merge\<close> exactly
  when they cover the same instants, so comparing merged lists decides set equality.\<close>

theorem Merge_decides_equality:
  assumes "\<forall>p \<in> set ps. valid p" and "\<forall>q \<in> set qs. valid q"
  shows "Merge ps = Merge qs \<longleftrightarrow> coverage ps = coverage qs"
  using canonical_unique [OF canonical_Merge canonical_Merge] assms
  by (metis coverage_Merge)

theorem Merge_decides_equality_witness:
  "Merge [\<lparr>pstart = 1, pend = 3\<rparr>, \<lparr>pstart = 3, pend = 4\<rparr>] = Merge [\<lparr>pstart = 1, pend = 4\<rparr>] \<longleftrightarrow>
   coverage [\<lparr>pstart = 1, pend = 3\<rparr>, \<lparr>pstart = 3, pend = 4\<rparr>] = coverage [\<lparr>pstart = 1, pend = 4\<rparr>]"
  by (rule Merge_decides_equality) (simp_all add: valid_def)

text \<open>C20. \<open>Subtract\<close> computes the set difference: what remains of \<open>p\<close> covers exactly the
  instants of \<open>p\<close> that no cut covers, again in normal form, whatever the order, overlap or
  emptiness of the cuts.\<close>

theorem Subtract_difference:
  assumes "valid p" and "\<forall>q \<in> set others. valid q"
  shows "coverage (Subtract p others) = points p - coverage others \<and>
         canonical (Subtract p others)"
proof (cases "IsEmpty p")
  case True
  then have "points p = {}" by (simp add: points_empty_iff IsEmpty_def)
  with True show ?thesis by (simp add: Subtract_def)
next
  case False
  then have "pstart p < pend p" using assms(1) by (simp add: valid_def IsEmpty_def)
  moreover have "{pstart p..<pend p} = points p" by (auto simp: points_def)
  ultimately show ?thesis
    using False Merge_correct [OF assms(2)]
    by (simp add: Subtract_def coverage_subtract_loop canonical_subtract_loop)
qed

theorem Subtract_difference_witness:
  "coverage (Subtract \<lparr>pstart = 0, pend = 10\<rparr> [\<lparr>pstart = 2, pend = 4\<rparr>, \<lparr>pstart = 3, pend = 6\<rparr>]) =
     points \<lparr>pstart = 0, pend = 10\<rparr> - coverage [\<lparr>pstart = 2, pend = 4\<rparr>, \<lparr>pstart = 3, pend = 6\<rparr>] \<and>
   canonical (Subtract \<lparr>pstart = 0, pend = 10\<rparr> [\<lparr>pstart = 2, pend = 4\<rparr>, \<lparr>pstart = 3, pend = 6\<rparr>])"
  by (rule Subtract_difference) (simp_all add: valid_def)

text \<open>C27. \<open>Gaps\<close> returns, in normal form, exactly the uncovered instants that lie between two
  covered ones: nothing before the earliest start or after the latest end.\<close>

theorem Gaps_missing_coverage:
  assumes "\<forall>p \<in> set ps. valid p"
  shows "coverage (Gaps ps) =
           {t. t \<notin> coverage ps \<and> (\<exists>lo \<in> coverage ps. lo < t) \<and> (\<exists>hi \<in> coverage ps. t < hi)} \<and>
         canonical (Gaps ps)"
  using Merge_correct [OF assms]
  by (simp add: Gaps_gaps_of coverage_gaps_of canonical_gaps_of)

theorem Gaps_missing_coverage_witness:
  "coverage (Gaps [\<lparr>pstart = 6, pend = 9\<rparr>, \<lparr>pstart = 0, pend = 2\<rparr>]) =
     {t. t \<notin> coverage [\<lparr>pstart = 6, pend = 9\<rparr>, \<lparr>pstart = 0, pend = 2\<rparr>] \<and>
         (\<exists>lo \<in> coverage [\<lparr>pstart = 6, pend = 9\<rparr>, \<lparr>pstart = 0, pend = 2\<rparr>]. lo < t) \<and>
         (\<exists>hi \<in> coverage [\<lparr>pstart = 6, pend = 9\<rparr>, \<lparr>pstart = 0, pend = 2\<rparr>]. t < hi)} \<and>
   canonical (Gaps [\<lparr>pstart = 6, pend = 9\<rparr>, \<lparr>pstart = 0, pend = 2\<rparr>])"
  by (rule Gaps_missing_coverage) (simp add: valid_def)

text \<open>Two non-empty disjoint intervals touch exactly when their union is an interval.\<close>

lemma touching_union:
  assumes "pstart p < pend p" "pstart q < pend q" "pend p \<le> pstart q"
  shows "pend p = pstart q \<longleftrightarrow> (\<exists>r. points p \<union> points q = points r)"
proof
  assume "pend p = pstart q"
  with assms have "points p \<union> points q = points \<lparr>pstart = pstart p, pend = pend q\<rparr>" by (auto simp: points_def)
  then show "\<exists>r. points p \<union> points q = points r" by blast
next
  assume "\<exists>r. points p \<union> points q = points r"
  then obtain r where r: "points p \<union> points q = points r" by blast
  show "pend p = pstart q"
  proof (rule ccontr)
    assume "pend p \<noteq> pstart q"
    moreover have "pstart p \<in> points r" "pstart q \<in> points r" using assms unfolding r [symmetric] by (auto simp: points_def)
    ultimately have "pend p \<in> points r" using assms by (auto simp: points_def)
    then show False using assms \<open>pend p \<noteq> pstart q\<close> unfolding r [symmetric] by (auto simp: points_def)
  qed
qed

lemma IsEmpty_points: "valid p \<Longrightarrow> IsEmpty p \<longleftrightarrow> points p = {}"
  unfolding points_empty_iff valid_def IsEmpty_def by linarith

lemma Adjacent_iff:
  assumes "valid p" and "valid q"
  shows "Adjacent p q \<longleftrightarrow> points p \<noteq> {} \<and> points q \<noteq> {} \<and> points p \<inter> points q = {} \<and>
    (\<exists>r. points p \<union> points q = points r)"
proof (cases "IsEmpty p \<or> IsEmpty q")
  case True
  then show ?thesis using assms by (auto simp: Adjacent_def IsEmpty_points)
next
  case False
  then have lt: "pstart p < pend p" "pstart q < pend q" using assms by (auto simp: valid_def IsEmpty_def)
  have ne: "points p \<noteq> {}" "points q \<noteq> {}" using False assms by (simp_all add: IsEmpty_points)
  have adj: "Adjacent p q \<longleftrightarrow> pend p = pstart q \<or> pend q = pstart p" using False by (simp add: Adjacent_def)
  have dis: "points p \<inter> points q = {} \<longleftrightarrow> pend p \<le> pstart q \<or> pend q \<le> pstart p"
    using points_inter_iff [OF assms] False by (auto simp: Overlaps_def)
  consider "pend p \<le> pstart q" | "pend q \<le> pstart p" | "points p \<inter> points q \<noteq> {}" using dis by blast
  then show ?thesis
  proof cases
    case 1
    then show ?thesis using touching_union [OF lt 1] lt ne dis adj by auto
  next
    case 2
    then show ?thesis using touching_union [OF lt(2,1) 2] lt ne dis adj by (auto simp: Un_commute)
  next
    case 3
    then show ?thesis using dis adj by auto
  qed
qed

text \<open>C28. The predicates on intervals decide the corresponding relations on sets of instants: \<open>Contains\<close> is
  membership, \<open>IsEmpty\<close> emptiness, \<open>Equal\<close> equality, \<open>ContainsPeriod\<close> inclusion and \<open>Overlaps\<close> a common instant; two
  intervals are \<open>Adjacent\<close> when they are non-empty, have no common instant and together form an interval.
  \<open>Intersect\<close> returns the common instants with a flag that says whether there are any.\<close>

theorem period_relations:
  assumes "valid p" and "valid q"
  shows "(Equal p q \<longleftrightarrow> points p = points q) \<and>
         (ContainsPeriod p q \<longleftrightarrow> points q \<subseteq> points p) \<and>
         (Overlaps p q \<longleftrightarrow> points p \<inter> points q \<noteq> {}) \<and>
         (snd (Intersect p q) \<longleftrightarrow> points p \<inter> points q \<noteq> {}) \<and>
         points (fst (Intersect p q)) = points p \<inter> points q \<and>
         (Contains p t \<longleftrightarrow> t \<in> points p) \<and>
         (IsEmpty p \<longleftrightarrow> points p = {}) \<and>
         (Adjacent p q \<longleftrightarrow> points p \<noteq> {} \<and> points q \<noteq> {} \<and> points p \<inter> points q = {} \<and>
            (\<exists>r. points p \<union> points q = points r))"
proof -
  have eq: "Equal p q \<longleftrightarrow> points p = points q"
    using assms by (auto simp: set_eq_subset points_subset_iff Equal_def IsEmpty_def valid_def)
  have sub: "ContainsPeriod p q \<longleftrightarrow> points q \<subseteq> points p"
    using assms by (auto simp: points_subset_iff ContainsPeriod_def IsEmpty_def valid_def)
  have int: "snd (Intersect p q) \<longleftrightarrow> points p \<inter> points q \<noteq> {}"
    unfolding points_inter_iff [OF assms] by (simp add: Intersect_def Let_def)
  have mem: "Contains p t \<longleftrightarrow> t \<in> points p" unfolding Contains_def points_def by (simp add: not_less)
  show ?thesis
    by (intro conjI eq sub int mem points_inter_iff [OF assms, symmetric] points_Intersect [OF assms]
        IsEmpty_points [OF assms(1)] Adjacent_iff [OF assms])
qed

theorem period_relations_witness:
  "Contains \<lparr>pstart = 0, pend = 5\<rparr> 4 \<and> 4 \<in> points \<lparr>pstart = 0, pend = 5\<rparr> \<and>
   Adjacent \<lparr>pstart = 0, pend = 5\<rparr> \<lparr>pstart = 5, pend = 9\<rparr> \<and>
   (\<exists>r. points \<lparr>pstart = 0, pend = 5\<rparr> \<union> points \<lparr>pstart = 5, pend = 9\<rparr> = points r) \<and>
   points (fst (Intersect \<lparr>pstart = 0, pend = 5\<rparr> \<lparr>pstart = 3, pend = 9\<rparr>)) =
     points \<lparr>pstart = 0, pend = 5\<rparr> \<inter> points \<lparr>pstart = 3, pend = 9\<rparr>"
proof -
  have v: "valid \<lparr>pstart = 0, pend = 5\<rparr>" "valid \<lparr>pstart = 5, pend = 9\<rparr>" "valid \<lparr>pstart = 3, pend = 9\<rparr>"
    by (simp_all add: valid_def)
  let ?p = "\<lparr>pstart = 0, pend = 5\<rparr>" and ?q = "\<lparr>pstart = 5, pend = 9\<rparr>"
  have c: "Contains ?p 4" and a: "Adjacent ?p ?q"
    by (simp_all add: Contains_def Adjacent_def IsEmpty_def)
  note rel = period_relations [OF v(1,2), of 4]
  have "4 \<in> points ?p" using rel c by (elim conjE) (simp only: simp_thms)
  moreover have "\<exists>r. points ?p \<union> points ?q = points r"
    using rel a by (elim conjE) (simp only: simp_thms)
  moreover have "points (fst (Intersect ?p \<lparr>pstart = 3, pend = 9\<rparr>)) = points ?p \<inter> points \<lparr>pstart = 3, pend = 9\<rparr>"
    using period_relations [OF v(1,3), of 4] by (elim conjE)
  ultimately show ?thesis by (intro conjI c a)
qed

end
