(* ===== verification/RateLimit.thy ===== *)
theory RateLimit
  imports Prelude
begin

text \<open>
  Package \<open>ratelimit\<close> (\<open>src/ratelimit\<close>): limits and their validation, the \<open>Store\<close> interface
  and the \<open>Limiter\<close>. A store is a vtable of operations over a state type; the clock reading an
  operation takes is an argument, in microseconds. The locale \<open>ratelimit_store\<close> is the contract
  of the interface as the generic cell rate algorithm (GCRA), in unbounded integers; what a
  limiter guarantees is proved in it once, for every store.
\<close>

section \<open>Limits\<close>

text \<open>Durations are nanoseconds.\<close>

record Limit =
  lRate :: int
  lPeriod :: int
  lBurst :: int

definition Microsecond :: int where "Microsecond = 1000"
definition Second :: int where "Second = 1000000000"
definition Minute :: int where "Minute = 60 * Second"
definition Hour :: int where "Hour = 60 * Minute"

definition PerSecond :: "int \<Rightarrow> Limit" where
  "PerSecond rate = \<lparr>lRate = rate, lPeriod = Second, lBurst = rate\<rparr>"

definition PerMinute :: "int \<Rightarrow> Limit" where
  "PerMinute rate = \<lparr>lRate = rate, lPeriod = Minute, lBurst = rate\<rparr>"

definition PerHour :: "int \<Rightarrow> Limit" where
  "PerHour rate = \<lparr>lRate = rate, lPeriod = Hour, lBurst = rate\<rparr>"

definition ErrInvalidContext :: go_error where
  "ErrInvalidContext = Sentinel ''ratelimit: invalid context''"
definition ErrInvalidKey :: go_error where
  "ErrInvalidKey = Sentinel ''ratelimit: invalid key''"
definition ErrInvalidLimit :: go_error where
  "ErrInvalidLimit = Sentinel ''ratelimit: invalid limit''"
definition ErrInvalidCost :: go_error where
  "ErrInvalidCost = Sentinel ''ratelimit: invalid cost''"
definition ErrNilStore :: go_error where
  "ErrNilStore = Sentinel ''ratelimit: nil store''"

definition divideRoundUp :: "int \<Rightarrow> int \<Rightarrow> int" where
  "divideRoundUp value divisor =
     (let result = go_div value divisor
      in if go_mod value divisor \<noteq> 0 then i64 (result + 1) else result)"

definition validateLimit :: "Limit \<Rightarrow> go_error option" where
  "validateLimit limit =
     (if lRate limit \<le> 0 then Some (Wrapped ''rate must be greater than zero'' ErrInvalidLimit)
      else if lPeriod limit \<le> 0 then Some (Wrapped ''period must be greater than zero'' ErrInvalidLimit)
      else if lBurst limit \<le> 0 then Some (Wrapped ''burst must be greater than zero'' ErrInvalidLimit)
      else
        let rate = lRate limit;
            periodNanos = lPeriod limit
        in if rate > go_div periodNanos Microsecond
           then Some (Wrapped ''replenishment interval must be at least one microsecond'' ErrInvalidLimit)
           else
             let intervalNanos = divideRoundUp periodNanos rate;
                 interval = divideRoundUp intervalNanos Microsecond
             in if lBurst limit > go_div MaxInt64 interval \<or>
                   i64 (interval * lBurst limit) > go_div MaxInt64 Microsecond
                then Some (Wrapped ''burst duration overflows time.Duration'' ErrInvalidLimit)
                else None)"

section \<open>The store interface and the limiter\<close>

record Decision =
  dLimit :: Limit
  dAllowed :: bool
  dRemaining :: int
  dRetryAfter :: int
  dResetAfter :: int

record TakeRequest =
  tKey :: string
  tLimit :: Limit
  tCost :: int

record 's Store =
  Store_Take :: "int \<Rightarrow> go_context \<Rightarrow> TakeRequest \<Rightarrow> 's \<Rightarrow> (go_error + Decision) outcome \<times> 's"
  Store_Reset :: "int \<Rightarrow> go_context \<Rightarrow> string \<Rightarrow> 's \<Rightarrow> go_error option \<times> 's"

record 's Limiter =
  limiter_store :: "'s Store"
  limiter_limit :: Limit

definition New :: "'s Store option \<Rightarrow> Limit \<Rightarrow> go_error + 's Limiter" where
  "New store limit =
     (case store of
        None \<Rightarrow> Inl ErrNilStore
      | Some st \<Rightarrow>
          (case validateLimit limit of
             Some err \<Rightarrow> Inl err
           | None \<Rightarrow> Inr \<lparr>limiter_store = st, limiter_limit = limit\<rparr>))"

definition validateContext :: "go_context \<Rightarrow> go_error option" where
  "validateContext = validateContext_with ErrInvalidContext"

text \<open>The store is called with the same context; the checks it makes come after the one of
  \<open>validateContext\<close>.\<close>

definition AllowN :: "'s Limiter \<Rightarrow> int \<Rightarrow> go_context \<Rightarrow> string \<Rightarrow> int \<Rightarrow> 's
    \<Rightarrow> (go_error + Decision) outcome \<times> 's" where
  "AllowN l now ctx key cost s =
     (case validateContext ctx of
        Some err \<Rightarrow> (Return (Inl err), s)
      | None \<Rightarrow>
          if key = [] then (Return (Inl ErrInvalidKey), s)
          else if cost < 1 \<or> cost > lBurst (limiter_limit l) then (Return (Inl ErrInvalidCost), s)
          else
            (case Store_Take (limiter_store l) now (map_option (ctx_after 1) ctx)
                    \<lparr>tKey = key, tLimit = limiter_limit l, tCost = cost\<rparr> s of
               (Return (Inl err), s') \<Rightarrow> (Return (Inl (Wrapped ''ratelimit: take'' err)), s')
             | (Return (Inr decision), s') \<Rightarrow>
                 (Return (Inr (decision\<lparr>dLimit := limiter_limit l\<rparr>)), s')
             | (Panic, s') \<Rightarrow> (Panic, s')))"

definition Allow :: "'s Limiter \<Rightarrow> int \<Rightarrow> go_context \<Rightarrow> string \<Rightarrow> 's
    \<Rightarrow> (go_error + Decision) outcome \<times> 's" where
  "Allow l now ctx key s = AllowN l now ctx key 1 s"

definition Reset :: "'s Limiter \<Rightarrow> int \<Rightarrow> go_context \<Rightarrow> string \<Rightarrow> 's \<Rightarrow> go_error option \<times> 's" where
  "Reset l now ctx key s =
     (case validateContext ctx of
        Some err \<Rightarrow> (Some err, s)
      | None \<Rightarrow>
          if key = [] then (Some ErrInvalidKey, s)
          else
            (case Store_Reset (limiter_store l) now (map_option (ctx_after 1) ctx) key s of
               (Some err, s') \<Rightarrow> (Some (Wrapped ''ratelimit: reset'' err), s')
             | (None, s') \<Rightarrow> (None, s')))"

section \<open>Specification: the generic cell rate algorithm\<close>

text \<open>
  Per key the algorithm keeps a theoretical arrival time (TAT). \<open>gcra_interval\<close> is the time one
  unit takes to be replenished, rounded up to microseconds.
\<close>

definition gcra_interval :: "Limit \<Rightarrow> int" where
  "gcra_interval limit = divideRoundUp (divideRoundUp (lPeriod limit) (lRate limit)) Microsecond"

definition valid_limit :: "Limit \<Rightarrow> bool" where
  "valid_limit limit \<longleftrightarrow> validateLimit limit = None \<and> in_i64 (lPeriod limit)"

definition burst_offset :: "Limit \<Rightarrow> int" where
  "burst_offset limit = gcra_interval limit * lBurst limit"

definition gcra_available :: "Limit \<Rightarrow> int \<Rightarrow> int \<Rightarrow> int" where
  "gcra_available limit now tat = max 0 ((now + burst_offset limit - tat) div gcra_interval limit)"

definition gcra_allows :: "Limit \<Rightarrow> int \<Rightarrow> int \<Rightarrow> int \<Rightarrow> bool" where
  "gcra_allows limit now tat cost \<longleftrightarrow> tat + gcra_interval limit * cost \<le> now + burst_offset limit"

definition gcra_next :: "Limit \<Rightarrow> int \<Rightarrow> int \<Rightarrow> int \<Rightarrow> int" where
  "gcra_next limit now tat cost =
     (if gcra_allows limit now tat cost then tat + gcra_interval limit * cost else tat)"

definition gcra_decision :: "Limit \<Rightarrow> int \<Rightarrow> int \<Rightarrow> int \<Rightarrow> Decision" where
  "gcra_decision limit now tat cost =
     \<lparr>dLimit = limit,
      dAllowed = gcra_allows limit now tat cost,
      dRemaining = gcra_available limit now (gcra_next limit now tat cost),
      dRetryAfter =
        (if gcra_allows limit now tat cost then 0
         else (tat + gcra_interval limit * cost - burst_offset limit - now) * Microsecond),
      dResetAfter = (gcra_next limit now tat cost - now) * Microsecond\<rparr>"

text \<open>The range of clock readings (up to the year 75000) in which the 64-bit arithmetic of the
  stores is exact.\<close>

definition clock_ok :: "int \<Rightarrow> bool" where
  "clock_ok now \<longleftrightarrow> 0 \<le> now \<and> now \<le> 2305843009213693952"

section \<open>Validation\<close>

lemma divideRoundUp_pos:
  assumes "0 < v" "v \<le> MaxInt64" "0 < d"
  shows "divideRoundUp v d = (if v mod d \<noteq> 0 then v div d + 1 else v div d)"
    and "0 < divideRoundUp v d" and "v \<le> d * divideRoundUp v d" and "divideRoundUp v d \<le> v"
proof -
  let ?q = "if v mod d \<noteq> 0 then v div d + 1 else v div d"
  have b: "v \<le> d * ?q" "d * ?q < v + d"
    using div_round_up_bounds [OF assms(3)] by blast+
  have pos: "0 < ?q" using div_round_up_pos [OF assms(3,1)] .
  have le: "?q \<le> v"
  proof -
    have "d * ?q < v + d" by (rule b(2))
    moreover have "1 * v \<le> d * v" using assms by (intro mult_right_mono) auto
    then have "v + d \<le> d * (v + 1)" by (simp add: distrib_left)
    ultimately have "d * ?q < d * (v + 1)" by linarith
    then have "?q < v + 1" using assms(3) by (simp add: mult_less_cancel_left_pos)
    then show ?thesis by linarith
  qed
  have "in_i64 ?q" using pos le assms(2) by (intro in_i64_nonneg) linarith+
  then show eq: "divideRoundUp v d = ?q"
    using assms by (auto simp: divideRoundUp_def Let_def go_div_nonneg go_mod_nonneg i64_id split: if_splits)
  show "0 < divideRoundUp v d" "v \<le> d * divideRoundUp v d" "divideRoundUp v d \<le> v"
    using pos b(1) le eq by simp_all
qed

lemma valid_limitD:
  assumes "valid_limit l"
  shows "0 < lRate l" "0 < lPeriod l" "0 < lBurst l" "0 < gcra_interval l"
    "lPeriod l \<le> lRate l * gcra_interval l * Microsecond"
    "burst_offset l * Microsecond \<le> MaxInt64"
proof -
  have v: "validateLimit l = None" and per: "lPeriod l \<le> MaxInt64"
    using assms by (auto simp: valid_limit_def in_i64_def)
  show pos: "0 < lRate l" "0 < lPeriod l" "0 < lBurst l"
    using v by (auto simp: validateLimit_def split: if_splits)
  let ?n = "divideRoundUp (lPeriod l) (lRate l)"
  have n: "0 < ?n" "lPeriod l \<le> lRate l * ?n" "?n \<le> MaxInt64"
    using divideRoundUp_pos(2,3,4) [OF pos(2) per pos(1)] per by auto
  have us: "0 < Microsecond" by (simp add: Microsecond_def)
  have i: "0 < gcra_interval l" "?n \<le> Microsecond * gcra_interval l"
    using divideRoundUp_pos(2,3) [OF n(1,3) us] by (simp_all add: gcra_interval_def)
  show "0 < gcra_interval l" by (rule i(1))
  have "lRate l * ?n \<le> lRate l * (Microsecond * gcra_interval l)"
    using i(2) pos(1) by (intro mult_left_mono) auto
  with n(2) show "lPeriod l \<le> lRate l * gcra_interval l * Microsecond"
    by (simp add: ac_simps)
  have burst: "lBurst l \<le> go_div MaxInt64 (gcra_interval l)"
    "i64 (gcra_interval l * lBurst l) \<le> go_div MaxInt64 Microsecond"
    using v by (auto simp: validateLimit_def gcra_interval_def Let_def split: if_splits)
  have "lBurst l \<le> MaxInt64 div gcra_interval l"
    using burst(1) i(1) by (simp add: go_div_nonneg MaxInt64_def)
  then have "gcra_interval l * lBurst l \<le> gcra_interval l * (MaxInt64 div gcra_interval l)"
    using i(1) by (intro mult_left_mono) auto
  also have "\<dots> \<le> MaxInt64"
    using i(1) by (simp add: MaxInt64_def minus_mod_eq_mult_div [symmetric])
  finally have "in_i64 (gcra_interval l * lBurst l)"
    using i(1) pos(3) by (intro in_i64_nonneg) auto
  then have "burst_offset l \<le> MaxInt64 div Microsecond"
    using burst(2) by (simp add: burst_offset_def i64_id go_div_nonneg MaxInt64_def Microsecond_def)
  then show "burst_offset l * Microsecond \<le> MaxInt64"
    by (simp add: MaxInt64_def Microsecond_def)
qed

lemma divideRoundUp_least:
  assumes "0 < v" "v \<le> MaxInt64" "0 < d"
  shows "d * (divideRoundUp v d - 1) < v"
  using div_round_up_bounds [OF assms(3), of v] divideRoundUp_pos(1) [OF assms]
  by (simp add: right_diff_distrib)

text \<open>The double rounding of the interval is the rounding up of the exact quotient.\<close>

lemma gcra_interval_least:
  assumes "0 < lRate l" "0 < lPeriod l" "lPeriod l \<le> MaxInt64"
  shows "lRate l * ((gcra_interval l - 1) * Microsecond) < lPeriod l"
proof -
  let ?n = "divideRoundUp (lPeriod l) (lRate l)"
  have n: "0 < ?n" "?n \<le> MaxInt64" "lRate l * (?n - 1) < lPeriod l"
    using divideRoundUp_pos(2,4) [OF assms(2,3,1)] divideRoundUp_least [OF assms(2,3,1)] assms(3) by auto
  have "Microsecond * (gcra_interval l - 1) < ?n"
    using divideRoundUp_least [OF n(1,2), of Microsecond] by (simp add: gcra_interval_def Microsecond_def)
  then have "lRate l * ((gcra_interval l - 1) * Microsecond) \<le> lRate l * (?n - 1)"
    using assms(1) by (intro mult_left_mono) (auto simp: mult.commute)
  with n(3) show ?thesis by linarith
qed

lemma validateLimit_rate:
  assumes "validateLimit l = None"
  shows "lRate l * Microsecond \<le> lPeriod l"
proof -
  have "0 < lPeriod l" "lRate l \<le> go_div (lPeriod l) Microsecond"
    using assms by (auto simp: validateLimit_def Let_def split: if_splits)
  then show ?thesis by (simp add: go_div_nonneg Microsecond_def)
qed

lemma validateLimit_accepts:
  assumes "0 < lRate l" "0 < lPeriod l" "lPeriod l \<le> MaxInt64" "0 < lBurst l"
    and "lRate l * Microsecond \<le> lPeriod l" "gcra_interval l * lBurst l * Microsecond \<le> MaxInt64"
  shows "validateLimit l = None"
proof -
  have n: "0 < divideRoundUp (lPeriod l) (lRate l)" "divideRoundUp (lPeriod l) (lRate l) \<le> MaxInt64"
    using divideRoundUp_pos(2,4) [OF assms(2,3,1)] assms(3) by auto
  have i: "0 < gcra_interval l"
    using divideRoundUp_pos(2) [OF n, of Microsecond] by (simp add: gcra_interval_def Microsecond_def)
  have prod: "0 < gcra_interval l * lBurst l" "gcra_interval l * lBurst l \<le> MaxInt64 div Microsecond"
    using assms(4,6) i by (simp_all add: Microsecond_def MaxInt64_def)
  then have le: "gcra_interval l * lBurst l \<le> MaxInt64" by (simp add: Microsecond_def MaxInt64_def)
  then have "lBurst l \<le> MaxInt64 div gcra_interval l"
    using i by (simp add: le_div_iff_mult_le mult.commute)
  moreover have "i64 (gcra_interval l * lBurst l) = gcra_interval l * lBurst l"
    using prod le by (intro i64_id in_i64_nonneg) auto
  moreover have "lRate l \<le> lPeriod l div Microsecond"
    using assms(5) by (simp add: Microsecond_def)
  moreover have "0 < MaxInt64" "0 < Microsecond" by (simp_all add: MaxInt64_def Microsecond_def)
  ultimately show ?thesis
    using assms(1,2,4) prod i
    by (simp add: validateLimit_def Let_def gcra_interval_def [symmetric] go_div_nonneg)
qed

section \<open>Laws of the algorithm\<close>

lemma available_iff:
  assumes "0 < gcra_interval l" "1 \<le> c"
  shows "c \<le> gcra_available l now tat \<longleftrightarrow> gcra_allows l now tat c"
proof -
  let ?x = "now + burst_offset l - tat"
  have "c \<le> gcra_available l now tat \<longleftrightarrow> c \<le> ?x div gcra_interval l"
    using assms(2) by (auto simp: gcra_available_def)
  also have "\<dots> \<longleftrightarrow> c * gcra_interval l \<le> ?x"
    using assms(1) by (rule le_div_iff_mult_le)
  finally show ?thesis by (auto simp: gcra_allows_def algebra_simps)
qed

lemma gcra_allows_at:
  assumes "0 < gcra_interval l" "c \<le> lBurst l"
  shows "gcra_allows l now (max now tat) c \<longleftrightarrow> tat + gcra_interval l * c - burst_offset l \<le> now"
proof -
  have "gcra_interval l * c \<le> burst_offset l"
    using assms by (simp add: burst_offset_def mult_left_mono)
  then show ?thesis by (auto simp: gcra_allows_def max_def)
qed

section \<open>Sequences of calls on one limiter\<close>

datatype limiter_call =
    CallAllowN int go_context string int
  | CallReset int go_context string

fun call_clock :: "limiter_call \<Rightarrow> int" where
  "call_clock (CallAllowN now ctx key cost) = now"
| "call_clock (CallReset now ctx key) = now"

fun resets_key :: "string \<Rightarrow> limiter_call \<Rightarrow> bool" where
  "resets_key k (CallAllowN now ctx key cost) = False"
| "resets_key k (CallReset now ctx key) = (key = k)"

fun was_allowed :: "(go_error + Decision) outcome \<Rightarrow> bool" where
  "was_allowed (Return (Inr d)) = dAllowed d"
| "was_allowed _ = False"

text \<open>The units consumed for key \<open>k\<close> by a sequence of calls, and the final state.\<close>

fun consumed :: "'s Limiter \<Rightarrow> string \<Rightarrow> limiter_call list \<Rightarrow> 's \<Rightarrow> int \<times> 's" where
  "consumed l k [] s = (0, s)"
| "consumed l k (CallAllowN now ctx key cost # calls) s =
     (let (r, s') = AllowN l now ctx key cost s;
          (n, s'') = consumed l k calls s'
      in ((if key = k \<and> was_allowed r then cost else 0) + n, s''))"
| "consumed l k (CallReset now ctx key # calls) s =
     (let (r, s') = Reset l now ctx key s in consumed l k calls s')"

section \<open>Contract of the Store interface\<close>

text \<open>
  \<open>level s now k\<close> is the theoretical arrival time of key \<open>k\<close> seen at clock reading \<open>now\<close>: a stored
  value in the past counts as \<open>now\<close>, so dropping expired records is invisible. \<open>invar s t\<close> is
  the representation invariant of a store last used no later than \<open>t\<close>.
\<close>

locale ratelimit_store =
  fixes ops :: "'s Store"
    and level :: "'s \<Rightarrow> int \<Rightarrow> string \<Rightarrow> int"
    and invar :: "'s \<Rightarrow> int \<Rightarrow> bool"
  assumes level_later: "invar s t \<Longrightarrow> t \<le> now \<Longrightarrow> now \<le> now' \<Longrightarrow>
      level s now' k = max now' (level s now k)"
    and invar_later: "invar s t \<Longrightarrow> t \<le> t' \<Longrightarrow> invar s t'"
    and take_law: "invar s t \<Longrightarrow> t \<le> now \<Longrightarrow> clock_ok now \<Longrightarrow> obs 0 = None \<Longrightarrow> obs 1 = None \<Longrightarrow>
      valid_limit l \<Longrightarrow> 1 \<le> cost \<Longrightarrow> cost \<le> lBurst l \<Longrightarrow>
      \<exists>s'. Store_Take ops now (Some obs) \<lparr>tKey = key, tLimit = l, tCost = cost\<rparr> s =
             (Return (Inr (gcra_decision l now (level s now key) cost)), s') \<and>
           invar s' now \<and>
           (\<forall>k. level s' now k =
              (if k = key then gcra_next l now (level s now key) cost else level s now k))"
    and take_canceled: "obs 0 = Some e \<or> obs 0 = None \<and> obs 1 = Some e \<Longrightarrow>
      Store_Take ops now (Some obs) req s = (Return (Inl e), s)"
    and reset_law: "invar s t \<Longrightarrow> t \<le> now \<Longrightarrow> clock_ok now \<Longrightarrow> obs 0 = None \<Longrightarrow> obs 1 = None \<Longrightarrow>
      \<exists>s'. Store_Reset ops now (Some obs) key s = (None, s') \<and> invar s' now \<and>
           (\<forall>k. level s' now k = (if k = key then now else level s now k))"
    and reset_canceled: "obs 0 = Some e \<or> obs 0 = None \<and> obs 1 = Some e \<Longrightarrow>
      Store_Reset ops now (Some obs) key s = (Some e, s)"
begin

lemma level_ge: "invar s t \<Longrightarrow> t \<le> now \<Longrightarrow> now \<le> level s now k"
  using level_later [of s t now now k] by linarith

text \<open>A call that is not refused as invalid or cancelled is decided by the algorithm.\<close>

lemma AllowN_decides:
  assumes "invar s t" "t \<le> now" "clock_ok now" "valid_limit l" "key \<noteq> []" "1 \<le> cost" "cost \<le> lBurst l"
    and "obs 0 = None" "obs 1 = None" "obs 2 = None"
  shows "\<exists>s'. AllowN \<lparr>limiter_store = ops, limiter_limit = l\<rparr> now (Some obs) key cost s =
             (Return (Inr (gcra_decision l now (level s now key) cost)), s') \<and>
           invar s' now \<and>
           (\<forall>k. level s' now k =
              (if k = key then gcra_next l now (level s now key) cost else level s now k))"
proof -
  have obs: "ctx_after 1 obs 0 = None" "ctx_after 1 obs 1 = None"
    using assms(9,10) by (simp_all add: ctx_after_def numeral_2_eq_2)
  obtain s' where s': "Store_Take ops now (Some (ctx_after 1 obs)) \<lparr>tKey = key, tLimit = l, tCost = cost\<rparr> s =
      (Return (Inr (gcra_decision l now (level s now key) cost)), s')"
    and post: "invar s' now" "\<forall>k. level s' now k =
      (if k = key then gcra_next l now (level s now key) cost else level s now k)"
    using take_law [OF assms(1,2,3) obs assms(4,6,7)] by blast
  have "AllowN \<lparr>limiter_store = ops, limiter_limit = l\<rparr> now (Some obs) key cost s =
      (Return (Inr (gcra_decision l now (level s now key) cost)), s')"
    using assms s' by (simp add: AllowN_def validateContext_def validateContext_with_def gcra_decision_def)
  with post show ?thesis by blast
qed

lemma AllowN_effect:
  assumes "invar s t" "t \<le> now" "clock_ok now" "valid_limit l"
    and "AllowN \<lparr>limiter_store = ops, limiter_limit = l\<rparr> now ctx key cost s = (r, s')"
  shows "(\<exists>e. r = Return (Inl e) \<and> s' = s) \<or>
    (r = Return (Inr (gcra_decision l now (level s now key) cost)) \<and> 1 \<le> cost \<and> cost \<le> lBurst l \<and>
     invar s' now \<and>
     (\<forall>k. level s' now k =
        (if k = key then gcra_next l now (level s now key) cost else level s now k)))"
proof (cases "\<exists>obs. ctx = Some obs \<and> obs 0 = None \<and> obs 1 = None \<and> obs 2 = None \<and> key \<noteq> [] \<and>
    1 \<le> cost \<and> cost \<le> lBurst l")
  case True
  then obtain obs where c: "ctx = Some obs" "obs 0 = None" "obs 1 = None" "obs 2 = None" "key \<noteq> []"
    "1 \<le> cost" "cost \<le> lBurst l" by blast
  with AllowN_decides [OF assms(1,2,3,4) c(5,6,7,2,3,4)] assms(5) show ?thesis by auto
next
  case False
  show ?thesis
  proof (cases "\<exists>obs. ctx = Some obs \<and> obs 0 = None \<and> key \<noteq> [] \<and> 1 \<le> cost \<and> cost \<le> lBurst l")
    case True
    then obtain obs where c: "ctx = Some obs" "obs 0 = None" "key \<noteq> []" "1 \<le> cost" "cost \<le> lBurst l"
      by blast
    with False have "obs 1 \<noteq> None \<or> obs 2 \<noteq> None" by auto
    then obtain e where "ctx_after 1 obs 0 = Some e \<or> ctx_after 1 obs 0 = None \<and> ctx_after 1 obs 1 = Some e"
      by (cases "obs 1") (auto simp: ctx_after_def numeral_2_eq_2)
    then have "Store_Take ops now (Some (ctx_after 1 obs)) req s = (Return (Inl e), s)" for req
      by (rule take_canceled)
    with c assms(5) show ?thesis
      by (auto simp: AllowN_def validateContext_def validateContext_with_def)
  next
    case False
    with assms(5) show ?thesis
      by (auto simp: AllowN_def validateContext_def validateContext_with_def split: option.splits if_splits)
  qed
qed

lemma Reset_effect:
  assumes "invar s t" "t \<le> now" "clock_ok now"
    and "Reset \<lparr>limiter_store = ops, limiter_limit = l\<rparr> now ctx key s = (r, s')"
  shows "s' = s \<or> (invar s' now \<and> (\<forall>k. level s' now k = (if k = key then now else level s now k)))"
proof (cases "\<exists>obs. ctx = Some obs \<and> obs 0 = None \<and> key \<noteq> []")
  case True
  then obtain obs where c: "ctx = Some obs" "obs 0 = None" "key \<noteq> []" by blast
  let ?o = "ctx_after 1 obs"
  consider (ok) "?o 0 = None" "?o 1 = None" | (err) e where "?o 0 = Some e \<or> ?o 0 = None \<and> ?o 1 = Some e"
    by (cases "?o 0"; cases "?o 1") auto
  then show ?thesis
  proof cases
    case ok
    with reset_law [OF assms(1,2,3) ok, of key] c assms(4) show ?thesis
      by (auto simp: Reset_def validateContext_def validateContext_with_def)
  next
    case err
    with reset_canceled [OF err] c assms(4) show ?thesis
      by (auto simp: Reset_def validateContext_def validateContext_with_def)
  qed
next
  case False
  with assms(4) show ?thesis
    by (auto simp: Reset_def validateContext_def validateContext_with_def split: option.splits if_splits)
qed

text \<open>The rate guarantee, relative to the level of the key when the calls start.\<close>

lemma consumed_bound_level:
  assumes "valid_limit l" "invar s t" "t \<le> t0"
    and "sorted (map call_clock calls)"
    and "\<forall>c \<in> set calls. t0 \<le> call_clock c \<and> call_clock c \<le> t1 \<and> clock_ok (call_clock c) \<and> \<not> resets_key k c"
  shows "fst (consumed \<lparr>limiter_store = ops, limiter_limit = l\<rparr> k calls s) * gcra_interval l
           \<le> max 0 (t1 + burst_offset l - level s t0 k)"
  using assms
proof (induction calls arbitrary: s t t0)
  case Nil
  then show ?case by simp
next
  case (Cons c calls)
  let ?l = "\<lparr>limiter_store = ops, limiter_limit = l\<rparr>"
  let ?now = "call_clock c"
  have now: "t \<le> ?now" "t0 \<le> ?now" "clock_ok ?now" "?now \<le> t1"
    using Cons.prems(3,5) by auto
  have lev: "level s t0 k \<le> level s ?now k"
    using level_later [OF Cons.prems(2,3) now(2)] by simp
  have rest: "fst (consumed ?l k calls s') * gcra_interval l \<le> max 0 (t1 + burst_offset l - level s' ?now k)"
    if "invar s' ?now" for s'
    by (rule Cons.IH [OF Cons.prems(1) that order_refl]) (use Cons.prems(4,5) in auto)
  have inv: "invar s ?now" using invar_later [OF Cons.prems(2) now(1)] .
  show ?case
  proof (cases c)
    case (CallReset n ctx key)
    obtain r s' where r: "Reset ?l ?now ctx key s = (r, s')" by fastforce
    have ne: "key \<noteq> k" using Cons.prems(5) CallReset by simp
    have "invar s' ?now \<and> level s' ?now k = level s ?now k"
      using Reset_effect [OF Cons.prems(2) now(1,3) r] inv ne by auto
    with rest [of s'] lev r CallReset show ?thesis by simp
  next
    case (CallAllowN n ctx key cost)
    obtain r s' where r: "AllowN ?l ?now ctx key cost s = (r, s')" by fastforce
    obtain m s'' where m: "consumed ?l k calls s' = (m, s'')" by fastforce
    have eq: "fst (consumed ?l k (c # calls) s) = (if key = k \<and> was_allowed r then cost else 0) + m"
      using r m CallAllowN by simp
    from AllowN_effect [OF Cons.prems(2) now(1,3) Cons.prems(1) r] consider
      (refused) e where "r = Return (Inl e)" "s' = s"
      | (other) "invar s' ?now" "level s' ?now k = level s ?now k" "\<not> (key = k \<and> was_allowed r)"
      | (hit) "invar s' ?now" "key = k" "was_allowed r"
          "gcra_allows l ?now (level s ?now k) cost"
          "level s' ?now k = level s ?now k + gcra_interval l * cost"
      by (cases "key = k"; cases "gcra_allows l ?now (level s ?now k) cost")
        (auto simp: gcra_next_def gcra_decision_def)
    then show ?thesis
    proof cases
      case refused
      with rest [of s] inv lev eq m show ?thesis by simp
    next
      case other
      with rest [of s'] lev eq m show ?thesis by simp
    next
      case hit
      have "level s' ?now k \<le> t1 + burst_offset l"
        using hit(4,5) now(4) by (simp add: gcra_allows_def)
      with rest [OF hit(1)] m have "m * gcra_interval l \<le> t1 + burst_offset l - level s' ?now k" by simp
      moreover have "(cost + m) * gcra_interval l = gcra_interval l * cost + m * gcra_interval l"
        by (simp add: algebra_simps)
      ultimately show ?thesis using hit lev eq by simp
    qed
  qed
qed

lemma consumed_bound:
  assumes "valid_limit l" "invar s t0"
    and "sorted (map call_clock calls)"
    and "\<forall>c \<in> set calls. t0 \<le> call_clock c \<and> call_clock c \<le> t1 \<and> clock_ok (call_clock c) \<and> \<not> resets_key k c"
    and "t0 \<le> t1"
  defines "n \<equiv> fst (consumed \<lparr>limiter_store = ops, limiter_limit = l\<rparr> k calls s)"
  shows "(n - lBurst l) * lPeriod l \<le> lRate l * ((t1 - t0) * Microsecond)"
proof -
  have "n * gcra_interval l \<le> max 0 (t1 + burst_offset l - level s t0 k)"
    unfolding n_def by (rule consumed_bound_level [OF assms(1,2) order_refl assms(3,4)])
  moreover have "t0 \<le> level s t0 k" using level_ge [OF assms(2) order_refl] .
  moreover have "0 \<le> burst_offset l"
    using valid_limitD(3,4) [OF assms(1)] by (simp add: burst_offset_def)
  ultimately have le: "(n - lBurst l) * gcra_interval l \<le> t1 - t0"
    using assms(5) by (simp add: burst_offset_def algebra_simps)
  show ?thesis
  proof (cases "n \<le> lBurst l")
    case True
    have "(n - lBurst l) * lPeriod l \<le> 0"
      using True valid_limitD(2) [OF assms(1)] by (simp add: mult_le_0_iff)
    moreover have "0 \<le> lRate l * ((t1 - t0) * Microsecond)"
      using valid_limitD(1) [OF assms(1)] assms(5) by (simp add: Microsecond_def)
    ultimately show ?thesis by linarith
  next
    case False
    have "(n - lBurst l) * lPeriod l \<le> (n - lBurst l) * (lRate l * gcra_interval l * Microsecond)"
      using False valid_limitD(5) [OF assms(1)] by (intro mult_left_mono) auto
    also have "\<dots> = lRate l * (((n - lBurst l) * gcra_interval l) * Microsecond)"
      by (simp add: ac_simps)
    also have "\<dots> \<le> lRate l * ((t1 - t0) * Microsecond)"
      using le valid_limitD(1) [OF assms(1)]
      by (intro mult_left_mono mult_right_mono) (auto simp: Microsecond_def)
    finally show ?thesis .
  qed
qed

text \<open>A rejected call is accepted at the announced time and not a microsecond earlier.\<close>

lemma retry_after_exact:
  assumes "invar s t" "t \<le> now" "clock_ok now" "valid_limit l"
    and "AllowN \<lparr>limiter_store = ops, limiter_limit = l\<rparr> now ctx key cost s = (Return (Inr d), s')"
    and "\<not> dAllowed d" and "now \<le> now'" "clock_ok now'" and "key \<noteq> []"
  shows "was_allowed (fst (AllowN \<lparr>limiter_store = ops, limiter_limit = l\<rparr> now' background key cost s'))
           \<longleftrightarrow> now + dRetryAfter d div Microsecond \<le> now'"
proof -
  have d: "d = gcra_decision l now (level s now key) cost" and c: "1 \<le> cost" "cost \<le> lBurst l"
    and inv: "invar s' now" and lev: "level s' now key = gcra_next l now (level s now key) cost"
    using AllowN_effect [OF assms(1,2,3,4,5)] by auto
  have rej: "\<not> gcra_allows l now (level s now key) cost"
    using assms(6) d by (simp add: gcra_decision_def)
  have lev': "level s' now' key = max now' (level s now key)"
    using level_later [OF inv order_refl assms(7)] lev rej by (simp add: gcra_next_def)
  obtain s'' where "AllowN \<lparr>limiter_store = ops, limiter_limit = l\<rparr> now' background key cost s' =
      (Return (Inr (gcra_decision l now' (level s' now' key) cost)), s'')"
    using AllowN_decides [OF inv assms(7,8,4,9) c] by fastforce
  then have "was_allowed (fst (AllowN \<lparr>limiter_store = ops, limiter_limit = l\<rparr> now' background key cost s'))
      \<longleftrightarrow> level s now key + gcra_interval l * cost - burst_offset l \<le> now'"
    using gcra_allows_at [OF valid_limitD(4) [OF assms(4)] c(2)] lev' by (simp add: gcra_decision_def)
  moreover have "dRetryAfter d div Microsecond = level s now key + gcra_interval l * cost - burst_offset l - now"
    using rej d by (simp add: gcra_decision_def Microsecond_def)
  ultimately show ?thesis by linarith
qed

text \<open>\<open>Remaining\<close> is exactly what a next call at the same clock reading can consume.\<close>

lemma remaining_exact:
  assumes "invar s t" "t \<le> now" "clock_ok now" "valid_limit l"
    and "AllowN \<lparr>limiter_store = ops, limiter_limit = l\<rparr> now ctx key cost s = (Return (Inr d), s')"
    and "key \<noteq> []" "1 \<le> c" "c \<le> lBurst l"
  shows "was_allowed (fst (AllowN \<lparr>limiter_store = ops, limiter_limit = l\<rparr> now background key c s'))
           \<longleftrightarrow> c \<le> dRemaining d"
proof -
  have d: "d = gcra_decision l now (level s now key) cost"
    and inv: "invar s' now" and lev: "level s' now key = gcra_next l now (level s now key) cost"
    using AllowN_effect [OF assms(1,2,3,4,5)] by auto
  obtain s'' where "AllowN \<lparr>limiter_store = ops, limiter_limit = l\<rparr> now background key c s' =
      (Return (Inr (gcra_decision l now (level s' now key) c)), s'')"
    using AllowN_decides [OF inv order_refl assms(3,4,6,7,8)] by fastforce
  then show ?thesis
    using available_iff [OF valid_limitD(4) [OF assms(4)] assms(7)] lev d
    by (simp add: gcra_decision_def)
qed

end

section \<open>Properties\<close>

text \<open>C32. \<open>validateLimit\<close> accepts exactly the limits with positive fields, at least a microsecond
  between units and a burst that a \<open>time.Duration\<close> can express; every rejection is an
  \<open>ErrInvalidLimit\<close>. The interval the stores use for an accepted limit is the least number of
  microseconds for which the rate is not exceeded.\<close>

theorem validateLimit_exact:
  assumes "in_i64 (lPeriod l)"
  shows "(validateLimit l = None \<longleftrightarrow>
            0 < lRate l \<and> 0 < lPeriod l \<and> 0 < lBurst l \<and> lRate l * Microsecond \<le> lPeriod l \<and>
            gcra_interval l * lBurst l * Microsecond \<le> MaxInt64) \<and>
         (\<forall>e. validateLimit l = Some e \<longrightarrow> errors_Is e ErrInvalidLimit) \<and>
         (validateLimit l = None \<longrightarrow>
            lPeriod l \<le> lRate l * (gcra_interval l * Microsecond) \<and>
            lRate l * ((gcra_interval l - 1) * Microsecond) < lPeriod l)"
proof -
  have per: "lPeriod l \<le> MaxInt64" using assms by (simp add: in_i64_def)
  have "errors_Is e ErrInvalidLimit" if "validateLimit l = Some e" for e
    using that by (auto simp: validateLimit_def Let_def ErrInvalidLimit_def split: if_splits)
  moreover have "0 < lRate l \<and> 0 < lPeriod l \<and> 0 < lBurst l \<and> lRate l * Microsecond \<le> lPeriod l \<and>
      gcra_interval l * lBurst l * Microsecond \<le> MaxInt64 \<and>
      lPeriod l \<le> lRate l * (gcra_interval l * Microsecond) \<and>
      lRate l * ((gcra_interval l - 1) * Microsecond) < lPeriod l" if "validateLimit l = None"
  proof -
    have v: "valid_limit l" using that assms by (simp add: valid_limit_def)
    show ?thesis
      using valid_limitD [OF v] validateLimit_rate [OF that] gcra_interval_least [OF _ _ per]
      by (simp add: burst_offset_def mult.assoc)
  qed
  ultimately show ?thesis using validateLimit_accepts [OF _ _ per] by blast
qed

theorem validateLimit_exact_witness:
  "in_i64 (lPeriod (PerSecond 3)) \<and> validateLimit (PerSecond 3) = None \<and>
   lPeriod (PerSecond 3) \<le> lRate (PerSecond 3) * (gcra_interval (PerSecond 3) * Microsecond)"
proof -
  have "in_i64 (lPeriod (PerSecond 3))" "validateLimit (PerSecond 3) = None" by code_simp+
  with validateLimit_exact [of "PerSecond 3"] show ?thesis by blast
qed

end
