(* ===== verification/GoHeap.thy ===== *)
theory GoHeap
  imports Prelude
begin

text \<open>
  The binary heap of the Go standard library (\<open>container/heap\<close>), which the in-memory rate
  limit store uses. As in Go, the algorithms see the container only through \<open>Less\<close>, \<open>Swap\<close>,
  \<open>Len\<close>, \<open>Push\<close> and \<open>Pop\<close>, passed here as arguments. The locale \<open>go_heap\<close> states what an
  implementation of \<open>heap.Interface\<close> promises and proves once what the algorithms then do.
\<close>

section \<open>The algorithms of container/heap\<close>

function heap_up :: "('st \<Rightarrow> nat \<Rightarrow> nat \<Rightarrow> bool) \<Rightarrow> ('st \<Rightarrow> nat \<Rightarrow> nat \<Rightarrow> 'st) \<Rightarrow> 'st \<Rightarrow> nat \<Rightarrow> 'st" where
  "heap_up Less Swap st j =
     (let i = (j - 1) div 2
      in if i = j \<or> \<not> Less st j i then st else heap_up Less Swap (Swap st i j) i)"
  by pat_completeness auto
termination
  by (relation "measure (\<lambda>(Less, Swap, st, j). j)") auto

declare heap_up.simps [simp del]

text \<open>\<open>down\<close> returns the state and the final index; Go's boolean result is "the final index is
  beyond the initial one".\<close>

function heap_down :: "('st \<Rightarrow> nat \<Rightarrow> nat \<Rightarrow> bool) \<Rightarrow> ('st \<Rightarrow> nat \<Rightarrow> nat \<Rightarrow> 'st) \<Rightarrow> 'st \<Rightarrow> nat \<Rightarrow> nat
    \<Rightarrow> 'st \<times> nat" where
  "heap_down Less Swap st i n =
     (let j1 = 2 * i + 1
      in if j1 \<ge> n then (st, i)
         else
           let j2 = j1 + 1;
               j = (if j2 < n \<and> Less st j2 j1 then j2 else j1)
           in if \<not> Less st j i then (st, i)
              else heap_down Less Swap (Swap st i j) j n)"
  by pat_completeness auto
termination
  by (relation "measure (\<lambda>(Less, Swap, st, i, n). n - i)") (auto split: if_splits)

declare heap_down.simps [simp del]

definition heap_Push :: "('st \<Rightarrow> nat \<Rightarrow> nat \<Rightarrow> bool) \<Rightarrow> ('st \<Rightarrow> nat \<Rightarrow> nat \<Rightarrow> 'st) \<Rightarrow> ('st \<Rightarrow> nat) \<Rightarrow>
    ('st \<Rightarrow> 'x \<Rightarrow> 'st) \<Rightarrow> 'st \<Rightarrow> 'x \<Rightarrow> 'st" where
  "heap_Push Less Swap Len Push st x =
     (let st' = Push st x in heap_up Less Swap st' (Len st' - 1))"

definition heap_Pop :: "('st \<Rightarrow> nat \<Rightarrow> nat \<Rightarrow> bool) \<Rightarrow> ('st \<Rightarrow> nat \<Rightarrow> nat \<Rightarrow> 'st) \<Rightarrow> ('st \<Rightarrow> nat) \<Rightarrow>
    ('st \<Rightarrow> 'x \<times> 'st) \<Rightarrow> 'st \<Rightarrow> 'x \<times> 'st" where
  "heap_Pop Less Swap Len Pop st =
     (let n = Len st - 1
      in Pop (fst (heap_down Less Swap (Swap st 0 n) 0 n)))"

definition heap_down_up :: "('st \<Rightarrow> nat \<Rightarrow> nat \<Rightarrow> bool) \<Rightarrow> ('st \<Rightarrow> nat \<Rightarrow> nat \<Rightarrow> 'st) \<Rightarrow> 'st \<Rightarrow> nat \<Rightarrow> nat
    \<Rightarrow> 'st" where
  "heap_down_up Less Swap st i n =
     (let (st', k) = heap_down Less Swap st i n
      in if \<not> k > i then heap_up Less Swap st' i else st')"

definition heap_Fix :: "('st \<Rightarrow> nat \<Rightarrow> nat \<Rightarrow> bool) \<Rightarrow> ('st \<Rightarrow> nat \<Rightarrow> nat \<Rightarrow> 'st) \<Rightarrow> ('st \<Rightarrow> nat) \<Rightarrow>
    'st \<Rightarrow> nat \<Rightarrow> 'st" where
  "heap_Fix Less Swap Len st i = heap_down_up Less Swap st i (Len st)"

definition heap_Remove :: "('st \<Rightarrow> nat \<Rightarrow> nat \<Rightarrow> bool) \<Rightarrow> ('st \<Rightarrow> nat \<Rightarrow> nat \<Rightarrow> 'st) \<Rightarrow> ('st \<Rightarrow> nat) \<Rightarrow>
    ('st \<Rightarrow> 'x \<times> 'st) \<Rightarrow> 'st \<Rightarrow> nat \<Rightarrow> 'x \<times> 'st" where
  "heap_Remove Less Swap Len Pop st i =
     (let n = Len st - 1;
          st' = (if n \<noteq> i then heap_down_up Less Swap (Swap st i n) i n else st)
      in Pop st')"

section \<open>Heap order on arrays\<close>

definition swap_list :: "'a list \<Rightarrow> nat \<Rightarrow> nat \<Rightarrow> 'a list" where
  "swap_list xs i j = xs[i := xs ! j, j := xs ! i]"

lemma length_swap_list [simp]: "length (swap_list xs i j) = length xs"
  by (simp add: swap_list_def)

lemma mset_swap_list [simp]:
  "i < length xs \<Longrightarrow> j < length xs \<Longrightarrow> mset (swap_list xs i j) = mset xs"
  by (simp add: swap_list_def mset_swap)

lemma nth_swap_list:
  "i < length xs \<Longrightarrow> j < length xs \<Longrightarrow> k < length xs \<Longrightarrow>
   swap_list xs i j ! k = (if k = i then xs ! j else if k = j then xs ! i else xs ! k)"
  by (auto simp: swap_list_def nth_list_update)

abbreviation parent :: "nat \<Rightarrow> nat" where
  "parent j \<equiv> (j - 1) div 2"

text \<open>The first \<open>n\<close> entries are in heap order; the same with a hole at \<open>i\<close>, where the relations
  between \<open>i\<close> and its neighbours are replaced by those between its parent and its children.\<close>

definition heap_ok :: "('a \<Rightarrow> 'p::linorder) \<Rightarrow> 'a list \<Rightarrow> nat \<Rightarrow> bool" where
  "heap_ok w xs n \<longleftrightarrow> (\<forall>j. 0 < j \<and> j < n \<longrightarrow> w (xs ! parent j) \<le> w (xs ! j))"

definition hole_at :: "('a \<Rightarrow> 'p::linorder) \<Rightarrow> 'a list \<Rightarrow> nat \<Rightarrow> nat \<Rightarrow> bool" where
  "hole_at w xs n i \<longleftrightarrow>
     (\<forall>j. 0 < j \<and> j < n \<and> j \<noteq> i \<and> parent j \<noteq> i \<longrightarrow> w (xs ! parent j) \<le> w (xs ! j)) \<and>
     (\<forall>j. 0 < j \<and> j < n \<and> parent j = i \<and> 0 < i \<longrightarrow> w (xs ! parent i) \<le> w (xs ! j))"

definition children_ok :: "('a \<Rightarrow> 'p::linorder) \<Rightarrow> 'a list \<Rightarrow> nat \<Rightarrow> nat \<Rightarrow> bool" where
  "children_ok w xs n i \<longleftrightarrow> (\<forall>j. 0 < j \<and> j < n \<and> parent j = i \<longrightarrow> w (xs ! i) \<le> w (xs ! j))"

definition parent_ok :: "('a \<Rightarrow> 'p::linorder) \<Rightarrow> 'a list \<Rightarrow> nat \<Rightarrow> bool" where
  "parent_ok w xs i \<longleftrightarrow> (0 < i \<longrightarrow> w (xs ! parent i) \<le> w (xs ! i))"

lemma heap_ok_fill:
  "hole_at w xs n i \<Longrightarrow> children_ok w xs n i \<Longrightarrow> parent_ok w xs i \<Longrightarrow> heap_ok w xs n"
  unfolding heap_ok_def hole_at_def children_ok_def parent_ok_def by metis

lemma heap_ok_hole:
  assumes "heap_ok w xs n"
  shows "hole_at w xs n i"
proof -
  have step: "w (xs ! parent j) \<le> w (xs ! j)" if "0 < j" "j < n" for j
    using assms that by (simp add: heap_ok_def)
  have "w (xs ! parent i) \<le> w (xs ! j)" if "0 < j" "j < n" "parent j = i" "0 < i" for j
  proof -
    have "i < n" using that by linarith
    with step [of i] step [of j] that show ?thesis by (metis order_trans)
  qed
  with step show ?thesis by (auto simp: hole_at_def)
qed

lemma heap_ok_root: "heap_ok w xs n \<Longrightarrow> k < n \<Longrightarrow> w (xs ! 0) \<le> w (xs ! k)"
proof (induction k rule: less_induct)
  case (less k)
  show ?case
  proof (cases "k = 0")
    case False
    have "parent k < k" using False by auto
    then have "w (xs ! 0) \<le> w (xs ! parent k)"
      using less.IH [of "parent k"] less.prems by simp
    also have "\<dots> \<le> w (xs ! k)"
      using less.prems False by (simp add: heap_ok_def)
    finally show ?thesis .
  qed simp
qed

lemma heap_ok_prefix: "heap_ok w xs n \<Longrightarrow> m \<le> n \<Longrightarrow> heap_ok w xs m"
  by (auto simp: heap_ok_def)

lemma heap_ok_cong:
  assumes "\<And>k. k < n \<Longrightarrow> w (xs ! k) = w' (ys ! k)"
  shows "heap_ok w xs n \<longleftrightarrow> heap_ok w' ys n"
proof -
  have "w (xs ! parent j) = w' (ys ! parent j)" if "j < n" for j
    using assms that by (metis (no_types) div_le_dividend diff_le_self le_less_trans)
  with assms show ?thesis by (auto simp: heap_ok_def)
qed

lemma hole_at_change:
  assumes hole: "hole_at w xs n i"
    and same: "\<And>k. k < n \<Longrightarrow> k \<noteq> i \<Longrightarrow> w (xs ! k) = w' (ys ! k)"
  shows "hole_at w' ys n i"
  unfolding hole_at_def
proof (intro conjI allI impI)
  fix j assume j: "0 < j \<and> j < n \<and> j \<noteq> i \<and> parent j \<noteq> i"
  then have "parent j < n" by linarith
  moreover have "w (xs ! parent j) \<le> w (xs ! j)" using hole j by (simp add: hole_at_def)
  ultimately show "w' (ys ! parent j) \<le> w' (ys ! j)"
    using j same [of j] same [of "parent j"] by simp
next
  fix j assume j: "0 < j \<and> j < n \<and> parent j = i \<and> 0 < i"
  then have "parent i < n" "parent i \<noteq> i" "j \<noteq> i" by linarith+
  moreover have "w (xs ! parent i) \<le> w (xs ! j)" using hole j unfolding hole_at_def by blast
  ultimately show "w' (ys ! parent i) \<le> w' (ys ! j)"
    using j same [of j] same [of "parent i"] by simp
qed

lemma sift_up_step:
  assumes hole: "hole_at w xs n j" and kids: "children_ok w xs n j"
    and j: "0 < j" "j < n" "n \<le> length xs" and i: "i = parent j" and lt: "w (xs ! j) < w (xs ! i)"
  shows "hole_at w (swap_list xs i j) n i" and "children_ok w (swap_list xs i j) n i"
proof -
  have ij: "i < j" using i j by linarith
  let ?ys = "swap_list xs i j"
  have nth: "\<And>k. k < n \<Longrightarrow> ?ys ! k = (if k = i then xs ! j else if k = j then xs ! i else xs ! k)"
    using ij j by (simp add: nth_swap_list)
  have edge: "w (xs ! parent k) \<le> w (xs ! k)" if "0 < k" "k < n" "k \<noteq> j" "parent k \<noteq> j" for k
    using hole that by (simp add: hole_at_def)
  have sib: "w (xs ! i) \<le> w (xs ! k)" if "0 < k" "k < n" "k \<noteq> j" "parent k = i" for k
    using edge [of k] that ij by simp
  have grand: "w (xs ! i) \<le> w (xs ! k)" if "0 < k" "k < n" "parent k = j" for k
    using hole that j(1) i by (auto simp: hole_at_def)
  show "children_ok w ?ys n i"
    unfolding children_ok_def
  proof (intro allI impI)
    fix k assume k: "0 < k \<and> k < n \<and> parent k = i"
    then have "k \<noteq> i" by linarith
    with k show "w (?ys ! i) \<le> w (?ys ! k)"
      using nth [of k] nth [of i] sib [of k] lt ij j by (cases "k = j") auto
  qed
  have top: "w (xs ! parent i) \<le> w (xs ! i)" if "0 < i"
    using edge [of i] that ij j by simp
  show "hole_at w ?ys n i"
    unfolding hole_at_def
  proof (intro conjI allI impI)
    fix k assume k: "0 < k \<and> k < n \<and> k \<noteq> i \<and> parent k \<noteq> i"
    then have kj: "k \<noteq> j" using i by auto
    have "parent k < n" using k by linarith
    with k kj show "w (?ys ! parent k) \<le> w (?ys ! k)"
      using nth [of k] nth [of "parent k"] grand [of k] edge [of k]
      by (cases "parent k = j") auto
  next
    fix k assume k: "0 < k \<and> k < n \<and> parent k = i \<and> 0 < i"
    then have "k \<noteq> i" "parent i \<noteq> i" "parent i \<noteq> j" "parent i < n" using ij j by linarith+
    with k show "w (?ys ! parent i) \<le> w (?ys ! k)"
      using nth [of k] nth [of "parent i"] top sib [of k]
      by (cases "k = j") auto
  qed
qed

lemma sift_down_step:
  assumes hole: "hole_at w xs n i"
    and j: "0 < j" "j < n" "n \<le> length xs" "parent j = i" and lt: "w (xs ! j) < w (xs ! i)"
    and least: "\<And>k. 0 < k \<Longrightarrow> k < n \<Longrightarrow> parent k = i \<Longrightarrow> w (xs ! j) \<le> w (xs ! k)"
  shows "hole_at w (swap_list xs i j) n j" and "parent_ok w (swap_list xs i j) j"
proof -
  have ij: "i < j" using j by linarith
  let ?ys = "swap_list xs i j"
  have nth: "\<And>k. k < n \<Longrightarrow> ?ys ! k = (if k = i then xs ! j else if k = j then xs ! i else xs ! k)"
    using ij j by (simp add: nth_swap_list)
  have edge: "w (xs ! parent k) \<le> w (xs ! k)" if "0 < k" "k < n" "k \<noteq> i" "parent k \<noteq> i" for k
    using hole that by (simp add: hole_at_def)
  have grand: "w (xs ! parent i) \<le> w (xs ! k)" if "0 < k" "k < n" "parent k = i" "0 < i" for k
    using hole that by (auto simp: hole_at_def)
  show "parent_ok w ?ys j"
    using nth [of i] nth [of j] ij j lt by (simp add: parent_ok_def less_imp_le)
  show "hole_at w ?ys n j"
    unfolding hole_at_def
  proof (intro conjI allI impI)
    fix k assume k: "0 < k \<and> k < n \<and> k \<noteq> j \<and> parent k \<noteq> j"
    then have pk: "parent k < n" "parent k \<noteq> k" by linarith+
    show "w (?ys ! parent k) \<le> w (?ys ! k)"
    proof (cases "k = i")
      case True
      with k pk show ?thesis
        using nth [of k] nth [of "parent k"] grand [of j] j by simp
    next
      case False
      with k pk show ?thesis
        using nth [of k] nth [of "parent k"] least [of k] edge [of k]
        by (cases "parent k = i") auto
    qed
  next
    fix k assume k: "0 < k \<and> k < n \<and> parent k = j \<and> 0 < j"
    then have "k \<noteq> i" "k \<noteq> j" "parent k \<noteq> i" using ij by linarith+
    with k show "w (?ys ! parent j) \<le> w (?ys ! k)"
      using nth [of k] nth [of i] edge [of k] j ij by simp
  qed
qed

section \<open>The contract of heap.Interface\<close>

text \<open>
  \<open>items\<close> is the array an implementation represents, \<open>prio\<close> the priority \<open>Less\<close> compares,
  \<open>invar\<close> its representation invariant, \<open>frame\<close> everything else the state holds, which no
  heap operation changes.
\<close>

locale go_heap =
  fixes items :: "'st \<Rightarrow> 'a list"
    and prio :: "'st \<Rightarrow> 'a \<Rightarrow> 'p::linorder"
    and invar :: "'st \<Rightarrow> bool"
    and frame :: "'st \<Rightarrow> 'f"
    and Less :: "'st \<Rightarrow> nat \<Rightarrow> nat \<Rightarrow> bool"
    and Swap :: "'st \<Rightarrow> nat \<Rightarrow> nat \<Rightarrow> 'st"
  assumes less_prio: "invar st \<Longrightarrow> i < length (items st) \<Longrightarrow> j < length (items st) \<Longrightarrow>
      Less st i j \<longleftrightarrow> prio st (items st ! i) < prio st (items st ! j)"
    and items_swap: "invar st \<Longrightarrow> i < length (items st) \<Longrightarrow> j < length (items st) \<Longrightarrow>
      items (Swap st i j) = swap_list (items st) i j"
    and prio_swap: "invar st \<Longrightarrow> i < length (items st) \<Longrightarrow> j < length (items st) \<Longrightarrow>
      prio (Swap st i j) = prio st"
    and invar_swap: "invar st \<Longrightarrow> i < length (items st) \<Longrightarrow> j < length (items st) \<Longrightarrow>
      invar (Swap st i j)"
    and frame_swap: "invar st \<Longrightarrow> i < length (items st) \<Longrightarrow> j < length (items st) \<Longrightarrow>
      frame (Swap st i j) = frame st"
begin

text \<open>What every sequence of swaps below index \<open>n\<close> keeps.\<close>

definition same_below :: "nat \<Rightarrow> 'st \<Rightarrow> 'st \<Rightarrow> bool" where
  "same_below n st st' \<longleftrightarrow>
     invar st' \<and> frame st' = frame st \<and> prio st' = prio st \<and> mset (items st') = mset (items st) \<and>
     (\<forall>k \<ge> n. k < length (items st) \<longrightarrow> items st' ! k = items st ! k)"

lemma same_below_refl: "invar st \<Longrightarrow> same_below n st st"
  by (simp add: same_below_def)

lemma same_below_length: "same_below n st st' \<Longrightarrow> length (items st') = length (items st)"
  unfolding same_below_def by (metis size_mset)

lemma same_below_trans: "same_below n a b \<Longrightarrow> same_below n b c \<Longrightarrow> same_below n a c"
  using same_below_length [of n a b] by (simp add: same_below_def)

lemma same_below_swap:
  "invar st \<Longrightarrow> i < n \<Longrightarrow> j < n \<Longrightarrow> n \<le> length (items st) \<Longrightarrow> same_below n st (Swap st i j)"
  by (simp add: same_below_def invar_swap frame_swap prio_swap items_swap nth_swap_list)

lemma heap_up_sift:
  assumes "invar st" "j < n" "n \<le> length (items st)"
    and "hole_at (prio st) (items st) n j" "children_ok (prio st) (items st) n j"
  shows "same_below n st (heap_up Less Swap st j) \<and>
         heap_ok (prio st) (items (heap_up Less Swap st j)) n"
  using assms
proof (induction j arbitrary: st rule: less_induct)
  case (less j)
  let ?i = "parent j"
  show ?case
  proof (cases "?i = j \<or> \<not> Less st j ?i")
    case True
    have "parent_ok (prio st) (items st) j"
    proof (cases "j = 0")
      case False
      then have "?i < j" by linarith
      with True less.prems less_prio [of st j ?i] show ?thesis
        by (auto simp: parent_ok_def)
    qed (simp add: parent_ok_def)
    with True less.prems show ?thesis
      by (simp add: heap_up.simps [of Less Swap st j] heap_ok_fill same_below_refl)
  next
    case False
    then have ij: "?i < j" "0 < j" by linarith+
    let ?st = "Swap st ?i j"
    have lt: "prio st (items st ! j) < prio st (items st ! ?i)"
      using False less.prems ij less_prio [of st j ?i] by simp
    have sb: "same_below n st ?st"
      using same_below_swap [of st ?i n j] less.prems ij by simp
    note sift = sift_up_step [OF less.prems(4,5) ij(2) less.prems(2,3) refl lt]
    have "same_below n ?st (heap_up Less Swap ?st ?i) \<and>
        heap_ok (prio ?st) (items (heap_up Less Swap ?st ?i)) n"
      by (rule less.IH [OF ij(1)])
        (use less.prems ij sift in \<open>simp_all add: invar_swap items_swap prio_swap\<close>)
    then have "same_below n st (heap_up Less Swap ?st ?i) \<and>
        heap_ok (prio st) (items (heap_up Less Swap ?st ?i)) n"
      using same_below_trans [OF sb] less.prems ij by (simp add: prio_swap)
    moreover have "heap_up Less Swap st j = heap_up Less Swap ?st ?i"
      using False by (subst heap_up.simps) (simp add: Let_def)
    ultimately show ?thesis by simp
  qed
qed

text \<open>The child \<open>down\<close> chooses is a least one.\<close>

lemma least_child:
  assumes "invar st" "n \<le> length (items st)" "2 * i + 1 < n"
  defines "j \<equiv> (if 2 * i + 2 < n \<and> Less st (2 * i + 2) (2 * i + 1) then 2 * i + 2 else 2 * i + 1)"
  shows "0 < j" "j < n" "parent j = i"
    and "\<And>k. 0 < k \<Longrightarrow> k < n \<Longrightarrow> parent k = i \<Longrightarrow> prio st (items st ! j) \<le> prio st (items st ! k)"
proof -
  show j: "0 < j" "j < n" "parent j = i" using assms(3) by (auto simp: j_def)
  fix k assume k: "0 < k" "k < n" "parent k = i"
  then have "k = 2 * i + 1 \<or> k = 2 * i + 2" by linarith
  then show "prio st (items st ! j) \<le> prio st (items st ! k)"
    using less_prio [of st "2 * i + 2" "2 * i + 1"] assms k(2) by (auto simp: j_def)
qed

lemma heap_down_sift:
  assumes "invar st" "n \<le> length (items st)" "hole_at (prio st) (items st) n i"
    and "heap_down Less Swap st i n = (st', k)"
  shows "same_below n st st' \<and> i \<le> k \<and>
         (if k = i then st' = st \<and> children_ok (prio st) (items st) n i
          else heap_ok (prio st) (items st') n)"
  using assms
proof (induction "n - i" arbitrary: st i rule: less_induct)
  case less
  let ?j = "if 2 * i + 2 < n \<and> Less st (2 * i + 2) (2 * i + 1) then 2 * i + 2 else 2 * i + 1"
  show ?case
  proof (cases "2 * i + 1 < n \<and> Less st ?j i")
    case False
    then have res: "st' = st" "k = i"
      using less.prems(4)
      by (auto simp: heap_down.simps [of Less Swap st i n] Let_def split: if_splits)
    have "children_ok (prio st) (items st) n i"
    proof (cases "2 * i + 1 < n")
      case True
      note lc = least_child [OF less.prems(1,2) True]
      have "prio st (items st ! i) \<le> prio st (items st ! ?j)"
        using False True lc(2,3) less_prio [of st ?j i] less.prems(1,2) by auto
      then show ?thesis
        unfolding children_ok_def using order_trans lc(4) by blast
    next
      case False
      then show ?thesis by (auto simp: children_ok_def)
    qed
    with res less.prems(1) show ?thesis by (simp add: same_below_refl)
  next
    case True
    note lc = least_child [OF less.prems(1,2) conjunct1 [OF True]]
    let ?st = "Swap st i ?j"
    have ij: "i < ?j" by simp
    have dn: "heap_down Less Swap ?st ?j n = (st', k)"
      using True less.prems(4)
      by (auto simp: heap_down.simps [of Less Swap st i n] Let_def split: if_splits)
    have lt: "prio st (items st ! ?j) < prio st (items st ! i)"
      using True lc(2) ij less_prio [of st ?j i] less.prems(1,2) by (meson less_trans order_less_le_trans)
    note sift = sift_down_step [OF less.prems(3) lc(1,2) less.prems(2) lc(3) lt lc(4)]
    have bounds: "i < length (items st)" "?j < length (items st)"
      using lc(2) ij less.prems(2) by (meson less_trans order_less_le_trans)+
    have sb: "same_below n st ?st"
      using same_below_swap [OF less.prems(1) _ lc(2) less.prems(2)] ij lc(2) less_trans by blast
    have IH: "same_below n ?st st' \<and> ?j \<le> k \<and>
        (if k = ?j then st' = ?st \<and> children_ok (prio ?st) (items ?st) n ?j
         else heap_ok (prio ?st) (items st') n)"
      by (rule less.hyps [OF _ _ _ _ dn])
        (use less.prems(1,2) sift(1) bounds lc(2) ij in
          \<open>simp_all only: invar_swap items_swap prio_swap length_swap_list diff_less_mono2\<close>)
    have "heap_ok (prio st) (items st') n"
    proof (cases "k = ?j")
      case True
      with IH sift show ?thesis
        using heap_ok_fill [of "prio st" "items ?st" n ?j] less.prems(1) bounds
        by (simp only: items_swap prio_swap if_True)
    next
      case False
      with IH less.prems(1) bounds show ?thesis by (simp only: prio_swap if_False)
    qed
    moreover have "k \<noteq> i" "i \<le> k"
      using conjunct1 [OF conjunct2 [OF IH]] ij by linarith+
    moreover have "same_below n st st'"
      using same_below_trans [OF sb conjunct1 [OF IH]] .
    ultimately show ?thesis by (simp only: if_False simp_thms)
  qed
qed

lemma heap_down_up_sift:
  assumes "invar st" "i < n" "n \<le> length (items st)" "hole_at (prio st) (items st) n i"
  shows "same_below n st (heap_down_up Less Swap st i n) \<and>
         heap_ok (prio st) (items (heap_down_up Less Swap st i n)) n"
proof -
  obtain st' k where dn: "heap_down Less Swap st i n = (st', k)" by fastforce
  note down = heap_down_sift [OF assms(1,3,4) dn]
  show ?thesis
  proof (cases "k = i")
    case True
    with down have "st' = st" "children_ok (prio st) (items st) n i" by auto
    with True dn heap_up_sift [OF assms] show ?thesis by (simp add: heap_down_up_def)
  next
    case False
    with down dn show ?thesis by (simp add: heap_down_up_def)
  qed
qed

end

text \<open>The container operations: \<open>Push\<close> appends, \<open>Pop\<close> removes the last entry.\<close>

locale go_heap_queue = go_heap items prio invar frame Less Swap
  for items :: "'st \<Rightarrow> 'a list" and prio :: "'st \<Rightarrow> 'a \<Rightarrow> 'p::linorder"
    and invar :: "'st \<Rightarrow> bool" and frame :: "'st \<Rightarrow> 'f"
    and Less :: "'st \<Rightarrow> nat \<Rightarrow> nat \<Rightarrow> bool" and Swap :: "'st \<Rightarrow> nat \<Rightarrow> nat \<Rightarrow> 'st" +
  fixes Len :: "'st \<Rightarrow> nat" and Push :: "'st \<Rightarrow> 'a \<Rightarrow> 'st" and Pop :: "'st \<Rightarrow> 'a \<times> 'st"
  assumes len_items: "Len st = length (items st)"
    and push_laws: "invar st \<Longrightarrow> x \<notin> set (items st) \<Longrightarrow>
      items (Push st x) = items st @ [x] \<and> invar (Push st x) \<and>
      frame (Push st x) = frame st \<and> prio (Push st x) = prio st"
    and pop_laws: "invar st \<Longrightarrow> items st \<noteq> [] \<Longrightarrow>
      fst (Pop st) = last (items st) \<and> items (snd (Pop st)) = butlast (items st) \<and>
      invar (snd (Pop st)) \<and> frame (snd (Pop st)) = frame st \<and> prio (snd (Pop st)) = prio st"
begin

abbreviation heap_state :: "'st \<Rightarrow> bool" where
  "heap_state st \<equiv> heap_ok (prio st) (items st) (length (items st))"

lemma heap_Push_correct:
  assumes "invar st" "heap_state st" "x \<notin> set (items st)"
  defines "st' \<equiv> heap_Push Less Swap Len Push st x"
  shows "invar st'" "heap_state st'" "frame st' = frame st" "prio st' = prio st"
    "mset (items st') = add_mset x (mset (items st))"
proof -
  let ?p = "Push st x" and ?n = "length (items st)"
  note push = push_laws [OF assms(1,3)]
  have hole: "hole_at (prio ?p) (items ?p) (Suc ?n) ?n"
  proof (rule hole_at_change)
    show "hole_at (prio st) (items st) (Suc ?n) ?n"
      using assms(2) by (auto simp: hole_at_def heap_ok_def)
  qed (use push in \<open>simp add: nth_append\<close>)
  have kids: "children_ok (prio ?p) (items ?p) (Suc ?n) ?n"
    by (auto simp: children_ok_def)
  have "same_below (Suc ?n) ?p st' \<and> heap_ok (prio ?p) (items st') (Suc ?n)"
    using heap_up_sift [OF _ _ _ hole kids] push by (simp add: st'_def heap_Push_def len_items)
  then show "invar st'" "heap_state st'" "frame st' = frame st" "prio st' = prio st"
    "mset (items st') = add_mset x (mset (items st))"
    using push same_below_length [of "Suc ?n" ?p st'] by (auto simp: same_below_def)
qed

lemma heap_Fix_correct:
  assumes "invar st" "i < length (items st)" "hole_at (prio st) (items st) (length (items st)) i"
  defines "st' \<equiv> heap_Fix Less Swap Len st i"
  shows "invar st'" "heap_state st'" "frame st' = frame st" "prio st' = prio st"
    "mset (items st') = mset (items st)"
proof -
  have "same_below (length (items st)) st st' \<and> heap_ok (prio st) (items st') (length (items st))"
    using heap_down_up_sift [OF assms(1,2) order_refl assms(3)]
    by (simp add: st'_def heap_Fix_def len_items)
  then show "invar st'" "heap_state st'" "frame st' = frame st" "prio st' = prio st"
    "mset (items st') = mset (items st)"
    using same_below_length [of "length (items st)" st st'] by (auto simp: same_below_def)
qed

text \<open>Removing the entry at \<open>i\<close>: it is swapped to the end, the order of the others is repaired,
  and the last entry is popped. \<open>Pop\<close> of the root is the case \<open>i = 0\<close>.\<close>

lemma pop_after_repair:
  assumes inv: "invar st" and i: "i < length (items st)" and n: "n = length (items st) - 1"
    and same: "same_below n (Swap st i n) st1"
    and ok: "heap_ok (prio (Swap st i n)) (items st1) n"
  defines "st' \<equiv> snd (Pop st1)"
  shows "fst (Pop st1) = items st ! i" "invar st'" "heap_state st'" "frame st' = frame st"
    "prio st' = prio st" "add_mset (items st ! i) (mset (items st')) = mset (items st)"
proof -
  let ?sw = "Swap st i n"
  have nlt: "n < length (items st)" using i n by simp
  have len1: "length (items st1) = Suc n"
    using same_below_length [OF same] inv i nlt n by (simp add: items_swap)
  have ne: "items st1 \<noteq> []" using len1 by auto
  have lst: "last (items st1) = items st ! i"
  proof -
    have "last (items st1) = items st1 ! n" using ne len1 by (simp add: last_conv_nth)
    also have "\<dots> = items ?sw ! n"
      using same inv i nlt by (simp add: same_below_def items_swap)
    also have "\<dots> = items st ! i"
      using inv i nlt by (simp add: items_swap nth_swap_list)
    finally show ?thesis .
  qed
  have inv1: "invar st1" using same by (simp add: same_below_def)
  note pop = pop_laws [OF inv1 ne]
  show "fst (Pop st1) = items st ! i" using pop lst by simp
  show "invar st'" "frame st' = frame st" "prio st' = prio st"
    using pop same inv i nlt by (auto simp: st'_def same_below_def frame_swap prio_swap)
  have "heap_ok (prio st) (butlast (items st1)) n"
    using ok len1 inv i nlt heap_ok_cong [of n "prio st" "items st1" "prio st" "butlast (items st1)"]
    by (simp add: prio_swap nth_butlast)
  then show "heap_state st'"
    using pop len1 same inv i nlt by (simp add: st'_def same_below_def prio_swap)
  have "mset (items st1) = mset (items st)"
    using same inv i nlt by (simp add: same_below_def items_swap)
  moreover have "items st1 = butlast (items st1) @ [last (items st1)]"
    using ne by simp
  ultimately show "add_mset (items st ! i) (mset (items st')) = mset (items st)"
    using pop lst by (metis st'_def mset.simps(1,2) mset_append union_mset_add_mset_right add_0_right)
qed

lemma swap_last_hole:
  assumes "invar st" "heap_state st" "i < length (items st)" "n = length (items st) - 1"
  shows "hole_at (prio (Swap st i n)) (items (Swap st i n)) n i"
proof (rule hole_at_change)
  show "hole_at (prio st) (items st) n i"
    using assms heap_ok_prefix heap_ok_hole by (metis diff_le_self)
qed (use assms in \<open>simp add: items_swap prio_swap nth_swap_list\<close>)

lemma heap_Pop_correct:
  assumes "invar st" "heap_state st" "items st \<noteq> []"
  defines "st' \<equiv> snd (heap_Pop Less Swap Len Pop st)"
  shows "fst (heap_Pop Less Swap Len Pop st) = items st ! 0" "invar st'" "heap_state st'"
    "frame st' = frame st" "prio st' = prio st"
    "add_mset (items st ! 0) (mset (items st')) = mset (items st)"
proof -
  let ?n = "length (items st) - 1"
  let ?sw = "Swap st 0 ?n"
  obtain st1 k where dn: "heap_down Less Swap ?sw 0 ?n = (st1, k)" by fastforce
  have len: "0 < length (items st)" using assms(3) by simp
  note hole = swap_last_hole [OF assms(1,2) len refl]
  have inv: "invar ?sw" "?n \<le> length (items ?sw)"
    using assms(1) len by (simp_all add: invar_swap items_swap)
  have down: "same_below ?n ?sw st1" "heap_ok (prio ?sw) (items st1) ?n"
    using heap_down_sift [OF inv hole dn] heap_ok_fill [OF hole]
    by (auto simp: parent_ok_def split: if_splits)
  have "heap_Pop Less Swap Len Pop st = Pop st1"
    using dn by (simp add: heap_Pop_def len_items)
  with pop_after_repair [OF assms(1) len refl down] show
    "fst (heap_Pop Less Swap Len Pop st) = items st ! 0" "invar st'" "heap_state st'"
    "frame st' = frame st" "prio st' = prio st"
    "add_mset (items st ! 0) (mset (items st')) = mset (items st)"
    by (simp_all add: st'_def)
qed

lemma heap_Remove_correct:
  assumes "invar st" "heap_state st" "i < length (items st)"
  defines "st' \<equiv> snd (heap_Remove Less Swap Len Pop st i)"
  shows "invar st'" "heap_state st'" "frame st' = frame st" "prio st' = prio st"
    "add_mset (items st ! i) (mset (items st')) = mset (items st)"
proof -
  let ?n = "length (items st) - 1"
  let ?sw = "Swap st i ?n"
  have nlt: "?n < length (items st)" using assms(3) by simp
  have "invar st' \<and> heap_state st' \<and> frame st' = frame st \<and> prio st' = prio st \<and>
      add_mset (items st ! i) (mset (items st')) = mset (items st)"
  proof (cases "?n = i")
    case True
    note pop = pop_laws [OF assms(1)]
    have ne: "items st \<noteq> []" using assms(3) by auto
    have "heap_ok (prio st) (butlast (items st)) ?n"
      using assms(2) heap_ok_prefix [of "prio st" "items st" "length (items st)" ?n]
        heap_ok_cong [of ?n "prio st" "items st" "prio st" "butlast (items st)"]
      by (simp add: nth_butlast)
    moreover have "mset (items st) = add_mset (last (items st)) (mset (butlast (items st)))"
      using ne by (metis append_butlast_last_id mset.simps(1,2) mset_append union_mset_add_mset_right add_0_right)
    moreover have "last (items st) = items st ! i"
      using ne True by (simp add: last_conv_nth)
    ultimately show ?thesis
      using pop ne True by (simp add: st'_def heap_Remove_def len_items)
  next
    case False
    then have lt: "i < ?n" using assms(3) by simp
    note hole = swap_last_hole [OF assms(1,2,3) refl]
    have inv: "invar ?sw" "?n \<le> length (items ?sw)"
      using assms(1,3) nlt by (simp_all add: invar_swap items_swap)
    note sift = heap_down_up_sift [OF inv(1) lt inv(2) hole]
    show ?thesis
      using pop_after_repair [OF assms(1,3) refl conjunct1 [OF sift] conjunct2 [OF sift]] False
      by (simp add: st'_def heap_Remove_def len_items Let_def)
  qed
  then show "invar st'" "heap_state st'" "frame st' = frame st" "prio st' = prio st"
    "add_mset (items st ! i) (mset (items st')) = mset (items st)"
    by blast+
qed

end

end
