(* ===== verification/RateLimit_Memory.thy ===== *)
theory RateLimit_Memory
  imports RateLimit GoHeap
begin

text \<open>
  Package \<open>ratelimit/memory\<close> (\<open>src/ratelimit/memory/store.go\<close>): rate limit state in process
  memory. The map and the expiration heap of the store share \<open>*record\<close> pointers, so the model
  has an explicit object store \<open>objs\<close> from addresses to records, a map from keys to addresses
  and the heap as an array of addresses. Arithmetic is \<open>int64\<close> with wrap-around; an integer
  division by zero is a panic. The store is shown to satisfy the contract
  \<open>ratelimit_store\<close>, so the guarantees of the limiter hold for it.
\<close>

section \<open>Records and the expiration heap\<close>

record rl_record =
  rec_key :: string
  rec_tat :: int
  rec_index :: int

record rl_store =
  objs :: "nat \<Rightarrow> rl_record"
  recs :: "string \<Rightarrow> nat option"
  expirations :: "nat list"
  next_obj :: nat

definition expirationHeap_Len :: "rl_store \<Rightarrow> nat" where
  "expirationHeap_Len s = length (expirations s)"

definition expirationHeap_Less :: "rl_store \<Rightarrow> nat \<Rightarrow> nat \<Rightarrow> bool" where
  "expirationHeap_Less s i j \<longleftrightarrow>
     rec_tat (objs s (expirations s ! i)) < rec_tat (objs s (expirations s ! j))"

definition set_index :: "rl_store \<Rightarrow> nat \<Rightarrow> int \<Rightarrow> rl_store" where
  "set_index s a i = s\<lparr>objs := (objs s)(a := (objs s a)\<lparr>rec_index := i\<rparr>)\<rparr>"

definition expirationHeap_Swap :: "rl_store \<Rightarrow> nat \<Rightarrow> nat \<Rightarrow> rl_store" where
  "expirationHeap_Swap s i j =
     (let s1 = s\<lparr>expirations := (expirations s)[i := expirations s ! j, j := expirations s ! i]\<rparr>;
          s2 = set_index s1 (expirations s1 ! i) (int i)
      in set_index s2 (expirations s2 ! j) (int j))"

definition expirationHeap_Push :: "rl_store \<Rightarrow> nat \<Rightarrow> rl_store" where
  "expirationHeap_Push s current =
     (let s1 = set_index s current (int (length (expirations s)))
      in s1\<lparr>expirations := expirations s1 @ [current]\<rparr>)"

definition expirationHeap_Pop :: "rl_store \<Rightarrow> nat \<times> rl_store" where
  "expirationHeap_Pop s =
     (let current = expirations s ! (length (expirations s) - 1);
          s1 = set_index s current (-1)
      in (current, s1\<lparr>expirations := take (length (expirations s) - 1) (expirations s)\<rparr>))"

definition exp_Fix :: "rl_store \<Rightarrow> nat \<Rightarrow> rl_store" where
  "exp_Fix = heap_Fix expirationHeap_Less expirationHeap_Swap expirationHeap_Len"

definition exp_Push :: "rl_store \<Rightarrow> nat \<Rightarrow> rl_store" where
  "exp_Push = heap_Push expirationHeap_Less expirationHeap_Swap expirationHeap_Len expirationHeap_Push"

definition exp_Pop :: "rl_store \<Rightarrow> nat \<times> rl_store" where
  "exp_Pop = heap_Pop expirationHeap_Less expirationHeap_Swap expirationHeap_Len expirationHeap_Pop"

definition exp_Remove :: "rl_store \<Rightarrow> nat \<Rightarrow> nat \<times> rl_store" where
  "exp_Remove = heap_Remove expirationHeap_Less expirationHeap_Swap expirationHeap_Len expirationHeap_Pop"

section \<open>The store\<close>

definition New :: rl_store where
  "New = \<lparr>objs = (\<lambda>_. \<lparr>rec_key = [], rec_tat = 0, rec_index = 0\<rparr>), recs = (\<lambda>_. None),
          expirations = [], next_obj = 0\<rparr>"

lemma length_Swap [simp]: "length (expirations (expirationHeap_Swap s i j)) = length (expirations s)"
  by (simp add: expirationHeap_Swap_def set_index_def Let_def)

lemma length_heap_down:
  "length (expirations (fst (heap_down expirationHeap_Less expirationHeap_Swap s i n))) =
   length (expirations s)"
proof (induction "n - i" arbitrary: s i rule: less_induct)
  case less
  show ?case
    by (subst heap_down.simps) (auto simp: Let_def less.hyps)
qed

lemma length_exp_Pop:
  "expirations s \<noteq> [] \<Longrightarrow> length (expirations (snd (exp_Pop s))) < length (expirations s)"
  by (simp add: exp_Pop_def heap_Pop_def expirationHeap_Pop_def expirationHeap_Len_def
      set_index_def Let_def length_heap_down)

function cleanup :: "int \<Rightarrow> rl_store \<Rightarrow> rl_store" where
  "cleanup now s =
     (if expirationHeap_Len s > 0 \<and> rec_tat (objs s (expirations s ! 0)) \<le> now then
        let (current, s1) = exp_Pop s
        in cleanup now (s1\<lparr>recs := (recs s1)(rec_key (objs s1 current) := None)\<rparr>)
      else s)"
  by pat_completeness auto
termination
proof (relation "measure (\<lambda>(now, s). length (expirations s))")
  fix now s x current s1
  assume "expirationHeap_Len s > 0 \<and> rec_tat (objs s (expirations s ! 0)) \<le> now"
    and "x = exp_Pop s" and "(current, s1) = x"
  then show "((now, s1\<lparr>recs := (recs s1)(rec_key (objs s1 current) := None)\<rparr>), now, s)
      \<in> measure (\<lambda>(now, s). length (expirations s))"
    using length_exp_Pop [of s] by (simp add: expirationHeap_Len_def) (metis snd_conv)
qed simp

declare cleanup.simps [simp del]

text \<open>\<open>None\<close> is the run-time panic of a division by zero.\<close>

definition emissionInterval :: "Limit \<Rightarrow> int option" where
  "emissionInterval limit =
     (let period = lPeriod limit; rate = lRate limit
      in if rate = 0 then None
         else
           let interval = go_div period rate;
               interval = (if go_mod period rate \<noteq> 0 then i64 (interval + 1) else interval);
               microsecond = Microsecond;
               result = go_div interval microsecond
           in Some (if go_mod interval microsecond \<noteq> 0 then i64 (result + 1) else result))"

definition remaining :: "int \<Rightarrow> int \<Rightarrow> int \<Rightarrow> int \<Rightarrow> int option" where
  "remaining now tat interval burstOffset =
     (let available = i64 (i64 (now + burstOffset) - tat)
      in if available \<le> 0 then Some 0
         else if interval = 0 then None
         else Some (go_div available interval))"

definition microseconds :: "int \<Rightarrow> int" where
  "microseconds value = (if value \<le> 0 then 0 else i64 (value * Microsecond))"

definition Take :: "int \<Rightarrow> go_context \<Rightarrow> TakeRequest \<Rightarrow> rl_store \<Rightarrow> (go_error + Decision) outcome \<times> rl_store" where
  "Take now ctx request s =
     (case ctx of
        None \<Rightarrow> (Return (Inl ErrInvalidContext), s)
      | Some obs \<Rightarrow>
        (case obs 0 of Some err \<Rightarrow> (Return (Inl err), s) | None \<Rightarrow>
        (case obs 1 of Some err \<Rightarrow> (Return (Inl err), s) | None \<Rightarrow>
          let s1 = cleanup now s in
          (case emissionInterval (tLimit request) of None \<Rightarrow> (Panic, s1) | Some interval \<Rightarrow>
             let burstOffset = i64 (interval * lBurst (tLimit request));
                 increment = i64 (interval * tCost request);
                 current = recs s1 (tKey request);
                 tat = (case current of
                          Some a \<Rightarrow> if rec_tat (objs s1 a) > now then rec_tat (objs s1 a) else now
                        | None \<Rightarrow> now);
                 newTAT = i64 (tat + increment)
             in if newTAT > i64 (now + burstOffset) then
                  (case remaining now tat interval burstOffset of
                     None \<Rightarrow> (Panic, s1)
                   | Some rem \<Rightarrow>
                       (Return (Inr \<lparr>dLimit = tLimit request, dAllowed = False, dRemaining = rem,
                          dRetryAfter = microseconds (i64 (i64 (newTAT - burstOffset) - now)),
                          dResetAfter = microseconds (i64 (tat - now))\<rparr>), s1))
                else
                  let s2 =
                    (case current of
                       Some a \<Rightarrow>
                         let s' = s1\<lparr>objs := (objs s1)(a := (objs s1 a)\<lparr>rec_tat := newTAT\<rparr>)\<rparr>
                         in exp_Fix s' (nat (rec_index (objs s' a)))
                     | None \<Rightarrow>
                         let a = next_obj s1;
                             s' = s1\<lparr>objs := (objs s1)(a := \<lparr>rec_key = tKey request, rec_tat = newTAT,
                                                             rec_index = 0\<rparr>),
                                     recs := (recs s1)(tKey request := Some a),
                                     next_obj := a + 1\<rparr>
                         in exp_Push s' a)
                  in (case remaining now newTAT interval burstOffset of
                        None \<Rightarrow> (Panic, s2)
                      | Some rem \<Rightarrow>
                          (Return (Inr \<lparr>dLimit = tLimit request, dAllowed = True, dRemaining = rem,
                             dRetryAfter = 0, dResetAfter = microseconds (i64 (newTAT - now))\<rparr>), s2))))))"

definition Reset :: "int \<Rightarrow> go_context \<Rightarrow> string \<Rightarrow> rl_store \<Rightarrow> go_error option \<times> rl_store" where
  "Reset now ctx key s =
     (case ctx of
        None \<Rightarrow> (Some ErrInvalidContext, s)
      | Some obs \<Rightarrow>
        (case obs 0 of Some err \<Rightarrow> (Some err, s) | None \<Rightarrow>
        (case obs 1 of Some err \<Rightarrow> (Some err, s) | None \<Rightarrow>
          let s1 = cleanup now s in
          (case recs s1 key of
             Some a \<Rightarrow>
               let s2 = snd (exp_Remove s1 (nat (rec_index (objs s1 a))))
               in (None, s2\<lparr>recs := (recs s2)(key := None)\<rparr>)
           | None \<Rightarrow> (None, s1)))))"

definition memory_store :: "rl_store Store" where
  "memory_store = \<lparr>Store_Take = Take, Store_Reset = Reset\<rparr>"

section \<open>The heap implements heap.Interface\<close>

definition heap_shape :: "rl_store \<Rightarrow> bool" where
  "heap_shape s \<longleftrightarrow> distinct (expirations s) \<and>
     (\<forall>i < length (expirations s). rec_index (objs s (expirations s ! i)) = int i)"

definition heap_frame :: "rl_store \<Rightarrow> (string \<Rightarrow> nat option) \<times> (nat \<Rightarrow> string \<times> int) \<times> nat" where
  "heap_frame s = (recs s, \<lambda>a. (rec_key (objs s a), rec_tat (objs s a)), next_obj s)"

definition tat_at :: "rl_store \<Rightarrow> nat \<Rightarrow> int" where
  "tat_at s a = rec_tat (objs s a)"

lemma heap_frame_eq_iff:
  "heap_frame s' = heap_frame s \<longleftrightarrow> recs s' = recs s \<and> next_obj s' = next_obj s \<and>
     (\<forall>a. rec_key (objs s' a) = rec_key (objs s a) \<and> rec_tat (objs s' a) = rec_tat (objs s a))"
  by (auto simp: heap_frame_def fun_eq_iff)

lemma Swap_simps:
  "expirations (expirationHeap_Swap s i j) = swap_list (expirations s) i j"
  "heap_frame (expirationHeap_Swap s i j) = heap_frame s"
  "tat_at (expirationHeap_Swap s i j) = tat_at s"
  by (auto simp: expirationHeap_Swap_def set_index_def swap_list_def tat_at_def heap_frame_eq_iff Let_def)

lemma heap_shape_Swap:
  assumes "heap_shape s" "i < length (expirations s)" "j < length (expirations s)"
  shows "heap_shape (expirationHeap_Swap s i j)"
proof -
  let ?e = "expirations s"
  have d: "distinct (swap_list ?e i j)"
    using assms by (simp add: heap_shape_def swap_list_def distinct_swap)
  have idx: "rec_index (objs (expirationHeap_Swap s i j) (swap_list ?e i j ! k)) = int k"
    if "k < length ?e" for k
    using assms that
    by (auto simp: expirationHeap_Swap_def set_index_def Let_def nth_swap_list heap_shape_def
        nth_eq_iff_index_eq swap_list_def [symmetric])
  from d idx show ?thesis by (simp add: heap_shape_def Swap_simps)
qed

interpretation exp_heap: go_heap_queue expirations tat_at heap_shape heap_frame
  expirationHeap_Less expirationHeap_Swap expirationHeap_Len expirationHeap_Push expirationHeap_Pop
proof unfold_locales
  fix s :: rl_store and x :: nat
  show "expirationHeap_Len s = length (expirations s)"
    by (simp add: expirationHeap_Len_def)
  assume shape: "heap_shape s"
  show "expirations (expirationHeap_Push s x) = expirations s @ [x] \<and>
      heap_shape (expirationHeap_Push s x) \<and>
      heap_frame (expirationHeap_Push s x) = heap_frame s \<and>
      tat_at (expirationHeap_Push s x) = tat_at s"
    if "x \<notin> set (expirations s)"
    using shape that
    by (auto simp: expirationHeap_Push_def set_index_def Let_def heap_shape_def nth_append
        tat_at_def heap_frame_eq_iff less_Suc_eq)
  show "fst (expirationHeap_Pop s) = last (expirations s) \<and>
      expirations (snd (expirationHeap_Pop s)) = butlast (expirations s) \<and>
      heap_shape (snd (expirationHeap_Pop s)) \<and>
      heap_frame (snd (expirationHeap_Pop s)) = heap_frame s \<and>
      tat_at (snd (expirationHeap_Pop s)) = tat_at s"
    if "expirations s \<noteq> []"
    using shape that
    by (auto simp: expirationHeap_Pop_def set_index_def Let_def heap_shape_def last_conv_nth
        butlast_conv_take tat_at_def heap_frame_eq_iff nth_eq_iff_index_eq)
qed (simp_all add: expirationHeap_Less_def tat_at_def [symmetric] Swap_simps heap_shape_Swap)

section \<open>Invariant and abstraction\<close>

definition mem_links :: "rl_store \<Rightarrow> bool" where
  "mem_links s \<longleftrightarrow>
     (\<forall>k a. recs s k = Some a \<longleftrightarrow> a \<in> set (expirations s) \<and> rec_key (objs s a) = k) \<and>
     (\<forall>a \<in> set (expirations s). a < next_obj s)"

definition tat_bound :: "rl_store \<Rightarrow> int \<Rightarrow> bool" where
  "tat_bound s t \<longleftrightarrow> (\<forall>a \<in> set (expirations s). tat_at s a \<le> t + MaxInt64 div Microsecond)"

definition mem_invar :: "rl_store \<Rightarrow> int \<Rightarrow> bool" where
  "mem_invar s t \<longleftrightarrow>
     heap_shape s \<and> heap_ok (tat_at s) (expirations s) (length (expirations s)) \<and>
     mem_links s \<and> tat_bound s t"

definition tat_of :: "rl_store \<Rightarrow> string \<Rightarrow> int option" where
  "tat_of s k = map_option (tat_at s) (recs s k)"

definition mem_level :: "rl_store \<Rightarrow> int \<Rightarrow> string \<Rightarrow> int" where
  "mem_level s now k = max now (case tat_of s k of None \<Rightarrow> now | Some x \<Rightarrow> x)"

lemma mem_invar_New: "mem_invar New t"
  by (simp add: mem_invar_def heap_shape_def heap_ok_def mem_links_def tat_bound_def New_def)

text \<open>Links and bounds see a store only through its frame and the set of heap entries.\<close>

lemma frame_recs [dest]:
  assumes "heap_frame s' = heap_frame s"
  shows "recs s' = recs s" "tat_at s' = tat_at s" "next_obj s' = next_obj s"
    "rec_key (objs s' a) = rec_key (objs s a)" "tat_of s' = tat_of s"
proof -
  show "recs s' = recs s" "next_obj s' = next_obj s" "rec_key (objs s' a) = rec_key (objs s a)"
    and tat: "tat_at s' = tat_at s"
    using assms by (auto simp: heap_frame_eq_iff tat_at_def)
  with assms show "tat_of s' = tat_of s"
    by (intro ext) (simp add: tat_of_def)
qed

lemma mem_invar_frame:
  assumes "mem_links s" "tat_bound s t" "heap_frame s' = heap_frame s"
    and "mset (expirations s') = mset (expirations s)" "heap_shape s'"
    and "heap_ok (tat_at s') (expirations s') (length (expirations s'))"
  shows "mem_invar s' t"
proof -
  have "set (expirations s') = set (expirations s)"
    using assms(4) by (metis set_mset_mset)
  with assms frame_recs [OF assms(3)] show ?thesis
    by (simp add: mem_invar_def mem_links_def tat_bound_def)
qed

lemma mem_index:
  assumes "mem_invar s t" "recs s k = Some a"
  shows "nat (rec_index (objs s a)) < length (expirations s)"
    and "expirations s ! nat (rec_index (objs s a)) = a"
proof -
  have "a \<in> set (expirations s)" using assms by (simp add: mem_invar_def mem_links_def)
  then obtain i where "i < length (expirations s)" "expirations s ! i = a"
    by (auto simp: in_set_conv_nth)
  moreover from this have "rec_index (objs s a) = int i"
    using assms by (auto simp: mem_invar_def heap_shape_def)
  ultimately show "nat (rec_index (objs s a)) < length (expirations s)"
    "expirations s ! nat (rec_index (objs s a)) = a" by simp_all
qed

text \<open>Removing one entry from heap and map.\<close>

lemma mem_invar_delete:
  assumes inv: "mem_invar s t" and a: "a \<in> set (expirations s)"
    and frame: "heap_frame s1 = heap_frame s" and shape: "heap_shape s1"
    and heap: "heap_ok (tat_at s1) (expirations s1) (length (expirations s1))"
    and ms: "add_mset a (mset (expirations s1)) = mset (expirations s)"
  defines "s2 \<equiv> s1\<lparr>recs := (recs s1)(rec_key (objs s1 a) := None)\<rparr>"
  shows "mem_invar s2 t" and "tat_of s2 = (tat_of s)(rec_key (objs s a) := None)"
proof -
  have fields: "expirations s2 = expirations s1" "objs s2 = objs s1" "next_obj s2 = next_obj s1"
    "recs s2 = (recs s1)(rec_key (objs s1 a) := None)" "tat_at s2 = tat_at s1"
    by (simp_all add: s2_def tat_at_def fun_eq_iff)
  have "distinct (expirations s)" using inv by (simp add: mem_invar_def heap_shape_def)
  moreover have "distinct (expirations s) = distinct (a # expirations s1)"
    using ms by (metis mset.simps(2) mset_eq_imp_distinct_iff)
  ultimately have dist: "a \<notin> set (expirations s1)" by simp
  have "insert a (set (expirations s1)) = set (expirations s)"
    using ms by (metis set_mset_add_mset_insert set_mset_mset)
  with dist have set1: "set (expirations s1) = set (expirations s) - {a}" by auto
  note f = frame_recs [OF frame]
  have links: "recs s k = Some b \<longleftrightarrow> b \<in> set (expirations s) \<and> rec_key (objs s b) = k" for k b
    using inv by (simp add: mem_invar_def mem_links_def)
  have inj: "b = a" if "b \<in> set (expirations s)" "rec_key (objs s b) = rec_key (objs s a)" for b
    using links [of "rec_key (objs s a)" a] links [of "rec_key (objs s a)" b] a that by simp
  have "mem_links s2"
    using inv f set1 links a inj by (auto simp: mem_links_def fields mem_invar_def)
  moreover have "tat_bound s2 t"
    using inv f set1 by (auto simp: tat_bound_def fields mem_invar_def)
  ultimately show "mem_invar s2 t"
    using shape heap by (simp add: mem_invar_def heap_shape_def fields)
  show "tat_of s2 = (tat_of s)(rec_key (objs s a) := None)"
    using f by (simp add: fun_eq_iff tat_of_def fields)
qed

lemma cleanup_correct:
  "mem_invar s t \<Longrightarrow> mem_invar (cleanup now s) t \<and>
   (\<forall>k. tat_of (cleanup now s) k =
      (case tat_of s k of None \<Rightarrow> None | Some x \<Rightarrow> if x \<le> now then None else Some x))"
proof (induction now s rule: cleanup.induct)
  case (1 now s)
  let ?root = "expirations s ! 0"
  show ?case
  proof (cases "expirationHeap_Len s > 0 \<and> rec_tat (objs s ?root) \<le> now")
    case True
    then have ne: "expirations s \<noteq> []" by (auto simp: expirationHeap_Len_def)
    obtain a s1 where pop: "exp_Pop s = (a, s1)" by fastforce
    let ?s2 = "s1\<lparr>recs := (recs s1)(rec_key (objs s1 a) := None)\<rparr>"
    have pre: "heap_shape s" "heap_ok (tat_at s) (expirations s) (length (expirations s))"
      using "1.prems" by (simp_all add: mem_invar_def)
    note pc = exp_heap.heap_Pop_correct [OF pre ne, folded exp_Pop_def, unfolded pop fst_conv snd_conv]
    have a: "a \<in> set (expirations s)" using pc(1) ne by simp
    have "tat_at s a \<le> now" using True pc(1) by (simp add: tat_at_def)
    moreover have "recs s (rec_key (objs s a)) = Some a"
      using "1.prems" a by (simp add: mem_invar_def mem_links_def)
    ultimately have dead: "tat_of s (rec_key (objs s a)) = Some (tat_at s a)" "tat_at s a \<le> now"
      by (simp_all add: tat_of_def)
    note del = mem_invar_delete [OF "1.prems" a pc(4,2,3) pc(6) [folded pc(1)]]
    have eq: "cleanup now s = cleanup now ?s2"
      using True pop by (subst cleanup.simps) simp
    have IH: "mem_invar (cleanup now ?s2) t \<and> (\<forall>k. tat_of (cleanup now ?s2) k =
        (case tat_of ?s2 k of None \<Rightarrow> None | Some x \<Rightarrow> if x \<le> now then None else Some x))"
      by (rule "1.IH" [OF True pop [symmetric] refl del(1)])
    then show ?thesis
      unfolding eq using dead by (auto simp: del(2))
  next
    case False
    then have eq: "cleanup now s = s" by (subst cleanup.simps) auto
    have "now < tat_at s a" if "a \<in> set (expirations s)" for a
    proof -
      from that obtain i where i: "i < length (expirations s)" "expirations s ! i = a"
        by (auto simp: in_set_conv_nth)
      then have "tat_at s ?root \<le> tat_at s a"
        using heap_ok_root [of "tat_at s" "expirations s" "length (expirations s)" i] "1.prems"
        by (simp add: mem_invar_def)
      moreover have "now < tat_at s ?root"
        using False i by (auto simp: expirationHeap_Len_def tat_at_def)
      ultimately show ?thesis by linarith
    qed
    then have "now < x" if "tat_of s k = Some x" for k x
      using that "1.prems" by (auto simp: tat_of_def mem_invar_def mem_links_def)
    with "1.prems" eq show ?thesis by (force split: option.splits)
  qed
qed

text \<open>Moving the TAT of a present key, adding a missing one, removing a present one.\<close>

lemma mem_update:
  assumes inv: "mem_invar s t" and k: "recs s k = Some a"
    and v: "v \<le> t' + MaxInt64 div Microsecond" and tt: "t \<le> t'"
  defines "s' \<equiv> s\<lparr>objs := (objs s)(a := (objs s a)\<lparr>rec_tat := v\<rparr>)\<rparr>"
  shows "mem_invar (exp_Fix s' (nat (rec_index (objs s' a)))) t'"
    and "tat_of (exp_Fix s' (nat (rec_index (objs s' a)))) = (tat_of s)(k := Some v)"
proof -
  let ?i = "nat (rec_index (objs s' a))"
  have fields: "expirations s' = expirations s" "recs s' = recs s" "next_obj s' = next_obj s"
    "tat_at s' = (tat_at s)(a := v)" "\<And>b. rec_key (objs s' b) = rec_key (objs s b)"
    "\<And>b. rec_index (objs s' b) = rec_index (objs s b)"
    by (auto simp: s'_def tat_at_def)
  have i: "?i < length (expirations s)" "expirations s ! ?i = a"
    using mem_index [OF inv k] by (simp_all add: fields)
  have shape: "heap_shape s'" using inv by (simp add: mem_invar_def heap_shape_def fields)
  have dist: "distinct (expirations s)" using inv by (simp add: mem_invar_def heap_shape_def)
  have "hole_at (tat_at s') (expirations s') (length (expirations s')) ?i"
  proof (rule hole_at_change)
    show "hole_at (tat_at s) (expirations s) (length (expirations s')) ?i"
      using inv by (simp add: mem_invar_def fields heap_ok_hole)
  next
    fix j assume "j < length (expirations s')" "j \<noteq> ?i"
    then have "expirations s ! j \<noteq> a"
      using i dist by (metis fields(1) nth_eq_iff_index_eq)
    then show "tat_at s (expirations s ! j) = tat_at s' (expirations s' ! j)"
      by (simp add: fields)
  qed
  then have fix': "heap_shape (exp_Fix s' ?i)"
    "heap_ok (tat_at (exp_Fix s' ?i)) (expirations (exp_Fix s' ?i)) (length (expirations (exp_Fix s' ?i)))"
    "heap_frame (exp_Fix s' ?i) = heap_frame s'" "mset (expirations (exp_Fix s' ?i)) = mset (expirations s')"
    using exp_heap.heap_Fix_correct [OF shape, of ?i, folded exp_Fix_def] i by (auto simp: fields)
  have "mem_links s'" using inv by (simp add: mem_invar_def mem_links_def fields)
  moreover have "tat_bound s' t'" using inv v tt by (auto simp: mem_invar_def tat_bound_def fields)
  ultimately show "mem_invar (exp_Fix s' ?i) t'"
    using fix' mem_invar_frame by blast
  have "recs s b \<noteq> Some a" if "b \<noteq> k" for b
    using that k inv by (auto simp: mem_invar_def mem_links_def)
  then have "tat_of s' b = ((tat_of s)(k := Some v)) b" for b
    using k by (cases "b = k"; cases "recs s b") (auto simp: tat_of_def fields)
  with frame_recs(5) [OF fix'(3)] show "tat_of (exp_Fix s' ?i) = (tat_of s)(k := Some v)" by auto
qed

lemma mem_insert:
  assumes inv: "mem_invar s t" and k: "recs s k = None"
    and v: "v \<le> t' + MaxInt64 div Microsecond" and tt: "t \<le> t'"
  defines "a \<equiv> next_obj s"
  defines "s' \<equiv> s\<lparr>objs := (objs s)(a := \<lparr>rec_key = k, rec_tat = v, rec_index = 0\<rparr>),
                   recs := (recs s)(k := Some a), next_obj := a + 1\<rparr>"
  shows "mem_invar (exp_Push s' a) t'" and "tat_of (exp_Push s' a) = (tat_of s)(k := Some v)"
proof -
  have links: "recs s k' = Some b \<longleftrightarrow> b \<in> set (expirations s) \<and> rec_key (objs s b) = k'"
    "b \<in> set (expirations s) \<Longrightarrow> b < a" for k' b
    using inv by (simp_all add: mem_invar_def mem_links_def a_def)
  have new: "a \<notin> set (expirations s)" using links(2) [of a] by auto
  have fields: "expirations s' = expirations s" "recs s' = (recs s)(k := Some a)" "next_obj s' = a + 1"
    "tat_at s' = (tat_at s)(a := v)"
    "\<And>b. b \<noteq> a \<Longrightarrow> objs s' b = objs s b" "rec_key (objs s' a) = k"
    by (auto simp: s'_def tat_at_def)
  have same: "b \<in> set (expirations s) \<Longrightarrow> objs s' b = objs s b" for b
    using new fields(5) by metis
  have shape: "heap_shape s'"
    using inv same by (simp add: mem_invar_def heap_shape_def fields)
  have heap: "heap_ok (tat_at s') (expirations s') (length (expirations s'))"
    using inv new heap_ok_cong [of "length (expirations s)" "tat_at s" "expirations s" "tat_at s'" "expirations s"]
    by (simp add: mem_invar_def fields) (metis nth_mem)
  have push: "heap_shape (exp_Push s' a)"
    "heap_ok (tat_at (exp_Push s' a)) (expirations (exp_Push s' a)) (length (expirations (exp_Push s' a)))"
    "heap_frame (exp_Push s' a) = heap_frame s'"
    "mset (expirations (exp_Push s' a)) = add_mset a (mset (expirations s'))"
    using exp_heap.heap_Push_correct [OF shape heap, of a, folded exp_Push_def] new by (auto simp: fields)
  note f = frame_recs [OF push(3)]
  have set': "set (expirations (exp_Push s' a)) = insert a (set (expirations s))"
    using push(4) fields(1) by (metis set_mset_add_mset_insert set_mset_mset)
  have "mem_links (exp_Push s' a)"
    unfolding mem_links_def f(1,3) set'
  proof (intro conjI allI)
    fix k' b
    show "recs s' k' = Some b \<longleftrightarrow>
        b \<in> insert a (set (expirations s)) \<and> rec_key (objs (exp_Push s' a) b) = k'"
    proof (cases "b = a")
      case True
      then show ?thesis using f(4) [of a] new links(1) [of k' a] by (auto simp: fields)
    next
      case False
      then show ?thesis using f(4) [of b] links(1) [of k' b] k by (auto simp: fields)
    qed
  qed (auto simp: fields less_Suc_eq dest: links(2))
  moreover have "tat_bound (exp_Push s' a) t'"
    using inv v tt new by (auto simp: tat_bound_def set' f(2) fields mem_invar_def)
  ultimately show "mem_invar (exp_Push s' a) t'" using push(1,2) by (simp add: mem_invar_def)
  have "tat_of s' k' = ((tat_of s)(k := Some v)) k'" for k'
    using links(1) [of k' a] new by (auto simp: tat_of_def fields intro!: map_option_cong)
  with f(5) show "tat_of (exp_Push s' a) = (tat_of s)(k := Some v)" by auto
qed

lemma mem_remove:
  assumes inv: "mem_invar s t" and k: "recs s k = Some a"
  defines "s1 \<equiv> snd (exp_Remove s (nat (rec_index (objs s a))))"
  defines "s2 \<equiv> s1\<lparr>recs := (recs s1)(k := None)\<rparr>"
  shows "mem_invar s2 t" and "tat_of s2 = (tat_of s)(k := None)"
proof -
  let ?i = "nat (rec_index (objs s a))"
  note i = mem_index [OF inv k]
  have pre: "heap_shape s" "heap_ok (tat_at s) (expirations s) (length (expirations s))"
    using inv by (simp_all add: mem_invar_def)
  note rc = exp_heap.heap_Remove_correct [OF pre i(1), folded exp_Remove_def, folded s1_def]
  have a: "a \<in> set (expirations s)" and key: "rec_key (objs s a) = k"
    using inv k by (auto simp: mem_invar_def mem_links_def)
  have key1: "rec_key (objs s1 a) = k" using frame_recs(4) [OF rc(3)] key by simp
  note del = mem_invar_delete [OF inv a rc(3,1,2) rc(5) [unfolded i(2)], unfolded key1 key]
  show "mem_invar s2 t" "tat_of s2 = (tat_of s)(k := None)"
    using del by (simp_all add: s2_def)
qed

section \<open>The 64-bit arithmetic is exact\<close>

lemma emissionInterval_valid:
  assumes "valid_limit l"
  shows "emissionInterval l = Some (gcra_interval l)"
  using valid_limitD(1) [OF assms]
  by (simp add: emissionInterval_def gcra_interval_def divideRoundUp_def Let_def)

lemma burst_offset_le: "valid_limit l \<Longrightarrow> burst_offset l \<le> MaxInt64 div Microsecond"
  using valid_limitD(6) [of l] by (simp add: MaxInt64_def Microsecond_def)

lemma small_in_i64:
  "- 1000000000000000000 \<le> x \<Longrightarrow> x \<le> 4000000000000000000 \<Longrightarrow> in_i64 x"
  by (simp add: in_i64_def MinInt64_def MaxInt64_def)

text \<open>All quantities of one call, for a clock reading in range and a TAT the invariant allows.\<close>

lemma gcra_ranges:
  assumes "valid_limit l" "clock_ok now" "1 \<le> c" "c \<le> lBurst l" "now \<le> tat" "tat \<le> now + MaxInt64 div Microsecond"
  defines "T \<equiv> gcra_interval l" and "B \<equiv> burst_offset l"
  shows "i64 (T * lBurst l) = B" "i64 (T * c) = T * c" "i64 (tat + T * c) = tat + T * c"
    "i64 (now + B) = now + B" "i64 (tat - now) = tat - now"
    "i64 (tat + T * c - B) = tat + T * c - B"
    "i64 (tat + T * c - B - now) = tat + T * c - B - now"
    "i64 (tat + T * c - now) = tat + T * c - now"
    "i64 (now + B - tat) = now + B - tat" "i64 (now + B - (tat + T * c)) = now + B - (tat + T * c)"
proof -
  have B: "0 < B" "B \<le> MaxInt64 div Microsecond" and T: "0 < T"
    using valid_limitD(3,4) [OF assms(1)] burst_offset_le [OF assms(1)]
    by (simp_all add: B_def T_def burst_offset_def)
  have Tc: "0 < T * c" "T * c \<le> B"
    using T assms(3,4) by (simp_all add: B_def T_def burst_offset_def mult_left_mono)
  have TB: "T * lBurst l = B" by (simp add: B_def T_def burst_offset_def)
  note range = B Tc assms(5,6) assms(2) [unfolded clock_ok_def]
  show "i64 (T * lBurst l) = B" "i64 (T * c) = T * c" "i64 (tat + T * c) = tat + T * c"
    "i64 (now + B) = now + B" "i64 (tat - now) = tat - now"
    "i64 (tat + T * c - B) = tat + T * c - B"
    "i64 (tat + T * c - B - now) = tat + T * c - B - now"
    "i64 (tat + T * c - now) = tat + T * c - now"
    "i64 (now + B - tat) = now + B - tat" "i64 (now + B - (tat + T * c)) = now + B - (tat + T * c)"
    unfolding TB
    by (rule i64_id, rule small_in_i64; use range in \<open>simp add: MaxInt64_def Microsecond_def\<close>)+
qed

lemma microseconds_exact:
  "0 \<le> v \<Longrightarrow> v \<le> MaxInt64 div Microsecond \<Longrightarrow> microseconds v = v * Microsecond"
  by (cases "v = 0")
    (auto simp: microseconds_def Microsecond_def MaxInt64_def intro!: i64_id in_i64_nonneg)

lemma remaining_gcra:
  assumes "0 < gcra_interval l" "i64 (now + burst_offset l) = now + burst_offset l"
    and "i64 (now + burst_offset l - tat) = now + burst_offset l - tat"
  shows "remaining now tat (gcra_interval l) (burst_offset l) = Some (gcra_available l now tat)"
proof (cases "now + burst_offset l - tat \<le> 0")
  case True
  then have "(now + burst_offset l - tat) div gcra_interval l \<le> 0"
    using assms(1) by (simp add: div_nonpos_pos_le0)
  with True assms show ?thesis by (simp add: remaining_def gcra_available_def)
next
  case False
  then have "0 \<le> (now + burst_offset l - tat) div gcra_interval l"
    using assms(1) by (simp add: pos_imp_zdiv_nonneg_iff)
  with False assms show ?thesis
    by (simp add: remaining_def gcra_available_def go_div_nonneg)
qed

section \<open>Take and Reset satisfy the contract\<close>

lemma cleanup_level:
  assumes "mem_invar s t" "now \<le> now'"
  shows "mem_level (cleanup now s) now' k = mem_level s now' k"
  using cleanup_correct [OF assms(1), of now] assms(2)
  by (auto simp: mem_level_def split: option.splits)

lemma mem_level_bound:
  assumes "mem_invar s t" "t \<le> now"
  shows "now \<le> mem_level s now k" "mem_level s now k \<le> now + MaxInt64 div Microsecond"
proof -
  have "0 \<le> MaxInt64 div Microsecond" by (simp add: MaxInt64_def Microsecond_def)
  moreover have "x \<le> now + MaxInt64 div Microsecond" if "tat_of s k = Some x" for x
    using that assms by (force simp: tat_of_def mem_invar_def mem_links_def tat_bound_def)
  ultimately show "now \<le> mem_level s now k" "mem_level s now k \<le> now + MaxInt64 div Microsecond"
    by (auto simp: mem_level_def split: option.splits)
qed

text \<open>The state after an accepted call, as the code builds it.\<close>

definition accept_tat :: "rl_store \<Rightarrow> string \<Rightarrow> int \<Rightarrow> rl_store" where
  "accept_tat s1 key newTAT =
     (case recs s1 key of
        Some a \<Rightarrow>
          let s' = s1\<lparr>objs := (objs s1)(a := (objs s1 a)\<lparr>rec_tat := newTAT\<rparr>)\<rparr>
          in exp_Fix s' (nat (rec_index (objs s' a)))
      | None \<Rightarrow>
          let a = next_obj s1;
              s' = s1\<lparr>objs := (objs s1)(a := \<lparr>rec_key = key, rec_tat = newTAT, rec_index = 0\<rparr>),
                      recs := (recs s1)(key := Some a), next_obj := a + 1\<rparr>
          in exp_Push s' a)"

lemma accept_tat_correct:
  assumes "mem_invar s t" "t \<le> t'" "v \<le> t' + MaxInt64 div Microsecond"
  shows "mem_invar (accept_tat s k v) t' \<and> tat_of (accept_tat s k v) = (tat_of s)(k := Some v)"
proof (cases "recs s k")
  case None
  then show ?thesis
    using mem_insert [OF assms(1) None assms(3,2)] by (simp add: accept_tat_def Let_def)
next
  case (Some a)
  then show ?thesis
    using mem_update [OF assms(1) Some assms(3,2)] by (simp add: accept_tat_def Let_def)
qed

lemma Take_gcra:
  fixes key :: string
  assumes inv: "mem_invar s t" "t \<le> now" and clk: "clock_ok now" and obs: "obs 0 = None" "obs 1 = None"
    and lim: "valid_limit l" and cost: "1 \<le> cost" "cost \<le> lBurst l"
  defines "tat \<equiv> mem_level s now key" and "s1 \<equiv> cleanup now s"
  shows "Take now (Some obs) \<lparr>tKey = key, tLimit = l, tCost = cost\<rparr> s =
    (Return (Inr (gcra_decision l now tat cost)),
     if gcra_allows l now tat cost then accept_tat s1 key (tat + gcra_interval l * cost) else s1)"
proof -
  have tat: "(case recs s1 key of
       Some a \<Rightarrow> if rec_tat (objs s1 a) > now then rec_tat (objs s1 a) else now | None \<Rightarrow> now) = tat"
    using cleanup_level [OF inv(1), of now now key]
    by (auto simp: tat_def s1_def mem_level_def tat_of_def tat_at_def split: option.splits)
  note b = mem_level_bound [OF inv, of key, folded tat_def]
  note r = gcra_ranges [OF lim clk cost b]
  have pos: "0 < gcra_interval l" using valid_limitD(4) [OF lim] .
  have le: "gcra_interval l * cost \<le> burst_offset l"
    using pos cost by (simp add: burst_offset_def mult_left_mono)
  have inc: "0 < gcra_interval l * cost" using pos cost by simp
  note rem = remaining_gcra [OF pos r(4)]
  show ?thesis
  proof (cases "gcra_allows l now tat cost")
    case True
    have us: "microseconds (tat + gcra_interval l * cost - now) = (tat + gcra_interval l * cost - now) * Microsecond"
      using True b inc burst_offset_le [OF lim]
      by (intro microseconds_exact) (auto simp: gcra_allows_def)
    show ?thesis
      using True obs rem [OF r(10)] us
      by (simp add: Take_def emissionInterval_valid [OF lim] s1_def [symmetric] tat r Let_def
          gcra_decision_def gcra_next_def gcra_allows_def accept_tat_def cong del: option.case_cong_weak)
  next
    case False
    have us: "microseconds (tat + gcra_interval l * cost - burst_offset l - now) =
        (tat + gcra_interval l * cost - burst_offset l - now) * Microsecond"
      "microseconds (tat - now) = (tat - now) * Microsecond"
      using False b le by (auto intro!: microseconds_exact simp: gcra_allows_def)
    show ?thesis
      using False obs rem [OF r(9)] us
      by (simp add: Take_def emissionInterval_valid [OF lim] s1_def [symmetric] tat r Let_def
          gcra_decision_def gcra_next_def gcra_allows_def)
  qed
qed

lemma Reset_exact:
  assumes "mem_invar s t" "obs 0 = None" "obs 1 = None"
  shows "\<exists>s'. Reset now (Some obs) key s = (None, s') \<and> mem_invar s' t \<and>
           tat_of s' = (tat_of (cleanup now s))(key := None)"
proof -
  have inv: "mem_invar (cleanup now s) t" using cleanup_correct [OF assms(1)] by simp
  show ?thesis
  proof (cases "recs (cleanup now s) key")
    case None
    then have "tat_of (cleanup now s) key = None" by (simp add: tat_of_def)
    with None assms inv show ?thesis by (simp add: Reset_def fun_upd_idem)
  next
    case (Some a)
    with assms mem_remove [OF inv Some] show ?thesis by (simp add: Reset_def Let_def)
  qed
qed

lemma mem_invar_later: "mem_invar s t \<Longrightarrow> t \<le> t' \<Longrightarrow> mem_invar s t'"
  by (force simp: mem_invar_def tat_bound_def)

interpretation mem: ratelimit_store memory_store mem_level mem_invar
proof unfold_locales
  fix s t now now' k
  assume "now \<le> (now' :: int)"
  then show "mem_level s now' k = max now' (mem_level s now k)"
    by (auto simp: mem_level_def split: option.splits)
next
  fix s t t'
  assume "mem_invar s t" "t \<le> t'"
  then show "mem_invar s t'" by (rule mem_invar_later)
next
  fix s t now l cost key and obs :: observations
  assume inv: "mem_invar s t" "t \<le> now" and clk: "clock_ok now" and obs: "obs 0 = None" "obs 1 = None"
    and lim: "valid_limit l" and cost: "1 \<le> cost" "cost \<le> lBurst l"
  let ?tat = "mem_level s now key" and ?s1 = "cleanup now s"
  let ?s' = "if gcra_allows l now ?tat cost then accept_tat ?s1 key (?tat + gcra_interval l * cost) else ?s1"
  have c: "mem_invar ?s1 t" using cleanup_correct [OF inv(1)] by simp
  have take: "Store_Take memory_store now (Some obs) \<lparr>tKey = key, tLimit = l, tCost = cost\<rparr> s =
      (Return (Inr (gcra_decision l now ?tat cost)), ?s')"
    using Take_gcra [OF inv clk obs lim cost, of key] by (simp add: memory_store_def)
  have "mem_invar ?s' now \<and> (\<forall>k. mem_level ?s' now k =
      (if k = key then gcra_next l now ?tat cost else mem_level s now k))"
  proof (cases "gcra_allows l now ?tat cost")
    case True
    have "?tat + gcra_interval l * cost \<le> now + MaxInt64 div Microsecond"
      using True burst_offset_le [OF lim] by (simp add: gcra_allows_def)
    note acc = accept_tat_correct [OF c inv(2) this, of key]
    have "now \<le> ?tat + gcra_interval l * cost"
      using mem_level_bound(1) [OF inv, of key] valid_limitD(4) [OF lim] cost
      by (meson add_increasing2 mult_nonneg_nonneg order_less_imp_le order_trans zero_le_one)
    then have "mem_level ?s' now k = (if k = key then gcra_next l now ?tat cost else mem_level ?s1 now k)" for k
      using acc True by (simp add: mem_level_def gcra_next_def)
    with acc True cleanup_level [OF inv(1) order_refl, of now] show ?thesis by simp
  next
    case False
    with c cleanup_level [OF inv(1) order_refl, of now] mem_invar_later [OF c inv(2)] show ?thesis
      by (simp add: gcra_next_def)
  qed
  with take show "\<exists>s'. Store_Take memory_store now (Some obs) \<lparr>tKey = key, tLimit = l, tCost = cost\<rparr> s =
        (Return (Inr (gcra_decision l now ?tat cost)), s') \<and> mem_invar s' now \<and>
      (\<forall>k. mem_level s' now k = (if k = key then gcra_next l now ?tat cost else mem_level s now k))"
    by blast
next
  fix obs :: observations and e now req s
  assume "obs 0 = Some e \<or> obs 0 = None \<and> obs 1 = Some e"
  then show "Store_Take memory_store now (Some obs) req s = (Return (Inl e), s)"
    by (auto simp: memory_store_def Take_def)
next
  fix s t now key and obs :: observations
  assume inv: "mem_invar s t" "t \<le> now" and obs: "obs 0 = None" "obs 1 = None"
  obtain s' where s': "Reset now (Some obs) key s = (None, s')" "mem_invar s' t"
    "tat_of s' = (tat_of (cleanup now s))(key := None)"
    using Reset_exact [OF inv(1) obs] by blast
  have "mem_level s' now k = (if k = key then now else mem_level (cleanup now s) now k)" for k
    using s'(3) by (simp add: mem_level_def)
  with s' inv mem_invar_later [OF s'(2) inv(2)] show "\<exists>s'. Store_Reset memory_store now (Some obs) key s = (None, s') \<and>
      mem_invar s' now \<and> (\<forall>k. mem_level s' now k = (if k = key then now else mem_level s now k))"
    by (auto simp: memory_store_def cleanup_level [OF inv(1) order_refl])
next
  fix obs :: observations and e now key s
  assume "obs 0 = Some e \<or> obs 0 = None \<and> obs 1 = Some e"
  then show "Store_Reset memory_store now (Some obs) key s = (Some e, s)"
    by (auto simp: memory_store_def Reset_def)
qed

section \<open>Properties\<close>

text \<open>What \<open>ratelimit.New\<close> returns for an accepted limit.\<close>

lemma New_limiter:
  assumes "RateLimit.New (Some memory_store) l = Inr lim" "in_i64 (lPeriod l)"
  shows "valid_limit l" "lim = \<lparr>limiter_store = memory_store, limiter_limit = l\<rparr>"
  using assms by (auto simp: RateLimit.New_def valid_limit_def split: option.splits)

text \<open>C1. The rate guarantee of a limiter over the memory store. Whatever calls are made
  between clock readings \<open>t0\<close> and \<open>t1\<close> (for any keys, with any contexts and costs, resets of other
  keys included), the units allowed for a key exceed the burst by at most what the rate
  replenishes in that time.\<close>

theorem memory_rate_bound:
  assumes "RateLimit.New (Some memory_store) l = Inr lim" "in_i64 (lPeriod l)"
    and "mem_invar s t0" "t0 \<le> t1" "sorted (map call_clock calls)"
    and "\<forall>c \<in> set calls. t0 \<le> call_clock c \<and> call_clock c \<le> t1 \<and> clock_ok (call_clock c) \<and> \<not> resets_key k c"
  shows "(fst (consumed lim k calls s) - lBurst l) * lPeriod l \<le> lRate l * ((t1 - t0) * Microsecond)"
  unfolding New_limiter(2) [OF assms(1,2)]
  by (rule mem.consumed_bound [OF New_limiter(1) [OF assms(1,2)] assms(3,5,6,4)])

definition example_calls :: "limiter_call list" where
  "example_calls =
     [CallAllowN 100 background ''a'' 2, CallAllowN 200 background ''a'' 1,
      CallReset 300 background ''b'', CallAllowN 500100 background ''a'' 1]"

theorem memory_rate_bound_witness:
  "\<exists>lim. RateLimit.New (Some memory_store) (PerSecond 2) = Inr lim \<and>
     fst (consumed lim ''a'' example_calls New) = 3 \<and>
     (fst (consumed lim ''a'' example_calls New) - 2) * Second \<le> 2 * ((500100 - 100) * Microsecond)"
proof -
  let ?lim = "\<lparr>limiter_store = memory_store, limiter_limit = PerSecond 2\<rparr>"
  have "validateLimit (PerSecond 2) = None" by code_simp
  then have new: "RateLimit.New (Some memory_store) (PerSecond 2) = Inr ?lim"
    by (simp add: RateLimit.New_def)
  have "fst (consumed ?lim ''a'' example_calls New) = 3" by code_simp
  moreover have "(fst (consumed ?lim ''a'' example_calls New) - lBurst (PerSecond 2)) * lPeriod (PerSecond 2)
      \<le> lRate (PerSecond 2) * ((500100 - 100) * Microsecond)"
    by (rule memory_rate_bound [OF new _ mem_invar_New])
      (simp_all add: example_calls_def PerSecond_def Second_def in_i64_def MaxInt64_def MinInt64_def clock_ok_def)
  ultimately show ?thesis using new by (auto simp: PerSecond_def)
qed

text \<open>C10. \<open>Take\<close> of the memory store refines the generic cell rate algorithm. With its 64-bit
  arithmetic, its map, its index-tracking heap and its eviction of expired records it returns
  the decision of the algorithm on unbounded integers, moves the arrival time of the key as
  the algorithm does and no other key's, never panics, and keeps the store's invariant.\<close>

theorem memory_Take_refines_gcra:
  assumes "mem_invar s t" "t \<le> now" "clock_ok now" "obs 0 = None" "obs 1 = None"
    and "valid_limit l" "1 \<le> cost" "cost \<le> lBurst l"
  shows "\<exists>s'. Take now (Some obs) \<lparr>tKey = key, tLimit = l, tCost = cost\<rparr> s =
           (Return (Inr (gcra_decision l now (mem_level s now key) cost)), s') \<and>
         mem_invar s' now \<and>
         (\<forall>k. mem_level s' now k =
            (if k = key then gcra_next l now (mem_level s now key) cost else mem_level s now k))"
  using mem.take_law [OF assms] by (simp add: memory_store_def)

theorem memory_Take_refines_gcra_witness:
  "\<exists>s'. Take 5 background \<lparr>tKey = ''a'', tLimit = PerSecond 2, tCost = 1\<rparr> New =
     (Return (Inr (gcra_decision (PerSecond 2) 5 (mem_level New 5 ''a'') 1)), s') \<and> mem_invar s' 5 \<and>
   (\<forall>k. mem_level s' 5 k =
      (if k = ''a'' then gcra_next (PerSecond 2) 5 (mem_level New 5 ''a'') 1 else mem_level New 5 k))"
proof -
  have "validateLimit (PerSecond 2) = None" by code_simp
  then show ?thesis
    by (intro memory_Take_refines_gcra [OF mem_invar_New [of 0], of 5 "\<lambda>_. None"])
      (simp_all add: clock_ok_def valid_limit_def PerSecond_def Second_def in_i64_def MaxInt64_def MinInt64_def)
qed

text \<open>The limiter and states of the remaining examples.\<close>

definition example_limiter :: "rl_store Limiter" where
  "example_limiter = \<lparr>limiter_store = memory_store, limiter_limit = PerSecond 2\<rparr>"

definition example_state :: rl_store where
  "example_state = snd (AllowN example_limiter 100 background ''a'' 2 New)"

lemma example_limiter_New:
  "RateLimit.New (Some memory_store) (PerSecond 2) = Inr example_limiter" "in_i64 (lPeriod (PerSecond 2))"
proof -
  show "in_i64 (lPeriod (PerSecond 2))" by code_simp
  have "validateLimit (PerSecond 2) = None" by code_simp
  then show "RateLimit.New (Some memory_store) (PerSecond 2) = Inr example_limiter"
    by (simp add: RateLimit.New_def example_limiter_def)
qed

lemma example_state_invar: "mem_invar example_state 100"
proof -
  have "valid_limit (PerSecond 2)" by code_simp
  then show ?thesis
    using mem.AllowN_decides [OF mem_invar_New order_refl, of 100 "PerSecond 2" "''a''" 2 "\<lambda>_. None"]
    by (auto simp: example_state_def example_limiter_def clock_ok_def PerSecond_def)
qed

text \<open>C29. The decision tells the truth about the future: a rejected call, repeated unchanged with
  no call for the key in between, is rejected before \<open>RetryAfter\<close> has passed and allowed from
  then on.\<close>

theorem memory_retry_after:
  assumes "RateLimit.New (Some memory_store) l = Inr lim" "in_i64 (lPeriod l)"
    and "mem_invar s t" "t \<le> now" "clock_ok now" "now \<le> now'" "clock_ok now'" "key \<noteq> []"
    and "AllowN lim now ctx key cost s = (Return (Inr d), s')" "\<not> dAllowed d"
  shows "was_allowed (fst (AllowN lim now' background key cost s')) \<longleftrightarrow>
         now + dRetryAfter d div Microsecond \<le> now'"
  using mem.retry_after_exact [OF assms(3,4,5) New_limiter(1) [OF assms(1,2)] _ assms(10,6,7,8)] assms(9)
  by (simp add: New_limiter(2) [OF assms(1,2)])

theorem memory_retry_after_witness:
  "\<exists>d s'. AllowN example_limiter 200 background ''a'' 1 example_state = (Return (Inr d), s') \<and>
     \<not> dAllowed d \<and> dRetryAfter d = 499900 * Microsecond \<and>
     (was_allowed (fst (AllowN example_limiter 600000 background ''a'' 1 s')) \<longleftrightarrow>
      200 + dRetryAfter d div Microsecond \<le> 600000)"
proof -
  obtain r s' where call: "AllowN example_limiter 200 background ''a'' 1 example_state = (r, s')" by fastforce
  have "fst (AllowN example_limiter 200 background ''a'' 1 example_state) =
      Return (Inr \<lparr>dLimit = PerSecond 2, dAllowed = False, dRemaining = 0,
        dRetryAfter = 499900 * Microsecond, dResetAfter = 999900 * Microsecond\<rparr>)" by code_simp
  with call obtain d where d: "r = Return (Inr d)" "\<not> dAllowed d" "dRetryAfter d = 499900 * Microsecond" by simp
  show ?thesis
    using memory_retry_after [OF example_limiter_New example_state_invar _ _ _ _ _ call [unfolded d(1)] d(2),
        of 600000] call d
    by (auto simp: clock_ok_def)
qed

text \<open>C30. \<open>Remaining\<close> is exact: right after a decision, a call for \<open>c\<close> units of the same key is
  allowed exactly when \<open>c\<close> is at most the reported \<open>Remaining\<close>.\<close>

theorem memory_remaining:
  assumes "RateLimit.New (Some memory_store) l = Inr lim" "in_i64 (lPeriod l)"
    and "mem_invar s t" "t \<le> now" "clock_ok now" "key \<noteq> []" "1 \<le> c" "c \<le> lBurst l"
    and "AllowN lim now ctx key cost s = (Return (Inr d), s')"
  shows "was_allowed (fst (AllowN lim now background key c s')) \<longleftrightarrow> c \<le> dRemaining d"
  using mem.remaining_exact [OF assms(3,4,5) New_limiter(1) [OF assms(1,2)] _ assms(6,7,8)] assms(9)
  by (simp add: New_limiter(2) [OF assms(1,2)])

theorem memory_remaining_witness:
  "\<exists>d s'. AllowN example_limiter 500100 background ''a'' 1 example_state = (Return (Inr d), s') \<and>
     (was_allowed (fst (AllowN example_limiter 500100 background ''a'' 2 s')) \<longleftrightarrow> 2 \<le> dRemaining d)"
proof -
  obtain r s' where call: "AllowN example_limiter 500100 background ''a'' 1 example_state = (r, s')" by fastforce
  have "was_allowed (fst (AllowN example_limiter 500100 background ''a'' 1 example_state))" by code_simp
  with call obtain d where d: "r = Return (Inr d)" by (cases r rule: was_allowed.cases) auto
  show ?thesis
    using memory_remaining [OF example_limiter_New example_state_invar _ _ _ _ _ call [unfolded d]] call d
    by (auto simp: clock_ok_def PerSecond_def)
qed

text \<open>C31. \<open>cleanup\<close> evicts exactly the expired records: it keeps the heap ordered and in step with
  the map and the indices the records carry, and leaves every arrival time later than \<open>now\<close>.\<close>

theorem memory_cleanup:
  assumes "mem_invar s t"
  shows "mem_invar (cleanup now s) t \<and>
         tat_of (cleanup now s) =
           (\<lambda>k. case tat_of s k of None \<Rightarrow> None | Some x \<Rightarrow> if x \<le> now then None else Some x)"
  using cleanup_correct [OF assms] by auto

theorem memory_cleanup_witness:
  "mem_invar (cleanup 2000000 example_state) 100 \<and> tat_of example_state ''a'' = Some 1000100 \<and>
   tat_of (cleanup 2000000 example_state) =
     (\<lambda>k. case tat_of example_state k of None \<Rightarrow> None | Some x \<Rightarrow> if x \<le> 2000000 then None else Some x)"
proof -
  have "tat_of example_state ''a'' = Some 1000100" by code_simp
  with memory_cleanup [OF example_state_invar] show ?thesis by blast
qed

end
