(* ===== verification/Retry.thy ===== *)
theory Retry
  imports Prelude
begin

text \<open>
  Package \<open>retry\<close> (\<open>src/retry\<close>): backoff strategies, configuration, error markers and the
  loop of \<open>DoValue\<close>. What the caller passes (operation, strategy, notification) acts on a
  world of type \<open>'w\<close> that is threaded through the calls. The context is seen through
  \<open>ctx_Err\<close>, its error in a world, and \<open>timer_select\<close>, which waits for a timer or for the
  context, whichever comes first (\<open>True\<close>: the timer). The loop is a \<open>partial_function\<close>, so that
  a run that never ends has the value \<open>None\<close>; it returns the visible calls it made as a trace.
\<close>

section \<open>Backoff strategies\<close>

type_synonym 'w Backoff = "int \<Rightarrow> 'w \<Rightarrow> int \<times> 'w"

definition validateDelay :: "int \<Rightarrow> unit outcome" where
  "validateDelay delay = (if delay < 0 then Panic else Return ())"

definition NoBackoff :: "'w Backoff" where
  "NoBackoff = (\<lambda>_ w. (0, w))"

definition Fixed :: "int \<Rightarrow> 'w Backoff outcome" where
  "Fixed delay =
     (case validateDelay delay of Panic \<Rightarrow> Panic | Return _ \<Rightarrow> Return (\<lambda>_ w. (delay, w)))"

definition multiplyDuration :: "int \<Rightarrow> int \<Rightarrow> int" where
  "multiplyDuration delay multiplier =
     (if multiplier > MaxInt64 div delay then MaxInt64 else i64 (delay * multiplier))"

definition Linear :: "int \<Rightarrow> 'w Backoff outcome" where
  "Linear delay =
     (case validateDelay delay of Panic \<Rightarrow> Panic | Return _ \<Rightarrow>
        Return (\<lambda>attempt w.
          (if attempt < 1 \<or> delay = 0 then 0 else multiplyDuration delay attempt, w)))"

text \<open>The loop of \<open>Exponential\<close>, over the number of doublings left.\<close>

fun exponential_loop :: "int \<Rightarrow> nat \<Rightarrow> int \<Rightarrow> int" where
  "exponential_loop maximum 0 delay = (if maximum > 0 \<and> delay > maximum then maximum else delay)"
| "exponential_loop maximum (Suc n) delay =
     (if maximum > 0 \<and> delay \<ge> maximum then maximum
      else if delay > MaxInt64 div 2 then (if maximum > 0 then maximum else MaxInt64)
      else exponential_loop maximum n (i64 (delay * 2)))"

definition Exponential :: "int \<Rightarrow> int \<Rightarrow> 'w Backoff outcome" where
  "Exponential initial maximum =
     (case validateDelay initial of Panic \<Rightarrow> Panic | Return _ \<Rightarrow>
     (case validateDelay maximum of Panic \<Rightarrow> Panic | Return _ \<Rightarrow>
        if maximum > 0 \<and> maximum < initial then Panic
        else Return (\<lambda>attempt w.
          (if attempt < 1 \<or> initial = 0 then 0
           else exponential_loop maximum (nat (attempt - 1)) initial, w))))"

text \<open>\<open>uint64N n\<close> is \<open>rand.Uint64N(n)\<close>: a number below \<open>n\<close>, and the generator's next state.\<close>

definition Jitter :: "(int \<Rightarrow> 'w \<Rightarrow> int \<times> 'w) \<Rightarrow> 'w Backoff option \<Rightarrow> int \<Rightarrow> 'w Backoff outcome" where
  "Jitter uint64N backoff maximum =
     (let backoff = (case backoff of None \<Rightarrow> NoBackoff | Some b \<Rightarrow> b) in
      case validateDelay maximum of Panic \<Rightarrow> Panic | Return _ \<Rightarrow>
        if maximum = 0 then Return backoff
        else Return (\<lambda>attempt w.
          let (delay, w1) = backoff attempt w
          in if delay \<le> 0 then (delay, w1)
             else
               let (jitter, w2) = uint64N (maximum + 1) w1
               in (if delay > MaxInt64 - jitter then MaxInt64 else i64 (delay + jitter), w2)))"

section \<open>Configuration\<close>

record Event =
  eAttempt :: int
  eMaxAttempts :: int
  eErr :: go_error
  eDelay :: int

record 'w config =
  maxAttempts :: int
  backoff :: "'w Backoff"
  retryIf :: "go_error \<Rightarrow> bool"
  notify :: "(Event \<Rightarrow> 'w \<Rightarrow> 'w) option"

datatype 'w Option =
    WithMaxAttempts int
  | WithBackoff "'w Backoff option"
  | WithRetryIf "(go_error \<Rightarrow> bool) option"
  | WithNotify "(Event \<Rightarrow> 'w \<Rightarrow> 'w) option"

fun apply_option :: "'w Option \<Rightarrow> 'w config \<Rightarrow> 'w config" where
  "apply_option (WithMaxAttempts attempts) c =
     (if attempts \<ge> 1 then c\<lparr>maxAttempts := attempts\<rparr> else c)"
| "apply_option (WithBackoff b) c =
     (case b of Some strategy \<Rightarrow> c\<lparr>backoff := strategy\<rparr> | None \<Rightarrow> c)"
| "apply_option (WithRetryIf p) c =
     (case p of Some predicate \<Rightarrow> c\<lparr>retryIf := predicate\<rparr> | None \<Rightarrow> c)"
| "apply_option (WithNotify n) c = c\<lparr>notify := n\<rparr>"

definition defaultMaxAttempts :: int where "defaultMaxAttempts = 3"
definition defaultInitialDelay :: int where "defaultInitialDelay = 100 * 1000000"
definition defaultMaximumDelay :: int where "defaultMaximumDelay = 1000000000"

definition defaultRetryIf :: "go_error \<Rightarrow> bool" where
  "defaultRetryIf err \<longleftrightarrow> \<not> errors_Is err Canceled \<and> \<not> errors_Is err DeadlineExceeded"

text \<open>A nil option is skipped.\<close>

fun apply_options :: "'w Option option list \<Rightarrow> 'w config \<Rightarrow> 'w config" where
  "apply_options [] c = c"
| "apply_options (opt # options) c =
     apply_options options (case opt of Some x \<Rightarrow> apply_option x c | None \<Rightarrow> c)"

definition newConfig :: "'w Option option list \<Rightarrow> 'w config outcome" where
  "newConfig options =
     (case Exponential defaultInitialDelay defaultMaximumDelay of
        Panic \<Rightarrow> Panic
      | Return b \<Rightarrow>
          Return (apply_options options
            \<lparr>maxAttempts = defaultMaxAttempts, backoff = b, retryIf = defaultRetryIf, notify = None\<rparr>))"

section \<open>Error markers\<close>

definition Permanent :: "go_error option \<Rightarrow> go_error option" where
  "Permanent err = map_option PermanentError err"

definition After :: "int \<Rightarrow> go_error option \<Rightarrow> go_error option outcome" where
  "After delay err =
     (case validateDelay delay of Panic \<Rightarrow> Panic | Return _ \<Rightarrow> Return (map_option (AfterError delay) err))"

record errorInfo =
  cause :: go_error
  permanent :: bool
  override :: bool
  overrideDelay :: int

fun strip_markers :: "go_error \<Rightarrow> go_error" where
  "strip_markers (PermanentError e) = strip_markers e"
| "strip_markers (AfterError d e) = strip_markers e"
| "strip_markers e = e"

definition as_permanent :: "go_error \<Rightarrow> go_error option" where
  "as_permanent = as_first (\<lambda>x. case x of PermanentError e \<Rightarrow> Some e | _ \<Rightarrow> None)"

definition as_after :: "go_error \<Rightarrow> int option" where
  "as_after = as_first (\<lambda>x. case x of AfterError d e \<Rightarrow> Some d | _ \<Rightarrow> None)"

definition inspectError :: "go_error \<Rightarrow> errorInfo" where
  "inspectError err =
     (let info = \<lparr>cause = err, permanent = False, override = False, overrideDelay = 0\<rparr>;
          info = (case as_permanent err of Some _ \<Rightarrow> info\<lparr>permanent := True\<rparr> | None \<Rightarrow> info);
          info = (case as_after err of
                    Some d \<Rightarrow> info\<lparr>override := True, overrideDelay := d\<rparr>
                  | None \<Rightarrow> info)
      in info\<lparr>cause := strip_markers (cause info)\<rparr>)"

section \<open>Do and DoValue\<close>

definition wait :: "'w go_env \<Rightarrow> int \<Rightarrow> 'w \<Rightarrow> go_error option \<times> 'w" where
  "wait env delay w =
     (if delay = 0 then (ctx_Err env w, w)
      else
        (case timer_select env delay w of
           (False, w') \<Rightarrow> (ctx_Err env w', w')
         | (True, w') \<Rightarrow> (None, w')))"

text \<open>The visible calls of a run: executions with their number and result, questions to the
  predicate, notifications and waits.\<close>

datatype 'a effect =
    Executed int 'a "go_error option"
  | Asked go_error
  | Notified Event
  | Waited int

partial_function (option) retry_loop ::
  "'w go_env \<Rightarrow> 'w config \<Rightarrow> ('w \<Rightarrow> ('a \<times> go_error option) \<times> 'w) \<Rightarrow> int \<Rightarrow> 'a \<Rightarrow> 'w \<Rightarrow> 'a effect list
     \<Rightarrow> (('a \<times> go_error option) \<times> 'w \<times> 'a effect list) option" where
  "retry_loop env c operation attempt result w tr =
     (case ctx_Err env w of Some err \<Rightarrow> Some ((result, Some err), w, tr) | None \<Rightarrow>
      (case operation w of ((result, err), w1) \<Rightarrow>
       (let tr1 = tr @ [Executed attempt result err] in
        (case err of None \<Rightarrow> Some ((result, None), w1, tr1) | Some err \<Rightarrow>
        (case ctx_Err env w1 of Some err \<Rightarrow> Some ((result, Some err), w1, tr1) | None \<Rightarrow>
         (let info = inspectError err in
          if permanent info then Some ((result, Some (cause info)), w1, tr1)
          else if attempt = maxAttempts c then Some ((result, Some (cause info)), w1, tr1)
          else if \<not> retryIf c (cause info)
          then Some ((result, Some (cause info)), w1, tr1 @ [Asked (cause info)])
          else
            (case backoff c attempt w1 of (delay, w2) \<Rightarrow>
             (let delay = (if override info then overrideDelay info else max delay 0);
                  event = \<lparr>eAttempt = attempt, eMaxAttempts = maxAttempts c,
                           eErr = cause info, eDelay = delay\<rparr>;
                  w3 = (case notify c of None \<Rightarrow> w2 | Some f \<Rightarrow> f event w2);
                  tr2 = tr1 @ [Asked (cause info)] @
                        (case notify c of None \<Rightarrow> [] | Some f \<Rightarrow> [Notified event]) @ [Waited delay]
              in (case wait env delay w3 of
                    (Some err, w4) \<Rightarrow> Some ((result, Some err), w4, tr2)
                  | (None, w4) \<Rightarrow>
                      retry_loop env c operation (i64 (attempt + 1)) result w4 tr2)))))))))"

declare retry_loop.simps [code]

text \<open>A nil operation panics; \<open>zero\<close> is the zero value of the result type.\<close>

definition DoValue :: "'a \<Rightarrow> 'w go_env \<Rightarrow> ('w \<Rightarrow> ('a \<times> go_error option) \<times> 'w) option \<Rightarrow> 'w Option option list
    \<Rightarrow> 'w \<Rightarrow> (('a \<times> go_error option) \<times> 'w \<times> 'a effect list) option outcome" where
  "DoValue zero env operation options w =
     (case operation of None \<Rightarrow> Panic | Some f \<Rightarrow>
        (case newConfig options of Panic \<Rightarrow> Panic | Return c \<Rightarrow>
           Return (retry_loop env c f 1 zero w [])))"

definition Do :: "'w go_env \<Rightarrow> ('w \<Rightarrow> go_error option \<times> 'w) option \<Rightarrow> 'w Option option list
    \<Rightarrow> 'w \<Rightarrow> (go_error option \<times> 'w \<times> unit effect list) option outcome" where
  "Do env operation options w =
     (case operation of None \<Rightarrow> Panic | Some f \<Rightarrow>
        (case DoValue () env (Some (\<lambda>w. case f w of (err, w') \<Rightarrow> (((), err), w'))) options w of
           Panic \<Rightarrow> Panic
         | Return r \<Rightarrow> Return (map_option (\<lambda>((_, err), w', tr). (err, w', tr)) r)))"

section \<open>Laws of the strategies\<close>

lemma multiplyDuration_saturates:
  assumes "0 < d" "1 \<le> n"
  shows "multiplyDuration d n = min MaxInt64 (d * n)"
proof -
  have "n \<le> MaxInt64 div d \<longleftrightarrow> n * d \<le> MaxInt64" using assms(1) by (rule le_div_iff_mult_le)
  moreover have "i64 (d * n) = d * n" if "d * n \<le> MaxInt64"
    using that assms by (intro i64_id in_i64_nonneg) auto
  ultimately show ?thesis
    by (auto simp: multiplyDuration_def mult.commute)
qed

definition clamp :: "int \<Rightarrow> int \<Rightarrow> int" where
  "clamp maximum d = (if maximum > 0 then min maximum d else min MaxInt64 d)"

lemma exponential_loop_clamps:
  assumes "0 < d" "d \<le> MaxInt64" "maximum \<le> MaxInt64"
  shows "exponential_loop maximum n d = clamp maximum (d * 2 ^ n)"
  using assms
proof (induction n arbitrary: d)
  case 0
  then show ?case by (auto simp: clamp_def)
next
  case (Suc n)
  define x where "x = d * 2 ^ Suc n"
  have ge: "d * 2 \<le> x"
    unfolding x_def using Suc.prems(1) by (intro mult_left_mono) (auto simp: one_le_power)
  have "exponential_loop maximum (Suc n) d = clamp maximum x"
  proof (cases "d > MaxInt64 div 2")
    case True
    then have "MaxInt64 < d * 2" by (simp add: MaxInt64_def)
    with ge Suc.prems show ?thesis by (auto simp: clamp_def True)
  next
    case False
    then have le: "d * 2 \<le> MaxInt64" by (simp add: MaxInt64_def)
    then have "i64 (d * 2) = d * 2" using Suc.prems by (intro i64_id in_i64_nonneg) auto
    then have "exponential_loop maximum n (i64 (d * 2)) = clamp maximum x"
      using Suc.IH [of "d * 2"] Suc.prems le by (simp add: x_def ac_simps)
    with False ge Suc.prems show ?thesis by (auto simp: clamp_def)
  qed
  then show ?case by (simp add: x_def)
qed

section \<open>Laws of the loop\<close>

fun executions :: "'a effect list \<Rightarrow> (int \<times> 'a \<times> go_error option) list" where
  "executions [] = []"
| "executions (Executed n v e # tr) = (n, v, e) # executions tr"
| "executions (Asked e # tr) = executions tr"
| "executions (Notified ev # tr) = executions tr"
| "executions (Waited d # tr) = executions tr"

lemma executions_append [simp]: "executions (xs @ ys) = executions xs @ executions ys"
  by (induction xs rule: executions.induct) simp_all

text \<open>An execution after which the loop goes on: it failed, without a permanent marker, with a
  cause that the predicate accepts.\<close>

definition retryable :: "'w config \<Rightarrow> go_error \<Rightarrow> bool" where
  "retryable c err \<longleftrightarrow> \<not> permanent (inspectError err) \<and> retryIf c (cause (inspectError err))"

definition loop_result :: "'w go_env \<Rightarrow> 'w config \<Rightarrow> int \<Rightarrow> 'a \<Rightarrow> 'a \<times> go_error option \<Rightarrow> 'w
    \<Rightarrow> (int \<times> 'a \<times> go_error option) list \<Rightarrow> bool" where
  "loop_result env c attempt result r w xs \<longleftrightarrow>
     map fst xs = map (\<lambda>i. attempt + int i) [0..<length xs] \<and>
     attempt + int (length xs) \<le> maxAttempts c + 1 \<and>
     (\<forall>x \<in> set (butlast xs). \<exists>err. snd (snd x) = Some err \<and> retryable c err) \<and>
     fst r = (if xs = [] then result else fst (snd (last xs))) \<and>
     (case snd r of
        None \<Rightarrow> xs \<noteq> [] \<and> snd (snd (last xs)) = None
      | Some er \<Rightarrow>
          ctx_Err env w = Some er \<and> (xs \<noteq> [] \<longrightarrow> snd (snd (last xs)) \<noteq> None) \<or>
          (\<exists>err. xs \<noteq> [] \<and> snd (snd (last xs)) = Some err \<and> er = cause (inspectError err) \<and>
             (permanent (inspectError err) \<or> fst (last xs) = maxAttempts c \<or> \<not> retryable c err)))"

lemma loop_result_Cons:
  assumes "loop_result env c (attempt + 1) v r w xs" "retryable c err"
  shows "loop_result env c attempt result r w ((attempt, v, Some err) # xs)"
proof -
  have "map (\<lambda>i. attempt + int i) [0..<Suc n] = attempt # map (\<lambda>i. attempt + 1 + int i) [0..<n]" for n
    by (rule nth_equalityI) (auto simp: nth_Cons' simp del: upt_Suc)
  with assms show ?thesis
    by (cases xs) (auto simp: loop_result_def simp del: upt_Suc split: option.splits)
qed

text \<open>Waits and notifications of a trace, and what they are after a given failed execution when
  the strategy does not depend on the world.\<close>

fun waits :: "'a effect list \<Rightarrow> int list" where
  "waits [] = []"
| "waits (Waited d # tr) = d # waits tr"
| "waits (Executed n v e # tr) = waits tr"
| "waits (Asked e # tr) = waits tr"
| "waits (Notified ev # tr) = waits tr"

fun notifications :: "'a effect list \<Rightarrow> Event list" where
  "notifications [] = []"
| "notifications (Notified ev # tr) = ev # notifications tr"
| "notifications (Executed n v e # tr) = notifications tr"
| "notifications (Asked e # tr) = notifications tr"
| "notifications (Waited d # tr) = notifications tr"

lemma waits_append [simp]: "waits (xs @ ys) = waits xs @ waits ys"
  by (induction xs rule: waits.induct) simp_all

lemma notifications_append [simp]: "notifications (xs @ ys) = notifications xs @ notifications ys"
  by (induction xs rule: notifications.induct) simp_all

fun event_for :: "'w config \<Rightarrow> (int \<Rightarrow> int) \<Rightarrow> int \<times> 'a \<times> go_error option \<Rightarrow> Event" where
  "event_for c b (n, v, e) =
     (let info = inspectError (the e)
      in \<lparr>eAttempt = n, eMaxAttempts = maxAttempts c, eErr = cause info,
          eDelay = (if override info then overrideDelay info else max (b n) 0)\<rparr>)"

definition paced :: "'w config \<Rightarrow> (int \<Rightarrow> int) \<Rightarrow> 'a effect list \<Rightarrow> bool" where
  "paced c b tr \<longleftrightarrow>
     (let evs = map (event_for c b) (take (length (waits tr)) (executions tr)) in
      length (waits tr) \<le> length (executions tr) \<and>
      length (executions tr) \<le> length (waits tr) + 1 \<and>
      waits tr = map eDelay evs \<and>
      notifications tr = (case notify c of None \<Rightarrow> [] | Some _ \<Rightarrow> evs))"

lemma paced_Cons:
  assumes "paced c b tr'"
    and "ev = event_for c b (n, v, Some er)"
  shows "paced c b ([Executed n v (Some er), Asked e] @
           (case notify c of None \<Rightarrow> [] | Some g \<Rightarrow> [Notified ev]) @ [Waited (eDelay ev)] @ tr')"
  using assms by (cases "notify c") (auto simp: paced_def Let_def)

lemma retry_loop_correct:
  assumes "1 \<le> attempt" "attempt \<le> maxAttempts c" "maxAttempts c \<le> MaxInt64"
  shows "\<exists>r w' tr'. retry_loop env c f attempt result w tr = Some (r, w', tr @ tr') \<and>
           loop_result env c attempt result r w' (executions tr') \<and>
           ((\<forall>n w. fst (backoff c n w) = b n) \<longrightarrow> paced c b tr')"
  using assms
proof (induction "nat (maxAttempts c - attempt)" arbitrary: attempt result w tr rule: less_induct)
  case less
  note unf = retry_loop.simps [of env c f attempt result w tr]
  show ?case
  proof (cases "ctx_Err env w")
    case (Some e)
    then show ?thesis using less.prems by (subst unf) (simp add: loop_result_def paced_def split: option.split)
  next
    case None
    note ctx0 = None
    obtain v err w1 where op: "f w = ((v, err), w1)" by (metis prod.exhaust)
    show ?thesis
    proof (cases err)
      case None
      then show ?thesis using less.prems ctx0 op
        by (subst unf) (simp add: loop_result_def paced_def split: option.split)
    next
      case (Some er)
      let ?info = "inspectError er"
      show ?thesis
      proof (cases "ctx_Err env w1 \<noteq> None \<or> permanent ?info \<or> attempt = maxAttempts c \<or> \<not> retryIf c (cause ?info)")
        case True
        have "\<exists>e tr2. retry_loop env c f attempt result w tr = Some ((v, Some e), w1, tr @ tr2) \<and>
            executions tr2 = [(attempt, v, err)] \<and> waits tr2 = [] \<and> notifications tr2 = [] \<and>
            (ctx_Err env w1 = Some e \<or> e = cause ?info \<and>
              (permanent ?info \<or> attempt = maxAttempts c \<or> \<not> retryable c er))"
        proof (cases "ctx_Err env w1")
          case None
          with True ctx0 op Some show ?thesis
            by (cases "permanent ?info \<or> attempt = maxAttempts c"; subst unf)
              (auto simp: Let_def retryable_def)
        qed (use ctx0 op Some in \<open>subst unf, simp\<close>)
        then obtain e tr2 where r: "retry_loop env c f attempt result w tr = Some ((v, Some e), w1, tr @ tr2)"
          "executions tr2 = [(attempt, v, err)]" "waits tr2 = []" "notifications tr2 = []" and
          e: "ctx_Err env w1 = Some e \<or> e = cause ?info \<and>
              (permanent ?info \<or> attempt = maxAttempts c \<or> \<not> retryable c er)" by blast
        have "loop_result env c attempt result (v, Some e) w1 [(attempt, v, err)]"
          using less.prems Some e by (auto simp: loop_result_def)
        moreover have "paced c b tr2"
          using r(2-4) by (simp add: paced_def split: option.splits)
        ultimately show ?thesis using r by metis
      next
        case False
        then have ok: "retryable c er" by (simp add: retryable_def)
        obtain d w2 where bo: "backoff c attempt w1 = (d, w2)" by fastforce
        let ?d = "if override ?info then overrideDelay ?info else max d 0"
        let ?ev = "\<lparr>eAttempt = attempt, eMaxAttempts = maxAttempts c, eErr = cause ?info, eDelay = ?d\<rparr>"
        let ?w3 = "case notify c of None \<Rightarrow> w2 | Some g \<Rightarrow> g ?ev w2"
        obtain we w4 where wt: "wait env ?d ?w3 = (we, w4)" by fastforce
        let ?tr = "[Executed attempt v err, Asked (cause ?info)] @
          (case notify c of None \<Rightarrow> [] | Some g \<Rightarrow> [Notified ?ev]) @ [Waited ?d]"
        have ex: "executions ?tr = [(attempt, v, err)]" by (simp split: option.splits)
        have pc: "paced c b (?tr @ tr')" if "\<forall>n w. fst (backoff c n w) = b n" "paced c b tr'" for tr'
        proof -
          have "d = b attempt" using that(1) bo by (metis fst_conv)
          then have ev: "?ev = event_for c b (attempt, v, Some er)" by (simp add: Let_def)
          show ?thesis using paced_Cons [OF that(2) ev, of "cause ?info"]
            by (simp only: Event.select_convs append.assoc \<open>err = Some er\<close>)
        qed
        have nil: "paced c b []" by (simp add: paced_def split: option.splits)
        show ?thesis
        proof (cases we)
          case (Some e)
          have "retry_loop env c f attempt result w tr = Some ((v, Some e), w4, tr @ ?tr)"
            using False ctx0 op \<open>err = Some er\<close> bo wt Some by (subst unf) (auto simp: Let_def)
          moreover have "ctx_Err env w4 = Some e"
            using wt Some by (auto simp: wait_def split: if_splits prod.splits bool.splits)
          then have "loop_result env c attempt result (v, Some e) w4 [(attempt, v, err)]"
            using less.prems \<open>err = Some er\<close> by (simp add: loop_result_def)
          ultimately show ?thesis using ex pc [OF _ nil] by (metis append_Nil2)
        next
          case None
          have lt: "attempt < maxAttempts c" using False less.prems(2) by linarith
          have inc: "i64 (attempt + 1) = attempt + 1"
            using less.prems lt by (intro i64_id in_i64_nonneg) auto
          have eq: "retry_loop env c f attempt result w tr = retry_loop env c f (attempt + 1) v w4 (tr @ ?tr)"
            using False ctx0 op \<open>err = Some er\<close> bo wt None inc by (subst unf) (auto simp: Let_def)
          obtain r w' tr' where IH: "retry_loop env c f (attempt + 1) v w4 (tr @ ?tr) = Some (r, w', (tr @ ?tr) @ tr')"
            "loop_result env c (attempt + 1) v r w' (executions tr')"
            "(\<forall>n w. fst (backoff c n w) = b n) \<longrightarrow> paced c b tr'"
            using less.hyps [of "attempt + 1" v w4 "tr @ ?tr"] less.prems lt by force
          have "executions (?tr @ tr') = (attempt, v, Some er) # executions tr'"
            using ex \<open>err = Some er\<close> by (simp only: executions_append) simp
          then have "loop_result env c attempt result r w' (executions (?tr @ tr'))"
            using loop_result_Cons [OF IH(2) ok] by simp
          with eq IH(1,3) pc show ?thesis by (metis append.assoc)
        qed
      qed
    qed
  qed
qed

lemma apply_options_attempts:
  assumes "\<forall>n. Some (WithMaxAttempts n) \<in> set options \<longrightarrow> n \<le> MaxInt64"
    and "1 \<le> maxAttempts c" "maxAttempts c \<le> MaxInt64"
  shows "1 \<le> maxAttempts (apply_options options c) \<and> maxAttempts (apply_options options c) \<le> MaxInt64"
  using assms
proof (induction options c rule: apply_options.induct)
  case (2 opt options c)
  show ?case
  proof (cases opt)
    case (Some x)
    then show ?thesis using 2 by (cases x) (auto split: option.splits)
  qed (use 2 in simp)
qed simp

lemma newConfig_valid:
  assumes "\<forall>n. Some (WithMaxAttempts n) \<in> set options \<longrightarrow> n \<le> MaxInt64"
  shows "\<exists>c. newConfig options = Return c \<and> 1 \<le> maxAttempts c \<and> maxAttempts c \<le> MaxInt64"
  using apply_options_attempts [OF assms]
  by (simp add: newConfig_def Exponential_def validateDelay_def defaultInitialDelay_def
      defaultMaximumDelay_def defaultMaxAttempts_def MaxInt64_def)

section \<open>Laws of the error markers\<close>

fun is_marker :: "go_error \<Rightarrow> bool" where
  "is_marker (PermanentError e) = True"
| "is_marker (AfterError d e) = True"
| "is_marker e = False"

lemma strip_markers_no_marker: "\<not> is_marker (strip_markers e)"
  by (induction e rule: strip_markers.induct) simp_all

lemma strip_markers_Is: "\<not> is_marker t \<Longrightarrow> errors_Is (strip_markers e) t \<longleftrightarrow> errors_Is e t"
  by (induction e rule: strip_markers.induct) (auto simp: errors_Is_def split: option.splits)

section \<open>Properties\<close>

text \<open>C4. A retry run always ends (whatever the operation, the context and the options do), with
  executions numbered from one and at most \<open>MaxAttempts\<close> of them. It goes on only after a
  failure that is neither permanent nor refused by the predicate; it returns the value of the
  last execution, and nil exactly when that execution succeeded. Any other error is the
  context's, or the unmarked cause of the last failure when nothing allows another attempt.\<close>

theorem DoValue_correct:
  assumes "\<forall>n. Some (WithMaxAttempts n) \<in> set options \<longrightarrow> n \<le> MaxInt64"
  shows "\<exists>c v e w' tr. newConfig options = Return c \<and>
    DoValue zero env (Some f) options w = Return (Some ((v, e), w', tr)) \<and>
    (let xs = executions tr; failure = snd (snd (last xs)) in
       map fst xs = map (\<lambda>i. 1 + int i) [0..<length xs] \<and>
       int (length xs) \<le> maxAttempts c \<and>
       (\<forall>x \<in> set (butlast xs). \<exists>err. snd (snd x) = Some err \<and> retryable c err) \<and>
       v = (if xs = [] then zero else fst (snd (last xs))) \<and>
       (e = None \<longleftrightarrow> xs \<noteq> [] \<and> failure = None) \<and>
       (\<forall>er. e = Some er \<longrightarrow> ctx_Err env w' = Some er \<or>
          (\<exists>err. xs \<noteq> [] \<and> failure = Some err \<and> er = cause (inspectError err) \<and>
             (int (length xs) = maxAttempts c \<or> \<not> retryable c err))))"
proof -
  obtain c where c: "newConfig options = Return c" "1 \<le> maxAttempts c" "maxAttempts c \<le> MaxInt64"
    using newConfig_valid [OF assms] by blast
  obtain r w' tr where loop: "retry_loop env c f 1 zero w [] = Some (r, w', tr)"
    and res: "loop_result env c 1 zero r w' (executions tr)"
    using retry_loop_correct [OF order_refl c(2,3), of env f zero w "[]" "\<lambda>_. 0"] by auto
  have len: "fst (last (executions tr)) = int (length (executions tr))" if "executions tr \<noteq> []"
  proof -
    have "last (map fst (executions tr)) = last (map (\<lambda>i. 1 + int i) [0..<length (executions tr)])"
      using res by (simp add: loop_result_def)
    with that show ?thesis by (simp add: last_map of_nat_diff Suc_le_eq)
  qed
  have "DoValue zero env (Some f) options w = Return (Some ((fst r, snd r), w', tr))"
    using c loop by (simp add: DoValue_def)
  moreover have "snd r = None \<longleftrightarrow> executions tr \<noteq> [] \<and> snd (snd (last (executions tr))) = None"
    using res by (auto simp: loop_result_def split: option.splits)
  ultimately show ?thesis
    using c(1) res len unfolding loop_result_def Let_def
    by (intro exI [of _ c] exI [of _ "fst r"] exI [of _ "snd r"] exI [of _ w'] exI [of _ tr])
      (auto simp: retryable_def)
qed

text \<open>An operation that fails twice, in a world that counts its executions.\<close>

definition example_env :: "nat go_env" where
  "example_env = \<lparr>ctx_Err = (\<lambda>w. None), timer_select = (\<lambda>d w. (True, w))\<rparr>"

definition example_operation :: "nat \<Rightarrow> (nat \<times> go_error option) \<times> nat" where
  "example_operation w = ((w, if w < 2 then Some (Sentinel ''busy'') else None), w + 1)"

theorem DoValue_correct_witness:
  "\<exists>(c :: nat config) v e w' tr. newConfig [] = Return c \<and>
    DoValue 0 example_env (Some example_operation) [] 0 = Return (Some ((v, e), w', tr)) \<and>
    v = 2 \<and> e = None \<and> int (length (executions tr)) \<le> maxAttempts c"
proof -
  have "map_option fst (case DoValue 0 example_env (Some example_operation) [] 0 of
      Return r \<Rightarrow> r | Panic \<Rightarrow> None) = Some (2, None)" by code_simp
  moreover have "\<forall>n. Some (WithMaxAttempts n) \<in> set [] \<longrightarrow> n \<le> MaxInt64" by simp
  from DoValue_correct [OF this, of 0 example_env example_operation 0]
  obtain c :: "nat config" and v e w' tr where "newConfig [] = Return c"
    "DoValue 0 example_env (Some example_operation) [] 0 = Return (Some ((v, e), w', tr))"
    "int (length (executions tr)) \<le> maxAttempts c" unfolding Let_def by blast
  ultimately show ?thesis by fastforce
qed

text \<open>C33. The pace of a run: with a strategy \<open>b\<close> that depends on the attempt alone, every failed
  execution that is retried is followed by one wait, of the delay its \<open>After\<close> marker asks for or
  else of the strategy's (a negative one counts as zero); a notification function sees exactly
  these retries, with the failed attempt, the cause and that delay.\<close>

theorem DoValue_pace:
  assumes "\<forall>n. Some (WithMaxAttempts n) \<in> set options \<longrightarrow> n \<le> MaxInt64"
    and "newConfig options = Return c" "\<forall>n w. fst (backoff c n w) = b n"
  shows "\<exists>r w' tr. DoValue zero env (Some f) options w = Return (Some (r, w', tr)) \<and>
    (let evs = map (event_for c b) (take (length (waits tr)) (executions tr)) in
       length (waits tr) \<in> {length (executions tr) - 1, length (executions tr)} \<and>
       waits tr = map eDelay evs \<and>
       notifications tr = (case notify c of None \<Rightarrow> [] | Some _ \<Rightarrow> evs))"
proof -
  have c: "1 \<le> maxAttempts c" "maxAttempts c \<le> MaxInt64"
    using newConfig_valid [OF assms(1)] assms(2) by auto
  obtain r w' tr where "retry_loop env c f 1 zero w [] = Some (r, w', tr)" "paced c b tr"
    using retry_loop_correct [OF order_refl c, of env f zero w "[]" b] assms(3) by auto
  with assms(2) show ?thesis by (auto simp: DoValue_def paced_def Let_def)
qed

theorem DoValue_pace_witness:
  "\<exists>c r w' tr. newConfig [] = Return c \<and>
    DoValue 0 example_env (Some example_operation) [] 0 = Return (Some (r, w', tr)) \<and>
    waits tr = map eDelay (map (event_for c (\<lambda>n. fst (backoff c n (0 :: nat))))
      (take (length (waits tr)) (executions tr)))"
proof -
  let ?b = "\<lambda>attempt. if attempt < 1 then 0
    else exponential_loop 1000000000 (nat (attempt - 1)) 100000000"
  let ?c = "\<lparr>maxAttempts = 3, backoff = (\<lambda>attempt w. (?b attempt, w)), retryIf = defaultRetryIf, notify = None\<rparr>
    :: nat config"
  have c: "newConfig [] = Return ?c"
    by (simp add: newConfig_def Exponential_def validateDelay_def defaultInitialDelay_def
        defaultMaximumDelay_def defaultMaxAttempts_def)
  have "\<exists>r w' tr. DoValue 0 example_env (Some example_operation) [] 0 = Return (Some (r, w', tr)) \<and>
    waits tr = map eDelay (map (event_for ?c ?b) (take (length (waits tr)) (executions tr)))"
    using DoValue_pace [OF _ c, of ?b 0 example_env example_operation 0] by (auto simp: Let_def)
  with c show ?thesis by (intro exI [of _ ?c]) simp
qed

lemma Jitter_draw:
  assumes "0 \<le> maximum" "maximum \<le> MaxInt64" and "strategy n w = (delay, w1)" "delay \<le> MaxInt64"
    and "rand (maximum + 1) w1 = (j, w2)" "0 \<le> j" "j \<le> maximum"
  shows "\<exists>b. Jitter rand (Some strategy) maximum = Return b \<and>
    b n w = (if maximum = 0 \<or> delay \<le> 0 then (delay, w1) else (min MaxInt64 (delay + j), w2))"
proof -
  have "i64 (delay + j) = delay + j" if "0 < delay" "delay \<le> MaxInt64 - j"
    using that assms by (intro i64_id in_i64_nonneg) auto
  then show ?thesis using assms by (auto simp: Jitter_def validateDelay_def)
qed

text \<open>C34. The strategies compute what they promise in 64-bit arithmetic. \<open>Fixed\<close> is its delay; \<open>Linear\<close> and
  \<open>Exponential\<close> are the exact products, clamped to the maximum or to the largest duration instead of wrapping.
  \<open>Jitter\<close> leaves a delay that is not positive alone, and so does a maximum of zero; to any other delay it adds the number that it
  draws from zero through its maximum, clamped to the largest duration; without a strategy it never waits. A negative
  argument panics, and so does a positive maximum below the initial delay.\<close>

theorem backoff_exact:
  fixes w :: 'w
  assumes "1 \<le> n" and "d \<le> MaxInt64" "initial \<le> MaxInt64" "maximum \<le> MaxInt64"
  shows "(0 \<le> d \<longrightarrow> (\<exists>b. Fixed d = Return b \<and> b n w = (d, w)) \<and>
            (\<exists>b. Linear d = Return b \<and> b n w = (min MaxInt64 (d * n), w))) \<and>
         (d < 0 \<longrightarrow> (Fixed d :: 'w Backoff outcome) = Panic \<and> (Linear d :: 'w Backoff outcome) = Panic) \<and>
         (if 0 \<le> initial \<and> 0 \<le> maximum \<and> \<not> (0 < maximum \<and> maximum < initial)
          then \<exists>b. Exponential initial maximum = Return b \<and>
               b n w = (clamp maximum (initial * 2 ^ nat (n - 1)), w)
          else (Exponential initial maximum :: 'w Backoff outcome) = Panic) \<and>
         (\<forall>rand backoff. (maximum < 0 \<longrightarrow> (Jitter rand backoff maximum :: 'w Backoff outcome) = Panic) \<and>
            (Jitter rand None maximum :: 'w Backoff outcome) = Jitter rand (Some NoBackoff) maximum) \<and>
         (\<forall>strategy rand delay w1 j w2. 0 \<le> maximum \<and>
              (\<forall>k w. 0 < k \<longrightarrow> 0 \<le> fst (rand k w) \<and> fst (rand k w) < k) \<and>
              strategy n w = (delay, w1) \<and> delay \<le> MaxInt64 \<and> rand (maximum + 1) w1 = (j, w2) \<longrightarrow>
            0 \<le> j \<and> j \<le> maximum \<and>
            (\<exists>b. Jitter rand (Some strategy) maximum = Return b \<and>
               b n w = (if maximum = 0 \<or> delay \<le> 0 then (delay, w1) else (min MaxInt64 (delay + j), w2))))"
proof (intro conjI impI allI)
  assume "0 \<le> d"
  then show "\<exists>b. Fixed d = Return b \<and> b n w = (d, w)" by (simp add: Fixed_def validateDelay_def)
  show "\<exists>b. Linear d = Return b \<and> b n w = (min MaxInt64 (d * n), w)"
    using \<open>0 \<le> d\<close> assms(1) multiplyDuration_saturates [of d n]
    by (auto simp: Linear_def validateDelay_def MaxInt64_def)
next
  assume "d < 0"
  then show "(Fixed d :: 'w Backoff outcome) = Panic" "(Linear d :: 'w Backoff outcome) = Panic"
    by (simp_all add: Fixed_def Linear_def validateDelay_def)
next
  show "if 0 \<le> initial \<and> 0 \<le> maximum \<and> \<not> (0 < maximum \<and> maximum < initial)
      then \<exists>b. Exponential initial maximum = Return b \<and> b n w = (clamp maximum (initial * 2 ^ nat (n - 1)), w)
      else (Exponential initial maximum :: 'w Backoff outcome) = Panic"
    using assms exponential_loop_clamps [of initial maximum "nat (n - 1)"]
    by (auto simp: Exponential_def validateDelay_def clamp_def MaxInt64_def)
next
  fix rand and backoff :: "'w Backoff option"
  show "(Jitter rand None maximum :: 'w Backoff outcome) = Jitter rand (Some NoBackoff) maximum"
    by (simp add: Jitter_def)
  assume "maximum < 0"
  then show "Jitter rand backoff maximum = Panic" by (simp add: Jitter_def validateDelay_def)
next
  fix strategy rand :: "int \<Rightarrow> 'w \<Rightarrow> int \<times> 'w" and delay w1 j w2
  assume a: "0 \<le> maximum \<and> (\<forall>k w. 0 < k \<longrightarrow> 0 \<le> fst (rand k w) \<and> fst (rand k w) < k) \<and>
    strategy n w = (delay, w1) \<and> delay \<le> MaxInt64 \<and> rand (maximum + 1) w1 = (j, w2)"
  then have "0 < maximum + 1" by simp
  with a have "0 \<le> fst (rand (maximum + 1) w1) \<and> fst (rand (maximum + 1) w1) < maximum + 1" by blast
  then show j: "0 \<le> j" "j \<le> maximum" using a by simp_all
  show "\<exists>b. Jitter rand (Some strategy) maximum = Return b \<and>
      b n w = (if maximum = 0 \<or> delay \<le> 0 then (delay, w1) else (min MaxInt64 (delay + j), w2))"
    using Jitter_draw [of maximum strategy n w delay w1 rand j w2] a j assms(4) by blast
qed

theorem backoff_exact_witness:
  "(\<exists>b. Exponential 100 1000 = Return b \<and> b 6 (0 :: nat) = (clamp 1000 (100 * 2 ^ nat (6 - 1)), 0) \<and>
       clamp 1000 (100 * 2 ^ nat (6 - 1)) = 1000) \<and>
   (\<exists>b. Jitter (\<lambda>k w. (k - 1, w + 1)) (Some (\<lambda>attempt w. (10 * attempt, w))) 1000 = Return b \<and> b 6 (0 :: nat) = (1060, 1))"
proof (intro conjI)
  have m: "(1 :: int) \<le> MaxInt64" "100 \<le> MaxInt64" "1000 \<le> MaxInt64" by (simp_all add: MaxInt64_def)
  note exact = backoff_exact [OF _ m, of 6 "0 :: nat"]
  have "\<exists>b. Exponential 100 1000 = Return b \<and> b 6 (0 :: nat) = (clamp 1000 (100 * 2 ^ nat (6 - 1)), 0)"
    using exact by simp
  moreover have "clamp 1000 (100 * 2 ^ nat (6 - 1)) = 1000" by code_simp
  ultimately show "\<exists>b. Exponential 100 1000 = Return b \<and> b 6 (0 :: nat) = (clamp 1000 (100 * 2 ^ nat (6 - 1)), 0) \<and>
       clamp 1000 (100 * 2 ^ nat (6 - 1)) = 1000" by auto
  let ?rand = "\<lambda>(k :: int) (w :: nat). (k - 1, w + 1)" and ?s = "\<lambda>(attempt :: int) (w :: nat). (10 * attempt, w)"
  have "\<exists>b. Jitter ?rand (Some ?s) 1000 = Return b \<and>
      b 6 0 = (if (1000 :: int) = 0 \<or> (60 :: int) \<le> 0 then (60, 0) else (min MaxInt64 (60 + 1000), 1))"
    using exact [THEN conjunct2, THEN conjunct2, THEN conjunct2, THEN conjunct2, rule_format, of ?rand ?s 60 0 1000 1] m(3)
    by (simp add: MaxInt64_def)
  then show "\<exists>b. Jitter ?rand (Some ?s) 1000 = Return b \<and> b 6 0 = (1060, 1)" by (simp add: MaxInt64_def)
qed

text \<open>Markers are transparent: \<open>inspectError\<close> strips the markers at the root and nothing
  else, so the cause it returns is not a marker and matches, under \<open>errors.Is\<close>, exactly the
  unmarked errors that the marked error matches; a \<open>Permanent\<close> marker stops the retries and the
  outermost \<open>After\<close> marker sets the delay, also when other errors wrap them.\<close>

theorem inspectError_markers:
  "\<not> is_marker (cause (inspectError err)) \<and>
   (\<not> is_marker t \<longrightarrow> errors_Is (cause (inspectError err)) t = errors_Is err t) \<and>
   permanent (inspectError (PermanentError err)) \<and>
   override (inspectError (AfterError d err)) \<and> overrideDelay (inspectError (AfterError d err)) = d \<and>
   permanent (inspectError (AfterError d err)) = permanent (inspectError err) \<and>
   permanent (inspectError (Wrapped m err)) = permanent (inspectError err) \<and>
   overrideDelay (inspectError (Wrapped m err)) = overrideDelay (inspectError err)"
  using strip_markers_no_marker [of err] strip_markers_Is [of t err]
  by (simp add: inspectError_def Let_def as_permanent_def as_after_def split: option.splits)

theorem inspectError_markers_witness:
  "\<not> is_marker Canceled \<and>
   errors_Is (cause (inspectError (PermanentError (AfterError 5 Canceled)))) Canceled =
   errors_Is (PermanentError (AfterError 5 Canceled)) Canceled"
  using inspectError_markers [of "PermanentError (AfterError 5 Canceled)" Canceled 0 "''x''"] by simp

end
