(* ===== verification/Poll.thy ===== *)
theory Poll
  imports Prelude
begin

text \<open>
  Package \<open>poll\<close> (\<open>src/poll\<close>): calls a condition at a fixed interval until it is done, fails or
  the context ends. The loop may run forever, so it is a \<open>partial_function\<close> whose value is
  \<open>None\<close> then. World and context are as in the retry package.
\<close>

section \<open>The code\<close>

definition wait :: "'w go_env \<Rightarrow> int \<Rightarrow> 'w \<Rightarrow> go_error option \<times> 'w" where
  "wait env interval w =
     (case timer_select env interval w of
        (False, w') \<Rightarrow> (ctx_Err env w', w')
      | (True, w') \<Rightarrow> (None, w'))"

type_synonym ('w, 'a) ValueCondition = "'w \<Rightarrow> ('a \<times> bool \<times> go_error option) \<times> 'w"

partial_function (option) until_loop ::
  "'w go_env \<Rightarrow> int \<Rightarrow> ('w, 'a) ValueCondition \<Rightarrow> 'a \<Rightarrow> 'w \<Rightarrow> (('a \<times> go_error option) \<times> 'w) option" where
  "until_loop env interval condition value w =
     (case ctx_Err env w of Some err \<Rightarrow> Some ((value, Some err), w) | None \<Rightarrow>
      (case condition w of ((value, done, err), w1) \<Rightarrow>
       (case ctx_Err env w1 of Some ctxErr \<Rightarrow> Some ((value, Some ctxErr), w1) | None \<Rightarrow>
        (case err of Some err \<Rightarrow> Some ((value, Some err), w1) | None \<Rightarrow>
         if done then Some ((value, None), w1)
         else
           (case wait env interval w1 of
              (Some err, w2) \<Rightarrow> Some ((value, Some err), w2)
            | (None, w2) \<Rightarrow> until_loop env interval condition value w2)))))"

declare until_loop.simps [code]

definition untilValue :: "'a \<Rightarrow> 'w go_env \<Rightarrow> int \<Rightarrow> ('w, 'a) ValueCondition \<Rightarrow> 'w
    \<Rightarrow> (('a \<times> go_error option) \<times> 'w) option outcome" where
  "untilValue zero env interval condition w =
     (if interval \<le> 0 then Panic else Return (until_loop env interval condition zero w))"

definition UntilValue :: "'a \<Rightarrow> 'w go_env \<Rightarrow> int \<Rightarrow> ('w, 'a) ValueCondition option \<Rightarrow> 'w
    \<Rightarrow> (('a \<times> go_error option) \<times> 'w) option outcome" where
  "UntilValue zero env interval condition w =
     (case condition of None \<Rightarrow> Panic | Some f \<Rightarrow> untilValue zero env interval f w)"

definition Until :: "'w go_env \<Rightarrow> int \<Rightarrow> ('w \<Rightarrow> (bool \<times> go_error option) \<times> 'w) option \<Rightarrow> 'w
    \<Rightarrow> (go_error option \<times> 'w) option outcome" where
  "Until env interval condition w =
     (case condition of None \<Rightarrow> Panic | Some f \<Rightarrow>
        (case untilValue () env interval (\<lambda>w. case f w of ((done, err), w') \<Rightarrow> (((), done, err), w')) w of
           Panic \<Rightarrow> Panic
         | Return r \<Rightarrow> Return (map_option (\<lambda>((_, err), w'). (err, w')) r)))"

section \<open>Specification\<close>

text \<open>
  One round of polling either ends with a result or leaves a value and a world from which the
  next round starts. A round ends with the context's error if the context has ended before the
  condition is called, while it runs or during the wait.
\<close>

datatype ('a, 'w) round_result = Ends "'a \<times> go_error option" 'w | Goes_on 'a 'w

fun poll_round :: "'w go_env \<Rightarrow> int \<Rightarrow> ('w, 'a) ValueCondition \<Rightarrow> 'a \<Rightarrow> 'w \<Rightarrow> ('a, 'w) round_result" where
  "poll_round env interval condition value w =
     (case ctx_Err env w of Some err \<Rightarrow> Ends (value, Some err) w | None \<Rightarrow>
        let ((v, done, err), w1) = condition w;
            (werr, w2) = wait env interval w1
        in if ctx_Err env w1 \<noteq> None then Ends (v, ctx_Err env w1) w1
           else if err \<noteq> None \<or> done then Ends (v, err) w1
           else if werr \<noteq> None then Ends (v, werr) w2
           else Goes_on v w2)"

text \<open>The state after \<open>n\<close> unfinished rounds, and that round \<open>n\<close> (from zero) is the last.\<close>

fun unfinished :: "'w go_env \<Rightarrow> int \<Rightarrow> ('w, 'a) ValueCondition \<Rightarrow> nat \<Rightarrow> 'a \<Rightarrow> 'w \<Rightarrow> ('a \<times> 'w) option" where
  "unfinished env interval condition 0 value w = Some (value, w)"
| "unfinished env interval condition (Suc n) value w =
     (case poll_round env interval condition value w of
        Ends r w' \<Rightarrow> None
      | Goes_on v w' \<Rightarrow> unfinished env interval condition n v w')"

definition ends_in_round :: "'w go_env \<Rightarrow> int \<Rightarrow> ('w, 'a) ValueCondition \<Rightarrow> 'a \<Rightarrow> 'w \<Rightarrow> nat
    \<Rightarrow> 'a \<times> go_error option \<Rightarrow> 'w \<Rightarrow> bool" where
  "ends_in_round env interval condition value w n r w' \<longleftrightarrow>
     (case unfinished env interval condition n value w of
        None \<Rightarrow> False
      | Some (v, wn) \<Rightarrow> poll_round env interval condition v wn = Ends r w')"

section \<open>Laws of the loop\<close>

lemma until_loop_round:
  "until_loop env interval condition v0 w =
     (case poll_round env interval condition v0 w of
        Ends r w' \<Rightarrow> Some (r, w')
      | Goes_on v w' \<Rightarrow> until_loop env interval condition v w')"
  by (subst until_loop.simps) (auto split: option.splits prod.splits)

lemma until_loop_unfinished:
  "unfinished env interval condition n v0 w = Some (v, w') \<Longrightarrow>
   until_loop env interval condition v0 w = until_loop env interval condition v w'"
proof (induction n arbitrary: v0 w)
  case (Suc n)
  then show ?case
    by (subst until_loop_round) (auto split: round_result.splits simp del: poll_round.simps)
qed simp

lemma until_loop_finds:
  assumes "until_loop env interval condition v0 w = Some y"
  shows "\<exists>n. ends_in_round env interval condition v0 w n (fst y) (snd y)"
proof (rule until_loop.raw_induct [where P = "\<lambda>env interval condition v0 w y.
      \<exists>n. ends_in_round env interval condition v0 w n (fst y) (snd y)", OF _ assms], goal_cases)
  case (1 f env interval condition v0 w y)
  have "(case poll_round env interval condition v0 w of
      Ends r w' \<Rightarrow> Some (r, w') | Goes_on v w' \<Rightarrow> f env interval condition v w') = Some y"
    using 1(2) by (auto split: option.splits prod.splits if_splits)
  then consider (ends) "poll_round env interval condition v0 w = Ends (fst y) (snd y)"
    | (on) v w' where "poll_round env interval condition v0 w = Goes_on v w'"
        "f env interval condition v w' = Some y"
    by (auto split: round_result.splits)
  then show ?case
  proof cases
    case ends
    then have "ends_in_round env interval condition v0 w 0 (fst y) (snd y)" by (simp add: ends_in_round_def)
    then show ?thesis ..
  next
    case on
    then obtain n where "ends_in_round env interval condition v w' n (fst y) (snd y)"
      using 1(1) by blast
    with on have "ends_in_round env interval condition v0 w (Suc n) (fst y) (snd y)"
      by (simp add: ends_in_round_def del: poll_round.simps)
    then show ?thesis ..
  qed
qed

lemma until_loop_iff:
  "until_loop env interval condition v0 w = Some (r, w') \<longleftrightarrow>
   (\<exists>n. ends_in_round env interval condition v0 w n r w')"
proof
  assume "\<exists>n. ends_in_round env interval condition v0 w n r w'"
  then obtain n v wn where "unfinished env interval condition n v0 w = Some (v, wn)"
    "poll_round env interval condition v wn = Ends r w'"
    by (auto simp: ends_in_round_def simp del: poll_round.simps split: option.splits)
  then show "until_loop env interval condition v0 w = Some (r, w')"
    using until_loop_unfinished [of env interval condition n v0 w]
    by (simp add: until_loop_round [of env interval condition v wn] del: poll_round.simps)
next
  assume "until_loop env interval condition v0 w = Some (r, w')"
  from until_loop_finds [OF this] show "\<exists>n. ends_in_round env interval condition v0 w n r w'" by simp
qed

section \<open>Properties\<close>

text \<open>C35. Polling returns exactly when some round is the last one, with that round's result: for
  every world and condition the loop ends if and only if a round ends it, after one call of the
  condition per round, and a nil error means that the last call was done, without an error, in
  a context that had not ended.\<close>

theorem UntilValue_rounds:
  assumes "0 < interval"
  shows "\<exists>res. UntilValue zero env interval (Some condition) w = Return res \<and>
    (\<forall>r w'. res = Some (r, w') \<longleftrightarrow> (\<exists>n. ends_in_round env interval condition zero w n r w')) \<and>
    (\<forall>v w'. res = Some ((v, None), w') \<longrightarrow>
       (\<exists>w1. condition w1 = ((v, True, None), w') \<and> ctx_Err env w1 = None \<and> ctx_Err env w' = None))"
proof -
  have "\<exists>w1. condition w1 = ((v, True, None), w') \<and> ctx_Err env w1 = None \<and> ctx_Err env w' = None"
    if "ends_in_round env interval condition zero w n (v, None) w'" for n v w'
    using that by (auto simp: ends_in_round_def split: option.splits prod.splits if_splits)
  then show ?thesis
    using assms until_loop_iff [of env interval condition zero w]
    by (auto simp: UntilValue_def untilValue_def)
qed

definition example_env :: "nat go_env" where
  "example_env = \<lparr>ctx_Err = (\<lambda>w. if w > 9 then Some Canceled else None), timer_select = (\<lambda>d w. (True, w))\<rparr>"

definition example_condition :: "(nat, nat) ValueCondition" where
  "example_condition w = ((w, w = 3, None), w + 1)"

theorem UntilValue_rounds_witness:
  "\<exists>res. UntilValue 0 example_env 5 (Some example_condition) 0 = Return res \<and> res = Some ((3, None), 4) \<and>
    (\<forall>r w'. res = Some (r, w') \<longleftrightarrow> (\<exists>n. ends_in_round example_env 5 example_condition 0 0 n r w'))"
proof -
  have "UntilValue 0 example_env 5 (Some example_condition) 0 = Return (Some ((3, None), 4))" by code_simp
  with UntilValue_rounds [of 5 0 example_env example_condition 0] show ?thesis by auto
qed

end
