(* ===== verification/Codec.thy ===== *)
theory Codec
  imports Prelude "HOL-Library.Word"
begin

text \<open>
  Package \<open>codec\<close> (\<open>src/codec/codec.go\<close>): the interface through which other packages turn values
  into bytes and back. A codec for values of type \<open>'v\<close> is a pair of functions; the codecs
  themselves wrap encoders of other modules and are parameters. Also the hexadecimal encoding
  of the standard library, with which the packages print random identifiers.
\<close>

type_synonym bytes = "8 word list"

record 'v codec =
  Marshal :: "'v \<Rightarrow> go_error + bytes"
  Unmarshal :: "bytes \<Rightarrow> go_error + 'v"

text \<open>What the documentation of the encoders promises: decoding reads back what was written.\<close>

definition codec_roundtrip :: "'v codec \<Rightarrow> bool" where
  "codec_roundtrip c \<longleftrightarrow> (\<forall>v bs. Marshal c v = Inr bs \<longrightarrow> Unmarshal c bs = Inr v)"

text \<open>What the packages take from their environment: the clock (nanoseconds since the Unix epoch)
  and \<open>rand.Read\<close>, which fills the 16 bytes of an identifier or fails.\<close>

record 'w exec_env =
  env_now :: "'w \<Rightarrow> int"
  rand_Read :: "'w \<Rightarrow> (go_error + bytes) \<times> 'w"

text \<open>Bytes that were read are not none at all.\<close>

definition rand_ok :: "'w exec_env \<Rightarrow> bool" where
  "rand_ok env \<longleftrightarrow> (\<forall>w bs w1. rand_Read env w = (Inr bs, w1) \<longrightarrow> bs \<noteq> [])"

definition hex_digit :: "nat \<Rightarrow> char" where
  "hex_digit n = ''0123456789abcdef'' ! n"

definition hex_EncodeToString :: "bytes \<Rightarrow> string" where
  "hex_EncodeToString bs = concat (map (\<lambda>b. [hex_digit (unat b div 16), hex_digit (unat b mod 16)]) bs)"

text \<open>The encoding is injective: distinct identifiers print differently.\<close>

lemma hex_digit_inject: "m < 16 \<Longrightarrow> n < 16 \<Longrightarrow> hex_digit m = hex_digit n \<longleftrightarrow> m = n"
proof -
  have "distinct ''0123456789abcdef''" by simp
  moreover assume "m < 16" "n < 16"
  ultimately show ?thesis by (simp add: hex_digit_def nth_eq_iff_index_eq)
qed

lemma hex_EncodeToString_inject: "hex_EncodeToString xs = hex_EncodeToString ys \<longleftrightarrow> xs = ys"
proof (induction xs arbitrary: ys)
  case Nil
  then show ?case by (cases ys) (auto simp: hex_EncodeToString_def)
next
  case (Cons x xs)
  show ?case
  proof (cases ys)
    case (Cons y ys')
    have lt: "unat b div 16 < 16" for b :: "8 word" using unsigned_less [where 'a=nat, of b] by simp
    have "unat x div 16 = unat y div 16 \<Longrightarrow> unat x mod 16 = unat y mod 16 \<Longrightarrow> x = y"
      by (metis div_mult_mod_eq word_unat_eq_iff)
    then have "hex_digit (unat x div 16) = hex_digit (unat y div 16) \<and>
        hex_digit (unat x mod 16) = hex_digit (unat y mod 16) \<longleftrightarrow> x = y"
      using hex_digit_inject [OF lt lt, of x y] hex_digit_inject [of "unat x mod 16" "unat y mod 16"] by auto
    with Cons.IH [of ys'] Cons show ?thesis by (auto simp: hex_EncodeToString_def)
  qed (simp add: hex_EncodeToString_def)
qed

lemma length_hex [simp]: "length (hex_EncodeToString bs) = 2 * length bs"
  by (induction bs) (simp_all add: hex_EncodeToString_def)

end
