(* ===== verification/Idempotency.thy ===== *)
theory Idempotency
  imports Codec
begin

text \<open>
  Package \<open>idempotency\<close> (\<open>src/idempotency\<close>): configuration, the \<open>Store\<close> interface and the
  executor. Everything a call acts on (store, clock, what the handler changes) is a world of type
  \<open>'w\<close>; another caller's operations on the store are part of what a handler may do to it. A
  context is nil or a function from worlds to the cause of its cancellation. The locale
  \<open>idempotency_store\<close> is the contract of the interface; the behaviour of \<open>Do\<close> and \<open>DoValue\<close> is
  proved in it once, for every store.
\<close>

section \<open>Configuration\<close>

record 'v config =
  executionTTL :: int
  resultTTL :: int
  finalizationTimeout :: int
  config_codec :: "'v codec"

definition defaultExecutionTTL :: int where "defaultExecutionTTL = 30 * 1000000000"
definition defaultResultTTL :: int where "defaultResultTTL = 24 * 3600 * 1000000000"
definition defaultFinalizationTimeout :: int where "defaultFinalizationTimeout = 5 * 1000000000"

datatype 'v Option =
    WithFinalizationTimeout int
  | WithCodec "'v codec option"
  | OptionExecutionTTL int
  | OptionResultTTL int

fun apply_option :: "'v Option \<Rightarrow> 'v config \<Rightarrow> 'v config" where
  "apply_option (WithFinalizationTimeout timeout) c =
     (if timeout > 0 then c\<lparr>finalizationTimeout := timeout\<rparr> else c)"
| "apply_option (WithCodec v) c = (case v of Some x \<Rightarrow> c\<lparr>config_codec := x\<rparr> | None \<Rightarrow> c)"
| "apply_option (OptionExecutionTTL ttl) c = (if ttl > 0 then c\<lparr>executionTTL := ttl\<rparr> else c)"
| "apply_option (OptionResultTTL ttl) c = (if ttl > 0 then c\<lparr>resultTTL := ttl\<rparr> else c)"

text \<open>The default codec is the JSON codec of another package, a parameter here; nil options are
  skipped.\<close>

definition newConfig :: "'v codec \<Rightarrow> 'v Option option list \<Rightarrow> 'v config" where
  "newConfig codecjson options =
     fold (\<lambda>opt c. case opt of Some x \<Rightarrow> apply_option x c | None \<Rightarrow> c) options
       \<lparr>executionTTL = defaultExecutionTTL, resultTTL = defaultResultTTL,
        finalizationTimeout = defaultFinalizationTimeout, config_codec = codecjson\<rparr>"

record executeConfig =
  exec_executionTTL :: int
  exec_resultTTL :: int
  exec_fingerprint :: string

datatype ExecuteOption =
    ExecuteExecutionTTL int
  | ExecuteResultTTL int
  | WithFingerprint string

fun applyExecute :: "ExecuteOption \<Rightarrow> executeConfig \<Rightarrow> executeConfig" where
  "applyExecute (ExecuteExecutionTTL ttl) c = (if ttl > 0 then c\<lparr>exec_executionTTL := ttl\<rparr> else c)"
| "applyExecute (ExecuteResultTTL ttl) c = (if ttl > 0 then c\<lparr>exec_resultTTL := ttl\<rparr> else c)"
| "applyExecute (WithFingerprint fingerprint) c = c\<lparr>exec_fingerprint := fingerprint\<rparr>"

definition newExecuteConfig :: "'v config \<Rightarrow> ExecuteOption option list \<Rightarrow> executeConfig" where
  "newExecuteConfig c options =
     fold (\<lambda>opt e. case opt of Some x \<Rightarrow> applyExecute x e | None \<Rightarrow> e) options
       \<lparr>exec_executionTTL = executionTTL c, exec_resultTTL = resultTTL c, exec_fingerprint = []\<rparr>"

section \<open>The store interface\<close>

definition ErrInvalidContext :: go_error where
  "ErrInvalidContext = Sentinel ''idempotency: invalid context''"
definition ErrInvalidKey :: go_error where
  "ErrInvalidKey = Sentinel ''idempotency: invalid key''"
definition ErrInProgress :: go_error where
  "ErrInProgress = Sentinel ''idempotency: operation in progress''"
definition ErrKeyConflict :: go_error where
  "ErrKeyConflict = Sentinel ''idempotency: key reused with different input''"
definition ErrClaimLost :: go_error where
  "ErrClaimLost = Sentinel ''idempotency: execution claim lost''"

text \<open>The status is a number, of which a store may return any.\<close>

type_synonym BeginStatus = nat

definition BeginAcquired :: BeginStatus where "BeginAcquired = 1"
definition BeginInProgress :: BeginStatus where "BeginInProgress = 2"
definition BeginCompleted :: BeginStatus where "BeginCompleted = 3"

lemmas BeginStatus_defs = BeginAcquired_def BeginInProgress_def BeginCompleted_def

record BeginRequest =
  begin_Key :: string
  begin_Token :: string
  begin_Fingerprint :: string
  begin_TTL :: int

record BeginResult =
  Status :: BeginStatus
  Result :: bytes

record CompleteRequest =
  complete_Key :: string
  complete_Token :: string
  complete_Result :: bytes
  complete_TTL :: int

record AbortRequest =
  abort_Key :: string
  abort_Token :: string

record 'w Store =
  Store_Begin :: "'w wctx \<Rightarrow> BeginRequest \<Rightarrow> 'w \<Rightarrow> (go_error + BeginResult) \<times> 'w"
  Store_Complete :: "'w wctx \<Rightarrow> CompleteRequest \<Rightarrow> 'w \<Rightarrow> go_error option \<times> 'w"
  Store_Abort :: "'w wctx \<Rightarrow> AbortRequest \<Rightarrow> 'w \<Rightarrow> go_error option \<times> 'w"

section \<open>The executor\<close>

record ('w, 'v) Executor =
  store :: "'w Store"
  exec_config :: "'v config"

definition New :: "'v codec \<Rightarrow> 'w Store option \<Rightarrow> 'v Option option list \<Rightarrow> ('w, 'v) Executor outcome" where
  "New codecjson st options =
     (case st of None \<Rightarrow> Panic
      | Some st \<Rightarrow> Return \<lparr>store = st, exec_config = newConfig codecjson options\<rparr>)"

definition newToken :: "'w exec_env \<Rightarrow> 'w \<Rightarrow> (go_error + string) \<times> 'w" where
  "newToken env w =
     (case rand_Read env w of
        (Inl err, w') \<Rightarrow> (Inl (Wrapped ''idempotency: generate token'' err), w')
      | (Inr bs, w') \<Rightarrow> (Inr (hex_EncodeToString bs), w'))"

definition validateExecution :: "'w wctx \<Rightarrow> string \<Rightarrow> go_error option" where
  "validateExecution ctx key =
     (if ctx = None then Some ErrInvalidContext
      else if key = [] then Some ErrInvalidKey
      else None)"

text \<open>A context that is detached from \<open>ctx\<close> and ends with the timeout only. Making it and the check of the store are one
  step, in which the clock of the world does not move: an end during the step is not modelled.\<close>

definition finalizationContext :: "'w exec_env \<Rightarrow> ('w, 'v) Executor \<Rightarrow> 'w \<Rightarrow> 'w wctx" where
  "finalizationContext env e w =
     Some (\<lambda>w'. if env_now env w' \<ge> env_now env w + finalizationTimeout (exec_config e)
                 then Some DeadlineExceeded else None)"

record claim =
  claim_key :: string
  claim_token :: string
  claim_resultTTL :: int

definition complete :: "'w exec_env \<Rightarrow> ('w, 'v) Executor \<Rightarrow> claim \<Rightarrow> bytes \<Rightarrow> 'w \<Rightarrow> go_error option \<times> 'w" where
  "complete env e c result w =
     Store_Complete (store e) (finalizationContext env e w)
       \<lparr>complete_Key = claim_key c, complete_Token = claim_token c,
        complete_Result = result, complete_TTL = claim_resultTTL c\<rparr> w"

definition abort :: "'w exec_env \<Rightarrow> ('w, 'v) Executor \<Rightarrow> claim \<Rightarrow> 'w \<Rightarrow> go_error option \<times> 'w" where
  "abort env e c w =
     Store_Abort (store e) (finalizationContext env e w)
       \<lparr>abort_Key = claim_key c, abort_Token = claim_token c\<rparr> w"

datatype beginResult = Claimed claim | Replayed bytes

definition begin_claim :: "'w exec_env \<Rightarrow> ('w, 'v) Executor \<Rightarrow> ('w \<Rightarrow> go_error option) \<Rightarrow> string
    \<Rightarrow> ExecuteOption option list \<Rightarrow> 'w \<Rightarrow> (go_error + beginResult) \<times> 'w" where
  "begin_claim env e cause key options w =
     (case cause w of Some err \<Rightarrow> (Inl err, w) | None \<Rightarrow>
      let execution = newExecuteConfig (exec_config e) options in
      (case newToken env w of (Inl err, w1) \<Rightarrow> (Inl err, w1) | (Inr token, w1) \<Rightarrow>
       let currentClaim = \<lparr>claim_key = key, claim_token = token, claim_resultTTL = exec_resultTTL execution\<rparr> in
       (case Store_Begin (store e) (Some cause)
               \<lparr>begin_Key = key, begin_Token = token, begin_Fingerprint = exec_fingerprint execution,
                begin_TTL = exec_executionTTL execution\<rparr> w1 of
          (Inl err, w2) \<Rightarrow> (Inl err, w2)
        | (Inr result, w2) \<Rightarrow>
            (case cause w2 of
               Some err \<Rightarrow>
                 if Status result = BeginAcquired then
                   (case abort env e currentClaim w2 of
                      (aerr, w3) \<Rightarrow> (Inl (the (errors_Join [Some err, aerr])), w3))
                 else (Inl err, w2)
             | None \<Rightarrow>
                 if Status result = BeginAcquired then (Inr (Claimed currentClaim), w2)
                 else if Status result = BeginInProgress then (Inl ErrInProgress, w2)
                 else if Status result = BeginCompleted then (Inr (Replayed (Result result)), w2)
                 else (Inl (Sentinel ''idempotency: invalid begin status''), w2)))))"

text \<open>A handler may panic; the panic is not recovered and the world keeps what it did.\<close>

definition Do :: "'w exec_env \<Rightarrow> ('w, 'v) Executor \<Rightarrow> 'w wctx \<Rightarrow> string
    \<Rightarrow> ('w \<Rightarrow> go_error option outcome \<times> 'w) option \<Rightarrow> ExecuteOption option list \<Rightarrow> 'w
    \<Rightarrow> go_error option outcome \<times> 'w" where
  "Do env e ctx key handler options w =
     (case validateExecution ctx key of Some err \<Rightarrow> (Return (Some err), w) | None \<Rightarrow>
      (case handler of None \<Rightarrow> (Panic, w) | Some h \<Rightarrow>
       (case begin_claim env e (the ctx) key options w of
          (Inl err, w1) \<Rightarrow> (Return (Some err), w1)
        | (Inr (Replayed _), w1) \<Rightarrow> (Return None, w1)
        | (Inr (Claimed c), w1) \<Rightarrow>
            (case h w1 of
               (Panic, w2) \<Rightarrow> (Panic, w2)
             | (Return (Some err), w2) \<Rightarrow>
                 (case abort env e c w2 of
                    (aerr, w3) \<Rightarrow> (Return (errors_Join [Some err, aerr]), w3))
             | (Return None, w2) \<Rightarrow>
                 (case complete env e c [] w2 of (cerr, w3) \<Rightarrow> (Return cerr, w3))))))"

text \<open>The value and whether it was replayed. \<open>decodeValue\<close> unmarshals into a new value, also for
  pointer types, which it allocates by reflection, so that both branches are one here. For other types the source
  returns the variable and the result of the call that fills it in one statement, whose order the language leaves
  open; the definition takes the order in which the call comes first.\<close>

record 'v Result =
  Value :: 'v
  WasReplayed :: bool

definition decodeValue :: "'v codec \<Rightarrow> bytes \<Rightarrow> go_error + 'v" where
  "decodeValue valueCodec data = Unmarshal valueCodec data"

definition DoValue :: "'v \<Rightarrow> 'w exec_env \<Rightarrow> 'w wctx \<Rightarrow> ('w, 'v) Executor option \<Rightarrow> string
    \<Rightarrow> ('w \<Rightarrow> ('v \<times> go_error option) outcome \<times> 'w) option \<Rightarrow> ExecuteOption option list \<Rightarrow> 'w
    \<Rightarrow> ('v Result \<times> go_error option) outcome \<times> 'w" where
  "DoValue zero env ctx executor key handler options w =
     (case executor of None \<Rightarrow> (Panic, w) | Some e \<Rightarrow>
      (case validateExecution ctx key of
         Some err \<Rightarrow> (Return (\<lparr>Value = zero, WasReplayed = False\<rparr>, Some err), w)
       | None \<Rightarrow>
      (case handler of None \<Rightarrow> (Panic, w) | Some h \<Rightarrow>
       (case begin_claim env e (the ctx) key options w of
          (Inl err, w1) \<Rightarrow> (Return (\<lparr>Value = zero, WasReplayed = False\<rparr>, Some err), w1)
        | (Inr (Replayed data), w1) \<Rightarrow>
            (case decodeValue (config_codec (exec_config e)) data of
               Inl err \<Rightarrow> (Return (\<lparr>Value = zero, WasReplayed = True\<rparr>,
                            Some (Wrapped ''idempotency: decode result'' err)), w1)
             | Inr v \<Rightarrow> (Return (\<lparr>Value = v, WasReplayed = True\<rparr>, None), w1))
        | (Inr (Claimed c), w1) \<Rightarrow>
            (case h w1 of
               (Panic, w2) \<Rightarrow> (Panic, w2)
             | (Return (v, Some err), w2) \<Rightarrow>
                 (case abort env e c w2 of
                    (aerr, w3) \<Rightarrow> (Return (\<lparr>Value = v, WasReplayed = False\<rparr>, errors_Join [Some err, aerr]), w3))
             | (Return (v, None), w2) \<Rightarrow>
                 (case Marshal (config_codec (exec_config e)) v of
                    Inl err \<Rightarrow> (Return (\<lparr>Value = v, WasReplayed = False\<rparr>,
                                 Some (Wrapped ''idempotency: encode result'' err)), w2)
                  | Inr encoded \<Rightarrow>
                      (case complete env e c encoded w2 of
                         (cerr, w3) \<Rightarrow> (Return (\<lparr>Value = v, WasReplayed = False\<rparr>, cerr), w3))))))))"

section \<open>Laws of the configuration\<close>

definition config_ok :: "'v config \<Rightarrow> bool" where
  "config_ok c \<longleftrightarrow> 0 < executionTTL c \<and> 0 < resultTTL c \<and> 0 < finalizationTimeout c"

lemma config_ok_newConfig: "config_ok (newConfig codecjson options)"
proof -
  have "config_ok (fold (\<lambda>opt c. case opt of Some x \<Rightarrow> apply_option x c | None \<Rightarrow> c) options c)"
    if "config_ok c" for c :: "'a config"
    using that
  proof (induction options arbitrary: c)
    case (Cons opt options)
    have "config_ok (apply_option x c)" for x
      using Cons.prems by (cases x) (auto simp: config_ok_def split: option.splits)
    with Cons show ?case by (cases opt) auto
  qed simp
  then show ?thesis
    by (simp add: newConfig_def config_ok_def defaultExecutionTTL_def defaultResultTTL_def
        defaultFinalizationTimeout_def)
qed

lemma newExecuteConfig_ok:
  assumes "config_ok c"
  shows "0 < exec_executionTTL (newExecuteConfig c options)" "0 < exec_resultTTL (newExecuteConfig c options)"
proof -
  have "0 < exec_executionTTL e' \<and> 0 < exec_resultTTL e'"
    if "0 < exec_executionTTL e" "0 < exec_resultTTL e"
      "e' = fold (\<lambda>opt e. case opt of Some x \<Rightarrow> applyExecute x e | None \<Rightarrow> e) options e" for e e'
    using that
  proof (induction options arbitrary: e)
    case (Cons opt options)
    have "0 < exec_executionTTL (applyExecute x e) \<and> 0 < exec_resultTTL (applyExecute x e)" for x
      using Cons.prems by (cases x) auto
    with Cons show ?case by (cases opt) auto
  qed simp
  with assms show "0 < exec_executionTTL (newExecuteConfig c options)"
    "0 < exec_resultTTL (newExecuteConfig c options)"
    by (fastforce simp: newExecuteConfig_def config_ok_def)+
qed

section \<open>Contract of the Store interface\<close>

definition fingerprint_for :: "'v config \<Rightarrow> ExecuteOption option list \<Rightarrow> string" where
  "fingerprint_for c options = exec_fingerprint (newExecuteConfig c options)"

text \<open>The state of a key as the interface shows it: expired records are absent.\<close>

datatype key_state =
    Running (key_token: string) (key_fingerprint: string)
  | Done (key_fingerprint: string) (key_data: bytes)

fun shown :: "key_state \<Rightarrow> BeginResult" where
  "shown (Running tok fp) = \<lparr>Status = BeginInProgress, Result = []\<rparr>"
| "shown (Done fp data) = \<lparr>Status = BeginCompleted, Result = data\<rparr>"

fun owned_by :: "string \<Rightarrow> key_state option \<Rightarrow> bool" where
  "owned_by tok (Some (Running t fp)) = (t = tok)"
| "owned_by tok _ = False"

locale idempotency_store =
  fixes ops :: "'w Store"
    and now :: "'w \<Rightarrow> int"
    and view :: "'w \<Rightarrow> string \<Rightarrow> key_state option"
    and invar :: "'w \<Rightarrow> bool"
  assumes begin_free: "invar w \<Longrightarrow> cause w = None \<Longrightarrow> 0 < ttl \<Longrightarrow> view w key = None \<Longrightarrow>
      \<exists>w'. Store_Begin ops (Some cause) \<lparr>begin_Key = key, begin_Token = tok, begin_Fingerprint = fp, begin_TTL = ttl\<rparr> w =
             (Inr \<lparr>Status = BeginAcquired, Result = []\<rparr>, w') \<and>
           invar w' \<and> now w' = now w \<and> view w' = (view w)(key := Some (Running tok fp))"
    and begin_taken: "invar w \<Longrightarrow> cause w = None \<Longrightarrow> 0 < ttl \<Longrightarrow> view w key = Some st \<Longrightarrow>
      \<exists>w'. Store_Begin ops (Some cause) \<lparr>begin_Key = key, begin_Token = tok, begin_Fingerprint = fp, begin_TTL = ttl\<rparr> w =
             (if fp \<noteq> [] \<and> fp \<noteq> key_fingerprint st then Inl ErrKeyConflict else Inr (shown st), w') \<and>
           invar w' \<and> now w' = now w \<and> view w' = view w"
    and begin_canceled: "cause w = Some err \<Longrightarrow> Store_Begin ops (Some cause) req w = (Inl err, w)"
    and complete_law: "invar w \<Longrightarrow> cause w = None \<Longrightarrow> 0 < ttl \<Longrightarrow>
      \<exists>w'. Store_Complete ops (Some cause) \<lparr>complete_Key = key, complete_Token = tok, complete_Result = data, complete_TTL = ttl\<rparr> w =
             (if owned_by tok (view w key) then None else Some ErrClaimLost, w') \<and>
           invar w' \<and> now w' = now w \<and>
           view w' = (if owned_by tok (view w key)
                      then (view w)(key := Some (Done (key_fingerprint (the (view w key))) data)) else view w)"
    and abort_law: "invar w \<Longrightarrow> cause w = None \<Longrightarrow>
      \<exists>w'. Store_Abort ops (Some cause) \<lparr>abort_Key = key, abort_Token = tok\<rparr> w =
             (if owned_by tok (view w key) then None else Some ErrClaimLost, w') \<and>
           invar w' \<and> now w' = now w \<and>
           view w' = (if owned_by tok (view w key) then (view w)(key := None) else view w)"

text \<open>An executor reads the store's clock, and making a token does not touch the store.\<close>

locale idempotency_executor = idempotency_store ops now view invar
  for ops :: "'w Store" and now view invar +
  fixes env :: "'w exec_env" and e :: "('w, 'v) Executor"
  assumes clock: "env_now env = now"
    and rand: "rand_Read env w = (r, w') \<Longrightarrow> invar w \<Longrightarrow> invar w' \<and> now w' = now w \<and> view w' = view w"
    and executor: "store e = ops" "config_ok (exec_config e)"
begin

lemma newToken_frame:
  "newToken env w = (r, w') \<Longrightarrow> invar w \<Longrightarrow> invar w' \<and> now w' = now w \<and> view w' = view w"
  using rand by (auto simp: newToken_def split: prod.splits sum.splits)

lemma abort_owned:
  assumes "invar w"
  shows "\<exists>w'. abort env e c w = (if owned_by (claim_token c) (view w (claim_key c)) then None else Some ErrClaimLost, w') \<and>
     invar w' \<and> now w' = now w \<and>
     view w' = (if owned_by (claim_token c) (view w (claim_key c)) then (view w)(claim_key c := None) else view w)"
  using abort_law [OF assms, of "the (finalizationContext env e w)"] executor
  by (simp add: abort_def finalizationContext_def config_ok_def)

lemma complete_owned:
  assumes "invar w" "0 < claim_resultTTL c"
  shows "\<exists>w'. complete env e c data w = (if owned_by (claim_token c) (view w (claim_key c)) then None else Some ErrClaimLost, w') \<and>
     invar w' \<and> now w' = now w \<and>
     view w' = (if owned_by (claim_token c) (view w (claim_key c))
       then (view w)(claim_key c := Some (Done (key_fingerprint (the (view w (claim_key c)))) data)) else view w)"
  using complete_law [OF assms(1), of "the (finalizationContext env e w)"] assms(2) executor
  by (simp add: complete_def finalizationContext_def config_ok_def)

text \<open>A claim is taken exactly when \<open>begin\<close> says so: every error leaves no claim behind, also
  when the context is cancelled right after the claim was made.\<close>

lemma begin_claim_correct:
  assumes inv: "invar w" and res: "begin_claim env e cause key options w = (r, w')"
  shows "invar w'"
    and "r = Inl err \<Longrightarrow> view w' = view w"
    and "r = Inr (Replayed data) \<Longrightarrow> view w' = view w \<and> (\<exists>fp. view w key = Some (Done fp data))"
    and "r = Inr (Claimed c) \<Longrightarrow> view w key = None \<and> claim_key c = key \<and> 0 < claim_resultTTL c \<and>
           view w' = (view w)(key := Some (Running (claim_token c) (fingerprint_for (exec_config e) options)))"
proof -
  have "invar w' \<and> (case r of
      Inl err \<Rightarrow> view w' = view w
    | Inr (Replayed data) \<Rightarrow> view w' = view w \<and> (\<exists>fp. view w key = Some (Done fp data))
    | Inr (Claimed c) \<Rightarrow> view w key = None \<and> claim_key c = key \<and> 0 < claim_resultTTL c \<and>
        view w' = (view w)(key := Some (Running (claim_token c) (fingerprint_for (exec_config e) options))))"
  proof (cases "cause w")
    case (Some err)
    with res inv show ?thesis by (auto simp: begin_claim_def)
  next
    case None
    let ?ex = "newExecuteConfig (exec_config e) options"
    have ttl: "0 < exec_executionTTL ?ex" "0 < exec_resultTTL ?ex"
      using newExecuteConfig_ok executor(2) by blast+
    obtain t w1 where t: "newToken env w = (t, w1)" by fastforce
    note w1 = newToken_frame [OF t inv]
    show ?thesis
    proof (cases t)
      case (Inl err)
      with None res t w1 show ?thesis by (auto simp: begin_claim_def Let_def)
    next
      case (Inr tok)
      let ?c = "\<lparr>claim_key = key, claim_token = tok, claim_resultTTL = exec_resultTTL ?ex\<rparr>"
      let ?req = "\<lparr>begin_Key = key, begin_Token = tok, begin_Fingerprint = exec_fingerprint ?ex,
        begin_TTL = exec_executionTTL ?ex\<rparr>"
      obtain b w2 where b: "Store_Begin ops (Some cause) ?req w1 = (b, w2)" by fastforce
      have unf: "(r, w') = (case b of Inl err \<Rightarrow> (Inl err, w2) | Inr result \<Rightarrow>
          (case cause w2 of
             Some err \<Rightarrow> if Status result = BeginAcquired
               then (case abort env e ?c w2 of (aerr, w3) \<Rightarrow> (Inl (the (errors_Join [Some err, aerr])), w3))
               else (Inl err, w2)
           | None \<Rightarrow> if Status result = BeginAcquired then (Inr (Claimed ?c), w2)
               else if Status result = BeginInProgress then (Inl ErrInProgress, w2)
               else if Status result = BeginCompleted then (Inr (Replayed (Result result)), w2)
               else (Inl (Sentinel ''idempotency: invalid begin status''), w2)))"
        using res None t Inr b executor(1) by (simp add: begin_claim_def Let_def)
      show ?thesis
      proof (cases "cause w1")
        case (Some err)
        have "b = Inl err" "w2 = w1" using begin_canceled [of cause w1 err ?req, OF Some] b by simp_all
        with unf w1 show ?thesis by simp
      next
        case None
        note c1 = None
        show ?thesis
        proof (cases "view w1 key")
          case None
          then have f: "b = Inr \<lparr>Status = BeginAcquired, Result = []\<rparr>" "invar w2"
            "view w2 = (view w1)(key := Some (Running tok (exec_fingerprint ?ex)))"
            using begin_free [where w = w1 and cause = cause, OF _ c1 ttl(1) None, of tok "exec_fingerprint ?ex"] w1 b by fastforce+
          show ?thesis
          proof (cases "cause w2")
            case None
            with f unf w1 ttl \<open>view w1 key = None\<close> show ?thesis
              by (simp add: fingerprint_for_def)
          next
            case (Some err)
            with abort_owned [OF f(2), of ?c] f unf w1 \<open>view w1 key = None\<close> show ?thesis
              by (auto simp: fun_upd_idem)
          qed
        next
          case (Some st)
          then have f: "b = (if exec_fingerprint ?ex \<noteq> [] \<and> exec_fingerprint ?ex \<noteq> key_fingerprint st
                 then Inl ErrKeyConflict else Inr (shown st))" "invar w2" "view w2 = view w1"
            using begin_taken [where w = w1 and cause = cause, OF _ c1 ttl(1) Some, of tok "exec_fingerprint ?ex"] w1 b by fastforce+
          with Some unf w1 show ?thesis
            by (cases st; cases "cause w2") (auto simp: BeginStatus_defs split: if_splits)
        qed
      qed
    qed
  qed
  then show "invar w'"
    and "r = Inl err \<Longrightarrow> view w' = view w"
    and "r = Inr (Replayed data) \<Longrightarrow> view w' = view w \<and> (\<exists>fp. view w key = Some (Done fp data))"
    and "r = Inr (Claimed c) \<Longrightarrow> view w key = None \<and> claim_key c = key \<and> 0 < claim_resultTTL c \<and>
           view w' = (view w)(key := Some (Running (claim_token c) (fingerprint_for (exec_config e) options)))"
    by (auto split: sum.splits beginResult.splits)
qed

text \<open>With a live context and a token, the answer is determined by the state of the key.\<close>

lemma begin_claim_decides:
  assumes inv: "invar w" and tok: "newToken env w = (Inr tok, w1)"
  shows "\<exists>c w'. begin_claim env e (\<lambda>_. None) key options w =
     (case view w key of
        None \<Rightarrow> Inr (Claimed c)
      | Some st \<Rightarrow>
          if fingerprint_for (exec_config e) options \<noteq> [] \<and>
             fingerprint_for (exec_config e) options \<noteq> key_fingerprint st then Inl ErrKeyConflict
          else (case st of Running t fp \<Rightarrow> Inl ErrInProgress | Done fp data \<Rightarrow> Inr (Replayed data)), w') \<and>
     invar w' \<and> (view w key \<noteq> None \<longrightarrow> view w' = view w)"
proof -
  let ?ex = "newExecuteConfig (exec_config e) options"
  have ttl: "0 < exec_executionTTL ?ex" using newExecuteConfig_ok executor(2) by blast
  note w1 = newToken_frame [OF tok inv]
  show ?thesis
  proof (cases "view w key")
    case None
    obtain w2 where "invar w2" "Store_Begin ops (Some (\<lambda>_. None))
        \<lparr>begin_Key = key, begin_Token = tok, begin_Fingerprint = exec_fingerprint ?ex,
         begin_TTL = exec_executionTTL ?ex\<rparr> w1 = (Inr \<lparr>Status = BeginAcquired, Result = []\<rparr>, w2)"
      using begin_free [where w = w1 and cause = "\<lambda>_. None", OF _ refl ttl] w1 None by metis
    with None tok executor(1) show ?thesis by (simp add: begin_claim_def Let_def)
  next
    case (Some st)
    obtain w2 where "invar w2" "view w2 = view w1" "Store_Begin ops (Some (\<lambda>_. None))
        \<lparr>begin_Key = key, begin_Token = tok, begin_Fingerprint = exec_fingerprint ?ex,
         begin_TTL = exec_executionTTL ?ex\<rparr> w1 =
        (if exec_fingerprint ?ex \<noteq> [] \<and> exec_fingerprint ?ex \<noteq> key_fingerprint st
         then Inl ErrKeyConflict else Inr (shown st), w2)"
      using begin_taken [where w = w1 and cause = "\<lambda>_. None", OF _ refl ttl] w1 Some by metis
    with Some tok executor(1) w1 show ?thesis
      by (cases st) (auto simp: begin_claim_def Let_def BeginStatus_defs fingerprint_for_def)
  qed
qed

text \<open>The three ways a call can go: refused, replayed, or run under a claim.\<close>

lemma Do_outcomes:
  assumes inv: "invar w" and key: "key \<noteq> []"
    and h: "\<And>w r w'. invar w \<Longrightarrow> h w = (r, w') \<Longrightarrow> invar w'"
    and res: "Do env e (Some cause) key (Some h) options w = (r, w')"
  shows "invar w' \<and>
    ((\<forall>h'. Do env e (Some cause) key (Some h') options w = (r, w')) \<and> view w' = view w \<and>
       ((\<exists>err. r = Return (Some err)) \<or> r = Return None \<and> (\<exists>fp data. view w key = Some (Done fp data))) \<or>
     (\<exists>tok w1 hr w2. view w key = None \<and>
        view w1 = (view w)(key := Some (Running tok (fingerprint_for (exec_config e) options))) \<and>
        h w1 = (hr, w2) \<and>
        (case hr of
           Panic \<Rightarrow> r = Panic \<and> w' = w2
         | Return (Some err) \<Rightarrow>
             if owned_by tok (view w2 key)
             then r = Return (Some (Joined [err])) \<and> view w' = (view w2)(key := None)
             else r = Return (Some (Joined [err, ErrClaimLost])) \<and> view w' = view w2
         | Return None \<Rightarrow>
             if owned_by tok (view w2 key)
             then r = Return None \<and> view w' = (view w2)(key := Some (Done (key_fingerprint (the (view w2 key))) []))
             else r = Return (Some ErrClaimLost) \<and> view w' = view w2)))"
proof -
  obtain b w1 where b: "begin_claim env e cause key options w = (b, w1)" by fastforce
  note bc = begin_claim_correct [OF inv b]
  have val: "validateExecution (Some cause) key = None" using key by (simp add: validateExecution_def)
  consider (err) err where "b = Inl err" | (rep) data where "b = Inr (Replayed data)" | (run) c where "b = Inr (Claimed c)"
    by (cases b) (auto elim: beginResult.exhaust)
  then show ?thesis
  proof cases
    case err
    with b val res bc(1,2) show ?thesis by (auto simp: Do_def)
  next
    case rep
    with b val res bc(1,3) show ?thesis by (auto simp: Do_def)
  next
    case run
    obtain hr w2 where hr: "h w1 = (hr, w2)" by fastforce
    note w2 = h [OF bc(1) hr]
    note c = bc(4) [OF run]
    have "invar w' \<and> (case hr of
           Panic \<Rightarrow> r = Panic \<and> w' = w2
         | Return (Some err) \<Rightarrow>
             if owned_by (claim_token c) (view w2 key)
             then r = Return (Some (Joined [err])) \<and> view w' = (view w2)(key := None)
             else r = Return (Some (Joined [err, ErrClaimLost])) \<and> view w' = view w2
         | Return None \<Rightarrow>
             if owned_by (claim_token c) (view w2 key)
             then r = Return None \<and> view w' = (view w2)(key := Some (Done (key_fingerprint (the (view w2 key))) []))
             else r = Return (Some ErrClaimLost) \<and> view w' = view w2)"
      using b val res run hr w2 abort_owned [OF w2, of c] complete_owned [OF w2, of c "[]"] c
      by (auto simp: Do_def errors_Join_def List.map_filter_simps
          split: outcome.splits option.splits)
    with c hr show ?thesis by blast
  qed
qed

text \<open>A value that \<open>DoValue\<close> returned without an error is what the store keeps for the key, and
  what every later call returns while the record lives, without running its handler.\<close>

lemma DoValue_stores:
  assumes inv: "invar w" and key: "key \<noteq> []"
    and h: "\<And>w r w'. invar w \<Longrightarrow> h w = (r, w') \<Longrightarrow> invar w'"
    and res: "DoValue zero env (Some cause) (Some e) key (Some h) options w =
      (Return (\<lparr>Value = v, WasReplayed = rep\<rparr>, None), w')"
  shows "invar w' \<and> (\<exists>fp data. view w' key = Some (Done fp data) \<and>
    (if rep then Unmarshal (config_codec (exec_config e)) data = Inr v
     else Marshal (config_codec (exec_config e)) v = Inr data))"
proof -
  obtain b w1 where b: "begin_claim env e cause key options w = (b, w1)" by fastforce
  note bc = begin_claim_correct [OF inv b]
  have val: "validateExecution (Some cause) key = None" using key by (simp add: validateExecution_def)
  have unf: "DoValue zero env (Some cause) (Some e) key (Some h) options w =
     (case b of
        Inl err \<Rightarrow> (Return (\<lparr>Value = zero, WasReplayed = False\<rparr>, Some err), w1)
      | Inr (Replayed data) \<Rightarrow>
          (case decodeValue (config_codec (exec_config e)) data of
             Inl err \<Rightarrow> (Return (\<lparr>Value = zero, WasReplayed = True\<rparr>,
                            Some (Wrapped ''idempotency: decode result'' err)), w1)
           | Inr v \<Rightarrow> (Return (\<lparr>Value = v, WasReplayed = True\<rparr>, None), w1))
      | Inr (Claimed c) \<Rightarrow>
          (case h w1 of
             (Panic, w2) \<Rightarrow> (Panic, w2)
           | (Return (v, Some err), w2) \<Rightarrow>
               (case abort env e c w2 of
                  (aerr, w3) \<Rightarrow> (Return (\<lparr>Value = v, WasReplayed = False\<rparr>, errors_Join [Some err, aerr]), w3))
           | (Return (v, None), w2) \<Rightarrow>
               (case Marshal (config_codec (exec_config e)) v of
                  Inl err \<Rightarrow> (Return (\<lparr>Value = v, WasReplayed = False\<rparr>,
                               Some (Wrapped ''idempotency: encode result'' err)), w2)
                | Inr encoded \<Rightarrow>
                    (case complete env e c encoded w2 of
                       (cerr, w3) \<Rightarrow> (Return (\<lparr>Value = v, WasReplayed = False\<rparr>, cerr), w3)))))"
    using b val by (simp add: DoValue_def)
  consider (err) err where "b = Inl err" | (rep) data where "b = Inr (Replayed data)" | (run) c where "b = Inr (Claimed c)"
    by (cases b) (auto elim: beginResult.exhaust)
  then show ?thesis
  proof cases
    case err
    with res unf show ?thesis by simp
  next
    case rep
    with res unf bc(1,3) show ?thesis by (auto simp: decodeValue_def split: sum.splits)
  next
    case run
    obtain hr w2 where hr: "h w1 = (hr, w2)" by fastforce
    note w2 = h [OF bc(1) hr]
    note c = bc(4) [OF run]
    from res unf run hr consider
      (fail) err aerr where "hr = Return (v, Some err)" "abort env e c w2 = (aerr, w')"
          "errors_Join [Some err, aerr] = None"
      | (ok) enc where "hr = Return (v, None)" "Marshal (config_codec (exec_config e)) v = Inr enc"
          "complete env e c enc w2 = (None, w')" "rep = False"
      by (auto split: outcome.splits sum.splits prod.splits option.splits)
    then show ?thesis
    proof cases
      case fail
      then show ?thesis by (auto simp: errors_Join_def List.map_filter_simps split: option.splits)
    next
      case ok
      with complete_owned [OF w2, of c enc] c show ?thesis by (auto split: if_splits)
    qed
  qed
qed

lemma DoValue_replays:
  assumes "invar w" "key \<noteq> []" "newToken env w = (Inr tok, w1)" "view w key = Some (Done fp data)"
    and "fingerprint_for (exec_config e) options \<in> {[], fp}"
    and "Unmarshal (config_codec (exec_config e)) data = Inr v"
  shows "\<exists>w'. invar w' \<and> view w' = view w \<and>
    (\<forall>h. DoValue zero env (Some (\<lambda>_. None)) (Some e) key (Some h) options w =
      (Return (\<lparr>Value = v, WasReplayed = True\<rparr>, None), w'))"
proof -
  obtain w' where "begin_claim env e (\<lambda>_. None) key options w = (Inr (Replayed data), w')" "invar w'" "view w' = view w"
    using begin_claim_decides [OF assms(1,3), of key options] assms(4,5) by (auto split: if_splits)
  with assms(2,6) show ?thesis
    by (intro exI [of _ w']) (simp add: DoValue_def validateExecution_def decodeValue_def)
qed

end

end
