(* ===== verification/Idempotency_Memory.thy ===== *)
theory Idempotency_Memory
  imports Idempotency "HOL-Library.AList"
begin

text \<open>
  Package \<open>idempotency/memory\<close> (\<open>src/idempotency/memory/store.go\<close>): the in-process store. The Go
  map is an association list, whose order stands for the arbitrary order of iteration; instants
  are integers, zero being Go's zero time; the mutex makes every operation one step. The store
  interprets the contract of the interface, and the guarantees of the executor over it follow.
\<close>

section \<open>The code\<close>

record mrecord =
  m_status :: BeginStatus
  m_token :: string
  m_fingerprint :: string
  m_data :: bytes
  m_expiresAt :: int

record mstore =
  records :: "(string \<times> mrecord) list"
  nextCleanup :: int

text \<open>The store reads the clock of the world it lives in; \<open>w_rest\<close> is everything else.\<close>

record 'x mem_world =
  w_clock :: int
  w_store :: mstore
  w_rest :: 'x

definition New :: mstore where
  "New = \<lparr>records = [], nextCleanup = 0\<rparr>"

definition scheduleCleanup :: "int \<Rightarrow> mstore \<Rightarrow> mstore" where
  "scheduleCleanup expiresAt s =
     (if nextCleanup s = 0 \<or> expiresAt < nextCleanup s then s\<lparr>nextCleanup := expiresAt\<rparr> else s)"

fun cleanup_loop :: "int \<Rightarrow> (string \<times> mrecord) list \<Rightarrow> mstore \<Rightarrow> mstore" where
  "cleanup_loop now [] s = s"
| "cleanup_loop now ((key, current) # entries) s =
     (if \<not> now < m_expiresAt current
      then cleanup_loop now entries (s\<lparr>records := AList.delete key (records s)\<rparr>)
      else cleanup_loop now entries (scheduleCleanup (m_expiresAt current) s))"

definition cleanup :: "int \<Rightarrow> mstore \<Rightarrow> mstore" where
  "cleanup now s =
     (if nextCleanup s = 0 \<or> now < nextCleanup s then s
      else cleanup_loop now (records s) (s\<lparr>nextCleanup := 0\<rparr>))"

definition clone :: "bytes \<Rightarrow> bytes" where
  "clone data = [] @ data"

definition validateContext :: "'w wctx \<Rightarrow> 'w \<Rightarrow> go_error option" where
  "validateContext ctx w =
     (case ctx of None \<Rightarrow> Some ErrInvalidContext | Some cause \<Rightarrow> cause w)"

definition Begin :: "'x mem_world wctx \<Rightarrow> BeginRequest \<Rightarrow> 'x mem_world \<Rightarrow> (go_error + BeginResult) \<times> 'x mem_world" where
  "Begin ctx request w =
     (case validateContext ctx w of Some err \<Rightarrow> (Inl err, w) | None \<Rightarrow>
      let now = w_clock w;
          s = cleanup now (w_store w)
      in (case map_of (records s) (begin_Key request) of
            None \<Rightarrow>
              let current = \<lparr>m_status = BeginInProgress, m_token = begin_Token request,
                             m_fingerprint = begin_Fingerprint request, m_data = [],
                             m_expiresAt = now + begin_TTL request\<rparr>;
                  s = s\<lparr>records := AList.update (begin_Key request) current (records s)\<rparr>;
                  s = scheduleCleanup (m_expiresAt current) s
              in (Inr \<lparr>Status = BeginAcquired, Result = []\<rparr>, w\<lparr>w_store := s\<rparr>)
          | Some current \<Rightarrow>
              if begin_Fingerprint request \<noteq> [] \<and> begin_Fingerprint request \<noteq> m_fingerprint current
              then (Inl ErrKeyConflict, w\<lparr>w_store := s\<rparr>)
              else (Inr \<lparr>Status = m_status current, Result = clone (m_data current)\<rparr>, w\<lparr>w_store := s\<rparr>)))"

definition Complete :: "'x mem_world wctx \<Rightarrow> CompleteRequest \<Rightarrow> 'x mem_world \<Rightarrow> go_error option \<times> 'x mem_world" where
  "Complete ctx request w =
     (case validateContext ctx w of Some err \<Rightarrow> (Some err, w) | None \<Rightarrow>
      let now = w_clock w;
          s = cleanup now (w_store w)
      in (case map_of (records s) (complete_Key request) of
            None \<Rightarrow> (Some ErrClaimLost, w\<lparr>w_store := s\<rparr>)
          | Some current \<Rightarrow>
              if m_status current \<noteq> BeginInProgress \<or> m_token current \<noteq> complete_Token request
              then (Some ErrClaimLost, w\<lparr>w_store := s\<rparr>)
              else
                let current = current\<lparr>m_status := BeginCompleted, m_token := [],
                                      m_data := clone (complete_Result request),
                                      m_expiresAt := now + complete_TTL request\<rparr>;
                    s = s\<lparr>records := AList.update (complete_Key request) current (records s)\<rparr>;
                    s = scheduleCleanup (m_expiresAt current) s
                in (None, w\<lparr>w_store := s\<rparr>)))"

definition Abort :: "'x mem_world wctx \<Rightarrow> AbortRequest \<Rightarrow> 'x mem_world \<Rightarrow> go_error option \<times> 'x mem_world" where
  "Abort ctx request w =
     (case validateContext ctx w of Some err \<Rightarrow> (Some err, w) | None \<Rightarrow>
      let s = cleanup (w_clock w) (w_store w)
      in (case map_of (records s) (abort_Key request) of
            None \<Rightarrow> (Some ErrClaimLost, w\<lparr>w_store := s\<rparr>)
          | Some current \<Rightarrow>
              if m_status current \<noteq> BeginInProgress \<or> m_token current \<noteq> abort_Token request
              then (Some ErrClaimLost, w\<lparr>w_store := s\<rparr>)
              else (None, w\<lparr>w_store := s\<lparr>records := AList.delete (abort_Key request) (records s)\<rparr>\<rparr>)))"

definition memory_store :: "'x mem_world Store" where
  "memory_store = \<lparr>Store_Begin = Begin, Store_Complete = Complete, Store_Abort = Abort\<rparr>"

section \<open>Invariant and view\<close>

text \<open>No record expires before the next cleanup is due, and a claim has no data yet.\<close>

definition store_ok :: "mstore \<Rightarrow> bool" where
  "store_ok s \<longleftrightarrow> distinct (map fst (records s)) \<and> 0 \<le> nextCleanup s \<and>
     (\<forall>k r. map_of (records s) k = Some r \<longrightarrow>
        0 < nextCleanup s \<and> nextCleanup s \<le> m_expiresAt r \<and>
        (m_status r = BeginInProgress \<and> m_data r = [] \<or> m_status r = BeginCompleted))"

definition mem_invar :: "'x mem_world \<Rightarrow> bool" where
  "mem_invar w \<longleftrightarrow> 0 < w_clock w \<and> store_ok (w_store w)"

definition state_of :: "mrecord \<Rightarrow> key_state" where
  "state_of r = (if m_status r = BeginInProgress then Running (m_token r) (m_fingerprint r)
                 else Done (m_fingerprint r) (m_data r))"

definition live :: "int \<Rightarrow> mstore \<Rightarrow> string \<Rightarrow> mrecord option" where
  "live now s k = (case map_of (records s) k of
     Some r \<Rightarrow> if now < m_expiresAt r then Some r else None | None \<Rightarrow> None)"

definition mem_view :: "'x mem_world \<Rightarrow> string \<Rightarrow> key_state option" where
  "mem_view w k = map_option state_of (live (w_clock w) (w_store w) k)"

section \<open>Cleanup\<close>

lemma cleanup_loop_records:
  assumes "distinct (map fst es)"
  shows "map_of (records (cleanup_loop now es s)) k =
     (case map_of es k of
        Some r \<Rightarrow> if now < m_expiresAt r then map_of (records s) k else None
      | None \<Rightarrow> map_of (records s) k)"
  using assms
proof (induction now es s rule: cleanup_loop.induct)
  case (2 now key current es s)
  have "map_of es key = None" using "2.prems" by (simp add: map_of_eq_None_iff)
  with 2 show ?case
    by (cases "k = key") (auto simp: delete_conv' scheduleCleanup_def split: option.splits)
qed simp

lemma cleanup_loop_distinct:
  "distinct (map fst (records s)) \<Longrightarrow> distinct (map fst (records (cleanup_loop now es s)))"
  by (induction now es s rule: cleanup_loop.induct) (auto simp: distinct_delete scheduleCleanup_def)

lemma cleanup_loop_next:
  assumes "\<forall>(k, r) \<in> set es. 0 < m_expiresAt r" "0 \<le> nextCleanup s"
  shows "0 \<le> nextCleanup (cleanup_loop now es s) \<and>
    (0 < nextCleanup s \<longrightarrow> 0 < nextCleanup (cleanup_loop now es s) \<and>
       nextCleanup (cleanup_loop now es s) \<le> nextCleanup s) \<and>
    (\<forall>(k, r) \<in> set es. now < m_expiresAt r \<longrightarrow>
       0 < nextCleanup (cleanup_loop now es s) \<and> nextCleanup (cleanup_loop now es s) \<le> m_expiresAt r)"
  using assms
proof (induction now es s rule: cleanup_loop.induct)
  case (2 now key current es s)
  show ?case
  proof (cases "now < m_expiresAt current")
    case True
    let ?s = "scheduleCleanup (m_expiresAt current) s"
    have "0 < nextCleanup ?s" "nextCleanup ?s \<le> m_expiresAt current"
      "0 < nextCleanup s \<Longrightarrow> nextCleanup ?s \<le> nextCleanup s"
      using "2.prems" by (auto simp: scheduleCleanup_def)
    moreover note "2.IH"(2) [of]
    ultimately show ?thesis using 2 True by (auto; fastforce)
  next
    case False
    then show ?thesis using 2 by auto
  qed
qed simp

lemma cleanup_live:
  assumes "store_ok s"
  shows "store_ok (cleanup now s)" and "map_of (records (cleanup now s)) = live now s"
proof -
  show eq: "map_of (records (cleanup now s)) = live now s"
  proof
    fix k
    show "map_of (records (cleanup now s)) k = live now s k"
    proof (cases "nextCleanup s = 0 \<or> now < nextCleanup s")
      case True
      then show ?thesis using assms by (force simp: cleanup_def live_def store_ok_def split: option.splits)
    next
      case False
      then show ?thesis using assms
        by (simp add: cleanup_def live_def store_ok_def cleanup_loop_records split: option.splits)
    qed
  qed
  show "store_ok (cleanup now s)"
  proof (cases "nextCleanup s = 0 \<or> now < nextCleanup s")
    case True
    then show ?thesis using assms by (simp add: cleanup_def)
  next
    case False
    let ?s' = "cleanup_loop now (records s) (s\<lparr>nextCleanup := 0\<rparr>)"
    have pos: "\<forall>(k, r) \<in> set (records s). 0 < m_expiresAt r"
      using assms by (force simp: store_ok_def)
    note nx = cleanup_loop_next [OF pos, of "s\<lparr>nextCleanup := 0\<rparr>" now]
    have s': "cleanup now s = ?s'" using False by (simp add: cleanup_def)
    have "0 < nextCleanup ?s' \<and> nextCleanup ?s' \<le> m_expiresAt r \<and>
        (m_status r = BeginInProgress \<and> m_data r = [] \<or> m_status r = BeginCompleted)"
      if "map_of (records ?s') k = Some r" for k r
    proof -
      have r: "map_of (records s) k = Some r" "now < m_expiresAt r"
        using that eq s' by (auto simp: live_def split: option.splits if_splits dest: fun_cong [of _ _ k])
      then have "(k, r) \<in> set (records s)" by (simp add: map_of_SomeD)
      with nx r(2) have "0 < nextCleanup ?s' \<and> nextCleanup ?s' \<le> m_expiresAt r" by fastforce
      with r(1) assms show ?thesis by (simp add: store_ok_def)
    qed
    with assms s' nx show ?thesis by (simp add: store_ok_def cleanup_loop_distinct)
  qed
qed

lemma put_record:
  fixes k :: string
  assumes "store_ok s" "0 < m_expiresAt r"
    and "m_status r = BeginInProgress \<and> m_data r = [] \<or> m_status r = BeginCompleted"
  defines "s' \<equiv> scheduleCleanup (m_expiresAt r) (s\<lparr>records := AList.update k r (records s)\<rparr>)"
  shows "store_ok s'" and "map_of (records s') = (map_of (records s))(k := Some r)"
proof -
  show eq: "map_of (records s') = (map_of (records s))(k := Some r)"
    by (simp add: s'_def scheduleCleanup_def update_conv')
  have "0 < nextCleanup s' \<and> nextCleanup s' \<le> m_expiresAt x \<and>
      (m_status x = BeginInProgress \<and> m_data x = [] \<or> m_status x = BeginCompleted)"
    if "map_of (records s') k' = Some x" for k' x
  proof (cases "k' = k")
    case True
    with that eq assms(1-3) show ?thesis by (auto simp: store_ok_def s'_def scheduleCleanup_def)
  next
    case False
    with that eq have "map_of (records s) k' = Some x" by simp
    with assms(1) have "0 < nextCleanup s" "nextCleanup s \<le> m_expiresAt x"
      "m_status x = BeginInProgress \<and> m_data x = [] \<or> m_status x = BeginCompleted"
      unfolding store_ok_def by blast+
    with assms(2) show ?thesis by (simp add: s'_def scheduleCleanup_def)
  qed
  moreover have "distinct (map fst (records s'))"
    using assms(1) by (simp add: s'_def scheduleCleanup_def store_ok_def distinct_update)
  moreover have "0 \<le> nextCleanup s'" using assms(1,2) by (simp add: s'_def scheduleCleanup_def store_ok_def)
  ultimately show "store_ok s'" by (simp add: store_ok_def)
qed

lemma delete_record:
  assumes "store_ok s"
  shows "store_ok (s\<lparr>records := AList.delete k (records s)\<rparr>)"
  using assms by (auto simp: store_ok_def delete_conv' distinct_delete)

section \<open>The store implements the contract\<close>

lemma live_upd:
  assumes "map_of (records s') = (live now s)(k := x)" "\<And>r. x = Some r \<Longrightarrow> now < m_expiresAt r"
  shows "live now s' = (live now s)(k := x)"
  using assms by (auto simp: fun_eq_iff live_def split: option.splits if_splits)

lemma live_cleanup: "store_ok s \<Longrightarrow> live now (cleanup now s) = live now s"
  by (rule ext) (auto simp: live_def cleanup_live(2) split: option.splits)

lemma state_of_owned:
  assumes "store_ok s" "live now s k = Some r"
  shows "owned_by tok (Some (state_of r)) \<longleftrightarrow> m_status r = BeginInProgress \<and> m_token r = tok"
    and "shown (state_of r) = \<lparr>Status = m_status r, Result = clone (m_data r)\<rparr>"
    and "key_fingerprint (state_of r) = m_fingerprint r"
proof -
  have "m_status r = BeginInProgress \<and> m_data r = [] \<or> m_status r = BeginCompleted"
    using assms by (auto simp: store_ok_def live_def split: option.splits if_splits)
  then show "owned_by tok (Some (state_of r)) \<longleftrightarrow> m_status r = BeginInProgress \<and> m_token r = tok"
    "shown (state_of r) = \<lparr>Status = m_status r, Result = clone (m_data r)\<rparr>"
    "key_fingerprint (state_of r) = m_fingerprint r"
    by (auto simp: state_of_def BeginStatus_defs clone_def)
qed

text \<open>An operation that only cleans up.\<close>

lemma mem_cleaned:
  assumes "mem_invar w"
  shows "mem_invar (w\<lparr>w_store := cleanup (w_clock w) (w_store w)\<rparr>)"
    and "mem_view (w\<lparr>w_store := cleanup (w_clock w) (w_store w)\<rparr>) = mem_view w"
    and "map_of (records (cleanup (w_clock w) (w_store w))) = live (w_clock w) (w_store w)"
  using assms by (auto simp: mem_invar_def mem_view_def live_cleanup cleanup_live)

text \<open>An operation that stores a record that lives, or deletes one.\<close>

lemma mem_put:
  fixes w :: "'x mem_world" and key :: string
  assumes inv: "mem_invar w" and exp: "w_clock w < m_expiresAt r"
    and st: "m_status r = BeginInProgress \<and> m_data r = [] \<or> m_status r = BeginCompleted"
  defines "s \<equiv> cleanup (w_clock w) (w_store w)"
  defines "w' \<equiv> w\<lparr>w_store := scheduleCleanup (m_expiresAt r) (s\<lparr>records := AList.update key r (records s)\<rparr>)\<rparr>"
  shows "mem_invar w'" and "mem_view w' = (mem_view w)(key := Some (state_of r))"
    and "live (w_clock w) (w_store w') = (live (w_clock w) (w_store w))(key := Some r)"
proof -
  have ok: "store_ok (w_store w)" and pos: "0 < m_expiresAt r"
    using inv exp by (auto simp: mem_invar_def)
  note put = put_record [OF cleanup_live(1) [OF ok, of "w_clock w"] pos st, of key, folded s_def]
  show "mem_invar w'" using put(1) inv by (simp add: mem_invar_def w'_def)
  show "live (w_clock w) (w_store w') = (live (w_clock w) (w_store w))(key := Some r)"
    using put(2) exp by (intro live_upd) (auto simp: w'_def s_def cleanup_live(2) [OF ok])
  then show "mem_view w' = (mem_view w)(key := Some (state_of r))"
    by (auto simp: mem_view_def fun_eq_iff w'_def)
qed

lemma mem_delete:
  fixes w :: "'x mem_world" and key :: string
  assumes inv: "mem_invar w"
  defines "s \<equiv> cleanup (w_clock w) (w_store w)"
  defines "w' \<equiv> w\<lparr>w_store := s\<lparr>records := AList.delete key (records s)\<rparr>\<rparr>"
  shows "mem_invar w'" and "mem_view w' = (mem_view w)(key := None)"
    and "live (w_clock w) (w_store w') = (live (w_clock w) (w_store w))(key := None)"
proof -
  have ok: "store_ok (w_store w)" using inv by (auto simp: mem_invar_def)
  show "mem_invar w'" using inv delete_record [OF cleanup_live(1) [OF ok]]
    by (simp add: mem_invar_def w'_def s_def)
  show "live (w_clock w) (w_store w') = (live (w_clock w) (w_store w))(key := None)"
    by (intro live_upd) (auto simp: w'_def s_def cleanup_live(2) [OF ok] delete_conv')
  then show "mem_view w' = (mem_view w)(key := None)"
    by (auto simp: mem_view_def fun_eq_iff w'_def)
qed

lemma mem_viewD:
  assumes "mem_invar w"
  shows "live (w_clock w) (w_store w) key = Some r \<Longrightarrow> mem_view w key = Some (state_of r) \<and>
      (owned_by tok (Some (state_of r)) \<longleftrightarrow> m_status r = BeginInProgress \<and> m_token r = tok) \<and>
      shown (state_of r) = \<lparr>Status = m_status r, Result = clone (m_data r)\<rparr> \<and>
      key_fingerprint (state_of r) = m_fingerprint r"
    and "live (w_clock w) (w_store w) key = None \<Longrightarrow> mem_view w key = None"
  using state_of_owned [of "w_store w" "w_clock w" key r] assms by (simp_all add: mem_invar_def mem_view_def)

lemma Begin_free:
  assumes "mem_invar w" "cause w = None" "0 < ttl" "mem_view w key = None"
  shows "\<exists>w'. Begin (Some cause) \<lparr>begin_Key = key, begin_Token = tok, begin_Fingerprint = fp, begin_TTL = ttl\<rparr> w =
             (Inr \<lparr>Status = BeginAcquired, Result = []\<rparr>, w') \<and>
           mem_invar w' \<and> w_clock w' = w_clock w \<and> mem_view w' = (mem_view w)(key := Some (Running tok fp))"
proof -
  let ?r = "\<lparr>m_status = BeginInProgress, m_token = tok, m_fingerprint = fp, m_data = [], m_expiresAt = w_clock w + ttl\<rparr>"
  have "live (w_clock w) (w_store w) key = None" using assms(4) by (simp add: mem_view_def)
  with mem_put [OF assms(1), of ?r key] mem_cleaned(3) [OF assms(1)] assms(2,3) show ?thesis
    by (simp add: Begin_def validateContext_def Let_def state_of_def)
qed

lemma Begin_taken:
  assumes "mem_invar w" "cause w = None" "mem_view w key = Some st"
  shows "\<exists>w'. Begin (Some cause) \<lparr>begin_Key = key, begin_Token = tok, begin_Fingerprint = fp, begin_TTL = ttl\<rparr> w =
             (if fp \<noteq> [] \<and> fp \<noteq> key_fingerprint st then Inl ErrKeyConflict else Inr (shown st), w') \<and>
           mem_invar w' \<and> w_clock w' = w_clock w \<and> mem_view w' = mem_view w"
proof -
  obtain r where "live (w_clock w) (w_store w) key = Some r" "st = state_of r"
    using assms(3) by (auto simp: mem_view_def)
  with mem_viewD(1) [OF assms(1)] mem_cleaned [OF assms(1)] assms(2) show ?thesis
    by (simp add: Begin_def validateContext_def Let_def)
qed

lemma Complete_owned:
  assumes "mem_invar w" "cause w = None" "0 < ttl"
  shows "\<exists>w'. Complete (Some cause) \<lparr>complete_Key = key, complete_Token = tok, complete_Result = data, complete_TTL = ttl\<rparr> w =
             (if owned_by tok (mem_view w key) then None else Some ErrClaimLost, w') \<and>
           mem_invar w' \<and> w_clock w' = w_clock w \<and>
           mem_view w' = (if owned_by tok (mem_view w key)
             then (mem_view w)(key := Some (Done (key_fingerprint (the (mem_view w key))) data)) else mem_view w)"
proof (cases "live (w_clock w) (w_store w) key")
  case None
  with mem_viewD(2) [OF assms(1)] mem_cleaned [OF assms(1)] assms(2) show ?thesis
    by (simp add: Complete_def validateContext_def Let_def)
next
  case (Some r)
  let ?r = "r\<lparr>m_status := BeginCompleted, m_token := [], m_data := clone data, m_expiresAt := w_clock w + ttl\<rparr>"
  have "state_of ?r = Done (m_fingerprint r) data" by (simp add: state_of_def clone_def BeginStatus_defs)
  with mem_put [OF assms(1), of ?r key] mem_viewD(1) [OF assms(1) Some, of tok] mem_cleaned [OF assms(1)]
    Some assms(2,3) show ?thesis
    by (auto simp: Complete_def validateContext_def Let_def)
qed

lemma Abort_owned:
  assumes "mem_invar w" "cause w = None"
  shows "\<exists>w'. Abort (Some cause) \<lparr>abort_Key = key, abort_Token = tok\<rparr> w =
             (if owned_by tok (mem_view w key) then None else Some ErrClaimLost, w') \<and>
           mem_invar w' \<and> w_clock w' = w_clock w \<and>
           mem_view w' = (if owned_by tok (mem_view w key) then (mem_view w)(key := None) else mem_view w)"
proof (cases "live (w_clock w) (w_store w) key")
  case None
  with mem_viewD(2) [OF assms(1)] mem_cleaned [OF assms(1)] assms(2) show ?thesis
    by (simp add: Abort_def validateContext_def Let_def)
next
  case (Some r)
  with mem_delete [OF assms(1), of key] mem_viewD(1) [OF assms(1) Some, of tok] mem_cleaned [OF assms(1)]
    assms(2) show ?thesis
    by (auto simp: Abort_def validateContext_def Let_def)
qed

interpretation mem_store: idempotency_store memory_store w_clock mem_view mem_invar
  by unfold_locales
    (simp_all add: memory_store_def Begin_free Begin_taken Complete_owned Abort_owned,
     simp add: Begin_def validateContext_def)

section \<open>The executor over the store\<close>

text \<open>\<open>rand\<close> draws the bytes of a token from a source outside the store.\<close>

definition mem_env :: "('x \<Rightarrow> (go_error + bytes) \<times> 'x) \<Rightarrow> 'x mem_world exec_env" where
  "mem_env rand = \<lparr>env_now = w_clock,
     rand_Read = (\<lambda>w. case rand (w_rest w) of (r, x) \<Rightarrow> (r, w\<lparr>w_rest := x\<rparr>))\<rparr>"

interpretation mem_exec: idempotency_executor memory_store w_clock mem_view mem_invar "mem_env rand"
  "\<lparr>store = memory_store, exec_config = newConfig codecjson opts\<rparr>" for rand codecjson opts
  by unfold_locales
    (auto simp: mem_env_def mem_invar_def mem_view_def config_ok_newConfig fun_eq_iff split: prod.splits)

lemma New_executor:
  "Idempotency.New codecjson (Some memory_store) options = Return e \<Longrightarrow>
   e = \<lparr>store = memory_store, exec_config = newConfig codecjson options\<rparr>"
  by (simp add: Idempotency.New_def)

section \<open>Concurrent callers\<close>

text \<open>
  Callers of one store as a transition system: time passes; an idle caller asks for a claim
  with a token that nobody has used (tokens are 128 random bits); a caller that holds a claim
  runs its handler and then completes or aborts, or vanishes (its handler panicked). Every
  operation of the store is one step, as its mutex makes it. \<open>Holding k t d\<close> is a caller whose
  handler runs under token \<open>t\<close> with the claim's expiry \<open>d\<close>.
\<close>

datatype phase = Idle | Holding string string int

record system =
  sys_world :: "unit mem_world"
  sys_phase :: "nat \<Rightarrow> phase"
  sys_tokens :: "string set"

inductive sys_step :: "system \<Rightarrow> system \<Rightarrow> bool" where
  tick: "0 \<le> d \<Longrightarrow>
    sys_step S (S\<lparr>sys_world := (sys_world S)\<lparr>w_clock := w_clock (sys_world S) + d\<rparr>\<rparr>)"
| sbegin: "\<lbrakk>sys_phase S i = Idle; tok \<notin> sys_tokens S; 0 < ttl;
     Begin (Some (\<lambda>_. None)) \<lparr>begin_Key = key, begin_Token = tok, begin_Fingerprint = fp, begin_TTL = ttl\<rparr>
       (sys_world S) = (r, w')\<rbrakk> \<Longrightarrow>
    sys_step S (S\<lparr>sys_world := w', sys_tokens := insert tok (sys_tokens S),
      sys_phase := (sys_phase S)(i :=
        if (case r of Inr res \<Rightarrow> Status res = BeginAcquired | Inl err \<Rightarrow> False)
        then Holding key tok (w_clock w' + ttl) else Idle)\<rparr>)"
| scomplete: "\<lbrakk>sys_phase S i = Holding key tok d; 0 < ttl;
     Complete (Some (\<lambda>_. None)) \<lparr>complete_Key = key, complete_Token = tok, complete_Result = data, complete_TTL = ttl\<rparr>
       (sys_world S) = (err, w')\<rbrakk> \<Longrightarrow>
    sys_step S (S\<lparr>sys_world := w', sys_phase := (sys_phase S)(i := Idle)\<rparr>)"
| sabort: "\<lbrakk>sys_phase S i = Holding key tok d;
     Abort (Some (\<lambda>_. None)) \<lparr>abort_Key = key, abort_Token = tok\<rparr> (sys_world S) = (err, w')\<rbrakk> \<Longrightarrow>
    sys_step S (S\<lparr>sys_world := w', sys_phase := (sys_phase S)(i := Idle)\<rparr>)"
| svanish: "sys_phase S i = Holding key tok d \<Longrightarrow>
    sys_step S (S\<lparr>sys_phase := (sys_phase S)(i := Idle)\<rparr>)"

definition sys_init :: "system \<Rightarrow> bool" where
  "sys_init S \<longleftrightarrow> 0 < w_clock (sys_world S) \<and> w_store (sys_world S) = New \<and>
     sys_phase S = (\<lambda>_. Idle) \<and> sys_tokens S = {}"

inductive sys_reachable :: "system \<Rightarrow> bool" where
  init: "sys_init S \<Longrightarrow> sys_reachable S"
| step: "sys_reachable S \<Longrightarrow> sys_step S S' \<Longrightarrow> sys_reachable S'"

definition holds_claim :: "unit mem_world \<Rightarrow> string \<Rightarrow> string \<Rightarrow> int \<Rightarrow> bool" where
  "holds_claim w key tok d \<longleftrightarrow>
     (\<exists>r. live (w_clock w) (w_store w) key = Some r \<and>
        m_status r = BeginInProgress \<and> m_token r = tok \<and> m_expiresAt r = d)"

definition sys_invar :: "system \<Rightarrow> bool" where
  "sys_invar S \<longleftrightarrow> mem_invar (sys_world S) \<and>
     (\<forall>i k t d. sys_phase S i = Holding k t d \<longrightarrow> t \<in> sys_tokens S \<and>
        (w_clock (sys_world S) < d \<longrightarrow> holds_claim (sys_world S) k t d)) \<and>
     (\<forall>i j k k' t d d'. sys_phase S i = Holding k t d \<and> sys_phase S j = Holding k' t d' \<longrightarrow> i = j)"

text \<open>The operations keep the claims of other tokens.\<close>

lemma holds_claim_frame:
  assumes "w_clock w' = w_clock w" "live (w_clock w) (w_store w') k = live (w_clock w) (w_store w) k"
  shows "holds_claim w' k t d = holds_claim w k t d"
  using assms by (simp add: holds_claim_def)

lemma Begin_claims:
  assumes inv: "mem_invar w" and ttl: "0 < ttl"
    and res: "Begin (Some (\<lambda>_. None)) \<lparr>begin_Key = key, begin_Token = tok, begin_Fingerprint = fp, begin_TTL = ttl\<rparr> w = (r, w')"
  defines "acquired \<equiv> (case r of Inr res \<Rightarrow> Status res = BeginAcquired | Inl err \<Rightarrow> False)"
  shows "mem_invar w'" "w_clock w' = w_clock w" "holds_claim w k t d \<Longrightarrow> holds_claim w' k t d"
    and "acquired \<Longrightarrow> holds_claim w' key tok (w_clock w + ttl)"
proof -
  let ?r = "\<lparr>m_status = BeginInProgress, m_token = tok, m_fingerprint = fp, m_data = [], m_expiresAt = w_clock w + ttl\<rparr>"
  note put = mem_put [OF inv, of ?r key]
  have "mem_invar w' \<and> w_clock w' = w_clock w \<and> (holds_claim w k t d \<longrightarrow> holds_claim w' k t d) \<and>
    (acquired \<longrightarrow> holds_claim w' key tok (w_clock w + ttl))"
  proof (cases "live (w_clock w) (w_store w) key")
    case None
    with put res mem_cleaned(3) [OF inv] ttl show ?thesis
      by (auto simp: Begin_def validateContext_def Let_def holds_claim_def)
  next
    case (Some x)
    have st: "m_status x \<noteq> BeginAcquired"
      using Some inv by (fastforce simp: mem_invar_def store_ok_def live_def BeginStatus_defs split: option.splits if_splits)
    have "live (w_clock w) (cleanup (w_clock w) (w_store w)) = live (w_clock w) (w_store w)"
      using inv by (simp add: mem_invar_def live_cleanup)
    with Some st res mem_cleaned [OF inv] show ?thesis
      by (auto simp: Begin_def validateContext_def Let_def holds_claim_def acquired_def split: if_splits)
  qed
  then show "mem_invar w'" "w_clock w' = w_clock w" "holds_claim w k t d \<Longrightarrow> holds_claim w' k t d"
    "acquired \<Longrightarrow> holds_claim w' key tok (w_clock w + ttl)" by auto
qed

lemma Complete_claims:
  assumes inv: "mem_invar w" and ttl: "0 < ttl"
    and res: "Complete (Some (\<lambda>_. None)) \<lparr>complete_Key = key, complete_Token = tok, complete_Result = data, complete_TTL = ttl\<rparr> w = (err, w')"
  shows "mem_invar w'" "w_clock w' = w_clock w" "holds_claim w k t d \<Longrightarrow> t \<noteq> tok \<Longrightarrow> holds_claim w' k t d"
proof -
  have lc: "live (w_clock w) (cleanup (w_clock w) (w_store w)) = live (w_clock w) (w_store w)"
    using inv by (simp add: mem_invar_def live_cleanup)
  have "mem_invar w' \<and> w_clock w' = w_clock w \<and> (holds_claim w k t d \<and> t \<noteq> tok \<longrightarrow> holds_claim w' k t d)"
  proof (cases "live (w_clock w) (w_store w) key")
    case None
    with res mem_cleaned [OF inv] lc show ?thesis
      by (auto simp: Complete_def validateContext_def Let_def holds_claim_def)
  next
    case (Some x)
    let ?r = "x\<lparr>m_status := BeginCompleted, m_token := [], m_data := clone data, m_expiresAt := w_clock w + ttl\<rparr>"
    from mem_put [OF inv, of ?r key] Some res mem_cleaned [OF inv] lc ttl show ?thesis
      by (auto simp: Complete_def validateContext_def Let_def holds_claim_def split: if_splits)
  qed
  then show "mem_invar w'" "w_clock w' = w_clock w" "holds_claim w k t d \<Longrightarrow> t \<noteq> tok \<Longrightarrow> holds_claim w' k t d"
    by auto
qed

lemma Abort_claims:
  assumes inv: "mem_invar w"
    and res: "Abort (Some (\<lambda>_. None)) \<lparr>abort_Key = key, abort_Token = tok\<rparr> w = (err, w')"
  shows "mem_invar w'" "w_clock w' = w_clock w" "holds_claim w k t d \<Longrightarrow> t \<noteq> tok \<Longrightarrow> holds_claim w' k t d"
proof -
  have lc: "live (w_clock w) (cleanup (w_clock w) (w_store w)) = live (w_clock w) (w_store w)"
    using inv by (simp add: mem_invar_def live_cleanup)
  have "mem_invar w' \<and> w_clock w' = w_clock w \<and> (holds_claim w k t d \<and> t \<noteq> tok \<longrightarrow> holds_claim w' k t d)"
    using mem_delete [OF inv, of key] res mem_cleaned [OF inv] lc
    by (auto simp: Abort_def validateContext_def Let_def holds_claim_def split: if_splits option.splits)
  then show "mem_invar w'" "w_clock w' = w_clock w" "holds_claim w k t d \<Longrightarrow> t \<noteq> tok \<Longrightarrow> holds_claim w' k t d"
    by auto
qed

lemma sys_invar_step: "sys_step S S' \<Longrightarrow> sys_invar S \<Longrightarrow> sys_invar S'"
proof (induction rule: sys_step.induct)
  case (tick d S)
  have "holds_claim ((sys_world S)\<lparr>w_clock := w_clock (sys_world S) + d\<rparr>) k t x"
    if "holds_claim (sys_world S) k t x" "w_clock (sys_world S) + d < x" for k t x
    using that by (auto simp: holds_claim_def live_def split: option.splits if_splits)
  with tick show ?case by (fastforce simp: sys_invar_def mem_invar_def)
next
  case (sbegin S i tok ttl key fp r w')
  have inv: "mem_invar (sys_world S)" using sbegin.prems by (simp add: sys_invar_def)
  note bc = Begin_claims [OF inv sbegin.hyps(3,4)]
  show ?case unfolding sys_invar_def
    using sbegin.prems sbegin.hyps bc by (auto simp: sys_invar_def split: if_splits)
next
  case (scomplete S i key tok d ttl data err w')
  have inv: "mem_invar (sys_world S)" using scomplete.prems by (simp add: sys_invar_def)
  note cc = Complete_claims [OF inv scomplete.hyps(2,3)]
  show ?case unfolding sys_invar_def
    using scomplete.prems scomplete.hyps(1) cc by (auto simp: sys_invar_def) metis+
next
  case (sabort S i key tok d err w')
  have inv: "mem_invar (sys_world S)" using sabort.prems by (simp add: sys_invar_def)
  note ac = Abort_claims [OF inv sabort.hyps(2)]
  show ?case unfolding sys_invar_def
    using sabort.prems sabort.hyps(1) ac by (auto simp: sys_invar_def) metis+
next
  case (svanish S i key tok d)
  then show ?case by (auto simp: sys_invar_def)
qed

lemma sys_invar_reachable: "sys_reachable S \<Longrightarrow> sys_invar S"
proof (induction rule: sys_reachable.induct)
  case (init S)
  then show ?case by (simp add: sys_init_def sys_invar_def mem_invar_def store_ok_def New_def)
qed (simp add: sys_invar_step)

section \<open>Properties\<close>

text \<open>C3. Mutual exclusion. Whatever callers interleave their operations on a memory store and
  however time passes, no two of them run handlers for the same key under claims that have not
  expired.\<close>

theorem claims_exclusive:
  assumes "sys_reachable S"
    and "sys_phase S i = Holding key t d" "w_clock (sys_world S) < d"
    and "sys_phase S j = Holding key t' d'" "w_clock (sys_world S) < d'"
  shows "i = j"
proof -
  have inv: "sys_invar S" using sys_invar_reachable [OF assms(1)] .
  have "holds_claim (sys_world S) key t d" "holds_claim (sys_world S) key t' d'"
    using inv assms unfolding sys_invar_def by blast+
  then have "t = t'" by (auto simp: holds_claim_def)
  with inv assms show ?thesis unfolding sys_invar_def by blast
qed

definition example_start :: system where
  "example_start = \<lparr>sys_world = \<lparr>w_clock = 1, w_store = New, w_rest = ()\<rparr>, sys_phase = (\<lambda>_. Idle), sys_tokens = {}\<rparr>"

theorem claims_exclusive_witness:
  "\<exists>S. sys_reachable S \<and> sys_phase S 0 = Holding ''k'' ''t'' 11 \<and> w_clock (sys_world S) < 11 \<and>
     (\<forall>j t' d'. sys_phase S j = Holding ''k'' t' d' \<and> w_clock (sys_world S) < d' \<longrightarrow> 0 = j)"
proof -
  let ?req = "\<lparr>begin_Key = ''k'', begin_Token = ''t'', begin_Fingerprint = [], begin_TTL = 10\<rparr>"
  obtain r w' where b: "Begin (Some (\<lambda>_. None)) ?req (sys_world example_start) = (r, w')" by fastforce
  have "fst (Begin (Some (\<lambda>_. None)) ?req (sys_world example_start)) = Inr \<lparr>Status = BeginAcquired, Result = []\<rparr>"
    "w_clock (snd (Begin (Some (\<lambda>_. None)) ?req (sys_world example_start))) = 1" by code_simp+
  with b have r: "r = Inr \<lparr>Status = BeginAcquired, Result = []\<rparr>" "w_clock w' = 1" by simp_all
  have "sys_init example_start" by (simp add: sys_init_def example_start_def)
  then obtain S where S: "sys_reachable S" "sys_phase S 0 = Holding ''k'' ''t'' 11" "sys_world S = w'"
    using sys_reachable.step [OF sys_reachable.init sys_step.sbegin [OF _ _ _ b, of 0]] r
    by (force simp: example_start_def)
  with r claims_exclusive [OF S(1,2)] show ?thesis by auto
qed

text \<open>C15. A call of \<open>Do\<close> goes one of three ways. It is refused with an error or replayed as
  completed, both without running the handler and without leaving a claim (also when the
  context ends right after the claim is made). Or the key was free: the handler runs under a
  claim; if it panics the claim stays; if it fails, the claim is given up and its error returned;
  if it succeeds, the key is completed and nil returned, unless the claim was lost meanwhile,
  which is reported and changes nothing.\<close>

theorem memory_Do:
  assumes "Idempotency.New codecjson (Some memory_store) opts = Return e" "mem_invar w" "key \<noteq> []"
    and "\<And>w r w'. mem_invar w \<Longrightarrow> h w = (r, w') \<Longrightarrow> mem_invar w'"
    and "Do (mem_env rand) e (Some cause) key (Some h) options w = (r, w')"
  shows "mem_invar w' \<and>
    ((\<forall>h'. Do (mem_env rand) e (Some cause) key (Some h') options w = (r, w')) \<and> mem_view w' = mem_view w \<and>
       ((\<exists>err. r = Return (Some err)) \<or> r = Return None \<and> (\<exists>fp data. mem_view w key = Some (Done fp data))) \<or>
     (\<exists>tok w1 hr w2. mem_view w key = None \<and>
        mem_view w1 = (mem_view w)(key := Some (Running tok (fingerprint_for (exec_config e) options))) \<and>
        h w1 = (hr, w2) \<and>
        (case hr of
           Panic \<Rightarrow> r = Panic \<and> w' = w2
         | Return (Some err) \<Rightarrow>
             if owned_by tok (mem_view w2 key)
             then r = Return (Some (Joined [err])) \<and> mem_view w' = (mem_view w2)(key := None)
             else r = Return (Some (Joined [err, ErrClaimLost])) \<and> mem_view w' = mem_view w2
         | Return None \<Rightarrow>
             if owned_by tok (mem_view w2 key)
             then r = Return None \<and>
                  mem_view w' = (mem_view w2)(key := Some (Done (key_fingerprint (the (mem_view w2 key))) []))
             else r = Return (Some ErrClaimLost) \<and> mem_view w' = mem_view w2)))"
  using mem_exec.Do_outcomes [OF assms(2,3,4) assms(5) [unfolded New_executor [OF assms(1)]]]
  unfolding New_executor [OF assms(1)] .

definition example_codec :: "bool codec" where
  "example_codec = \<lparr>Marshal = (\<lambda>b. Inr [if b then 1 else 0]), Unmarshal = (\<lambda>bs. Inr (bs = [1]))\<rparr>"

definition example_executor :: "(nat mem_world, bool) Executor" where
  "example_executor = \<lparr>store = memory_store, exec_config = newConfig example_codec []\<rparr>"

definition example_rand :: "nat \<Rightarrow> (go_error + bytes) \<times> nat" where
  "example_rand n = (Inr (replicate 16 (of_nat n)), n + 1)"

definition example_world :: "nat mem_world" where
  "example_world = \<lparr>w_clock = 1, w_store = New, w_rest = 0\<rparr>"

lemma example_executor_New:
  "Idempotency.New example_codec (Some memory_store) [] = Return example_executor"
  "mem_invar example_world"
  by (simp_all add: Idempotency.New_def example_executor_def example_world_def mem_invar_def
      store_ok_def New_def)

theorem memory_Do_witness:
  "\<exists>r w'. Do (mem_env example_rand) example_executor (Some (\<lambda>_. None)) ''k''
      (Some (\<lambda>w. (Return None, w\<lparr>w_rest := 7\<rparr>))) [] example_world = (r, w') \<and> r = Return None \<and> mem_invar w'"
proof -
  let ?h = "\<lambda>w. (Return None, w\<lparr>w_rest := 7\<rparr>) :: go_error option outcome \<times> nat mem_world"
  obtain r w' where r: "Do (mem_env example_rand) example_executor (Some (\<lambda>_. None)) ''k'' (Some ?h) []
      example_world = (r, w')" by fastforce
  have "fst (Do (mem_env example_rand) example_executor (Some (\<lambda>_. None)) ''k'' (Some ?h) [] example_world) =
    Return None" by code_simp
  moreover have "mem_invar w'"
    using memory_Do [OF example_executor_New, of "''k''" ?h] r by (simp add: mem_invar_def)
  ultimately show ?thesis using r by auto
qed

text \<open>C16. Replay is faithful. With a codec that reads back what it writes, a value that
  \<open>DoValue\<close> returned without an error is returned by every later call for the key whose record is
  still there (with the same fingerprint or none), marked as replayed, whatever handler it is
  given, and that handler is not run.\<close>

theorem memory_DoValue_replay:
  assumes "Idempotency.New codecjson (Some memory_store) opts = Return e" "mem_invar w" "key \<noteq> []"
    and "\<And>w r w'. mem_invar w \<Longrightarrow> h w = (r, w') \<Longrightarrow> mem_invar w'"
    and "DoValue zero (mem_env rand) (Some cause) (Some e) key (Some h) options w =
           (Return (\<lparr>Value = v, WasReplayed = rep\<rparr>, None), w')"
    and "\<And>x bs. Marshal (config_codec (exec_config e)) x = Inr bs \<Longrightarrow> Unmarshal (config_codec (exec_config e)) bs = Inr x"
    and "mem_invar later" "mem_view later key = mem_view w' key"
    and "rand (w_rest later) = (Inr tok, x)"
    and "fingerprint_for (exec_config e) options' \<in> {[], key_fingerprint (the (mem_view w' key))}"
  shows "\<exists>w''. mem_invar w'' \<and> mem_view w'' = mem_view later \<and>
    (\<forall>h'. DoValue zero (mem_env rand) (Some (\<lambda>_. None)) (Some e) key (Some h') options' later =
       (Return (\<lparr>Value = v, WasReplayed = True\<rparr>, None), w''))"
proof -
  note e = New_executor [OF assms(1)]
  have "mem_invar w' \<and> (\<exists>fp data. mem_view w' key = Some (Done fp data) \<and>
    (if rep then Unmarshal (config_codec (exec_config e)) data = Inr v
     else Marshal (config_codec (exec_config e)) v = Inr data))"
    unfolding e by (rule mem_exec.DoValue_stores [OF assms(2,3) _ assms(5) [unfolded e]]) (rule assms(4))
  then obtain fp data where st: "mem_view w' key = Some (Done fp data)"
    "Unmarshal (config_codec (exec_config e)) data = Inr v"
    using assms(6) by (auto split: if_splits)
  have "newToken (mem_env rand) later = (Inr (hex_EncodeToString tok), later\<lparr>w_rest := x\<rparr>)"
    using assms(9) by (simp add: newToken_def mem_env_def)
  then show ?thesis
    using mem_exec.DoValue_replays [OF assms(7,3), of rand "hex_EncodeToString tok" "later\<lparr>w_rest := x\<rparr>" fp data
        codecjson opts options' v zero] st assms(8,10)
    unfolding e by auto
qed

theorem memory_DoValue_replay_witness:
  "\<exists>w' w''. DoValue False (mem_env example_rand) (Some (\<lambda>_. None)) (Some example_executor) ''k''
       (Some (\<lambda>w. (Return (True, None), w))) [] example_world =
       (Return (\<lparr>Value = True, WasReplayed = False\<rparr>, None), w') \<and>
     (\<forall>h'. DoValue False (mem_env example_rand) (Some (\<lambda>_. None)) (Some example_executor) ''k'' (Some h') [] w' =
       (Return (\<lparr>Value = True, WasReplayed = True\<rparr>, None), w''))"
proof -
  let ?h = "\<lambda>w. (Return (True, None), w) :: (bool \<times> go_error option) outcome \<times> nat mem_world"
  let ?call = "DoValue False (mem_env example_rand) (Some (\<lambda>_. None)) (Some example_executor) ''k'' (Some ?h) [] example_world"
  obtain r w' where call: "?call = (r, w')" by fastforce
  have "fst ?call = Return (\<lparr>Value = True, WasReplayed = False\<rparr>, None)" by code_simp
  with call have r1: "r = Return (\<lparr>Value = True, WasReplayed = False\<rparr>, None)" by simp
  have "mem_invar w'"
    using mem_exec.DoValue_stores [where w = example_world and key = "''k''" and h = ?h and zero = False and
        rand = example_rand and codecjson = example_codec and opts = "[]" and options = "[]" and w' = w' and
        v = True and rep = False and cause = "\<lambda>_. None", folded example_executor_def] example_executor_New(2) call r1 by simp
  note r = r1 this
  have rt: "Unmarshal (config_codec (exec_config example_executor)) bs = Inr x"
    if "Marshal (config_codec (exec_config example_executor)) x = Inr bs" for x bs
    using that by (auto simp: example_executor_def newConfig_def example_codec_def split: if_splits)
  have "fingerprint_for (exec_config example_executor) [] = []"
    by (simp add: fingerprint_for_def newExecuteConfig_def)
  then have "\<exists>w''. mem_invar w'' \<and> mem_view w'' = mem_view w' \<and>
      (\<forall>h'. DoValue False (mem_env example_rand) (Some (\<lambda>_. None)) (Some example_executor) ''k'' (Some h') [] w' =
        (Return (\<lparr>Value = True, WasReplayed = True\<rparr>, None), w''))"
    using memory_DoValue_replay [OF example_executor_New, of "''k''" ?h False example_rand "\<lambda>_. None" "[]"
        True False w' w' _ _ "[]"] call r rt by (auto simp: example_rand_def)
  with call r show ?thesis by auto
qed

end
