(* ===== verification/Slices.thy ===== *)
theory Slices
  imports Prelude
begin

text \<open>
  Package \<open>slices\<close> (\<open>src/slices/slices.go\<close>). A slice is a list of its items; functions return
  new slices (or \<open>Fill\<close> the updated one), and nil and empty slices are both \<open>[]\<close>. Go maps are
  Isabelle maps. Lengths and indices stay far below 2^62, so index arithmetic does not wrap.
  The loops of the source are three combinators: \<open>range_loop\<close> is \<open>for i, item := range s\<close>,
  \<open>range_find\<close> the same with an early return, and \<open>down_find\<close> the loop
  \<open>for i := len(s) - 1; i >= 0; i--\<close> with an early return.
\<close>

section \<open>Loops\<close>

fun range_loop :: "(nat \<Rightarrow> 'e \<Rightarrow> 'r \<Rightarrow> 'r) \<Rightarrow> nat \<Rightarrow> 'e list \<Rightarrow> 'r \<Rightarrow> 'r" where
  "range_loop body i [] result = result"
| "range_loop body i (item # s) result = range_loop body (i + 1) s (body i item result)"

fun range_find :: "(nat \<Rightarrow> 'e \<Rightarrow> 'r option) \<Rightarrow> nat \<Rightarrow> 'e list \<Rightarrow> 'r option" where
  "range_find body i [] = None"
| "range_find body i (item # s) =
     (case body i item of Some r \<Rightarrow> Some r | None \<Rightarrow> range_find body (i + 1) s)"

fun down_find :: "(nat \<Rightarrow> 'r option) \<Rightarrow> nat \<Rightarrow> 'r option" where
  "down_find body 0 = None"
| "down_find body (Suc n) = (case body n of Some r \<Rightarrow> Some r | None \<Rightarrow> down_find body n)"

section \<open>The code\<close>

definition indexSet :: "'e list \<Rightarrow> ('e, unit) map" where
  "indexSet s = range_loop (\<lambda>i item result. result(item := Some ())) 0 s Map.empty"

definition MapS :: "'e list \<Rightarrow> ('e \<Rightarrow> 'r) \<Rightarrow> 'r list" where
  "MapS s fn = range_loop (\<lambda>i item result. result @ [fn item]) 0 s []"

definition MapN :: "'e list \<Rightarrow> ('e \<Rightarrow> nat \<Rightarrow> 'r) \<Rightarrow> 'r list" where
  "MapN s fn = range_loop (\<lambda>i item result. result @ [fn item i]) 0 s []"

definition FlatMap :: "'e list \<Rightarrow> ('e \<Rightarrow> 'r list) \<Rightarrow> 'r list" where
  "FlatMap s fn = range_loop (\<lambda>i item result. result @ fn item) 0 s []"

definition KeyBy :: "'e list \<Rightarrow> ('e \<Rightarrow> 'k) \<Rightarrow> ('k, 'e) map" where
  "KeyBy s fn = range_loop (\<lambda>i item result. let key = fn item in result(key := Some item)) 0 s Map.empty"

definition KeyByN :: "'e list \<Rightarrow> ('e \<Rightarrow> nat \<Rightarrow> 'k) \<Rightarrow> ('k, 'e) map" where
  "KeyByN s fn = range_loop (\<lambda>i item result. let key = fn item i in result(key := Some item)) 0 s Map.empty"

definition KeyMap :: "'e list \<Rightarrow> ('e \<Rightarrow> nat \<Rightarrow> 'k \<times> 'r) \<Rightarrow> ('k, 'r) map" where
  "KeyMap s fn =
     range_loop (\<lambda>i item result. let (key, val) = fn item i in result(key := Some val)) 0 s Map.empty"

text \<open>\<open>Each\<close> is called for its effect on a world.\<close>

definition Each :: "'e list \<Rightarrow> ('e \<Rightarrow> 'w \<Rightarrow> 'w) \<Rightarrow> 'w \<Rightarrow> 'w" where
  "Each s fn w = range_loop (\<lambda>i item w. fn item w) 0 s w"

definition EachN :: "'e list \<Rightarrow> ('e \<Rightarrow> nat \<Rightarrow> 'w \<Rightarrow> 'w) \<Rightarrow> 'w \<Rightarrow> 'w" where
  "EachN s fn w = range_loop (\<lambda>i item w. fn item i w) 0 s w"

definition Prepend :: "'e list \<Rightarrow> 'e list \<Rightarrow> 'e list" where
  "Prepend s items = items @ s"

definition Append :: "'e list \<Rightarrow> 'e list \<Rightarrow> 'e list" where
  "Append s items = s @ items"

definition Filter :: "'e list \<Rightarrow> ('e \<Rightarrow> bool) \<Rightarrow> 'e list" where
  "Filter s fn = range_loop (\<lambda>i item result. if fn item then result @ [item] else result) 0 s []"

definition FilterN :: "'e list \<Rightarrow> ('e \<Rightarrow> nat \<Rightarrow> bool) \<Rightarrow> 'e list" where
  "FilterN s fn = range_loop (\<lambda>i item result. if fn item i then result @ [item] else result) 0 s []"

text \<open>\<open>slices.ContainsFunc\<close> and \<open>slices.Contains\<close> of the standard library.\<close>

definition slices_ContainsFunc :: "'e list \<Rightarrow> ('e \<Rightarrow> bool) \<Rightarrow> bool" where
  "slices_ContainsFunc s f = (range_find (\<lambda>i item. if f item then Some i else None) 0 s \<noteq> None)"

definition Any :: "'e list \<Rightarrow> ('e \<Rightarrow> bool) \<Rightarrow> bool" where
  "Any s fn = slices_ContainsFunc s fn"

definition Every :: "'e list \<Rightarrow> ('e \<Rightarrow> bool) \<Rightarrow> bool" where
  "Every s fn =
     (case range_find (\<lambda>i item. if \<not> fn item then Some False else None) 0 s of Some b \<Rightarrow> b | None \<Rightarrow> True)"

definition Reduce :: "'r \<Rightarrow> 'e list \<Rightarrow> ('r \<Rightarrow> 'e \<Rightarrow> 'r) \<Rightarrow> 'r list \<Rightarrow> 'r" where
  "Reduce zero s fn defaults =
     range_loop (\<lambda>i item result. fn result item) 0 s (case defaults of [] \<Rightarrow> zero | d # _ \<Rightarrow> d)"

definition ReduceN :: "'r \<Rightarrow> 'e list \<Rightarrow> ('r \<Rightarrow> 'e \<Rightarrow> nat \<Rightarrow> 'r) \<Rightarrow> 'r list \<Rightarrow> 'r" where
  "ReduceN zero s fn defaults =
     range_loop (\<lambda>i item result. fn result item i) 0 s (case defaults of [] \<Rightarrow> zero | d # _ \<Rightarrow> d)"

text \<open>\<open>make(S, len(s))\<close> holds zero values, which the loop overwrites.\<close>

definition Reverse :: "'e \<Rightarrow> 'e list \<Rightarrow> 'e list" where
  "Reverse zero s =
     fold (\<lambda>i result. result[i := s ! (length s - 1 - i)]) [0..<length s] (replicate (length s) zero)"

definition Concat :: "'e list list \<Rightarrow> 'e list" where
  "Concat slices = range_loop (\<lambda>i slice result. result @ slice) 0 slices []"

definition IsEmpty :: "'e list \<Rightarrow> bool" where "IsEmpty s = (length s = 0)"
definition IsNotEmpty :: "'e list \<Rightarrow> bool" where "IsNotEmpty s = (length s > 0)"

definition Contains :: "'e list \<Rightarrow> 'e \<Rightarrow> bool" where
  "Contains s e = slices_ContainsFunc s (\<lambda>item. item = e)"

definition IndexOf :: "'e list \<Rightarrow> 'e \<Rightarrow> int" where
  "IndexOf s e = (case range_find (\<lambda>i item. if item = e then Some (int i) else None) 0 s of Some i \<Rightarrow> i | None \<Rightarrow> -1)"

definition LastIndexOf :: "'e list \<Rightarrow> 'e \<Rightarrow> int" where
  "LastIndexOf s e =
     (case down_find (\<lambda>i. if s ! i = e then Some (int i) else None) (length s) of Some i \<Rightarrow> i | None \<Rightarrow> -1)"

definition UniqueByN :: "'e list \<Rightarrow> ('e \<Rightarrow> nat \<Rightarrow> 'k) \<Rightarrow> 'e list" where
  "UniqueByN s fn =
     fst (range_loop (\<lambda>i item (result, seeds).
            let key = fn item i
            in case seeds key of
                 None \<Rightarrow> (result @ [item], seeds(key := Some ()))
               | Some _ \<Rightarrow> (result, seeds)) 0 s ([], Map.empty))"

definition UniqueBy :: "'e list \<Rightarrow> ('e \<Rightarrow> 'k) \<Rightarrow> 'e list" where
  "UniqueBy s fn =
     fst (range_loop (\<lambda>i item (result, seeds).
            let key = fn item
            in case seeds key of
                 None \<Rightarrow> (result @ [item], seeds(key := Some ()))
               | Some _ \<Rightarrow> (result, seeds)) 0 s ([], Map.empty))"

definition Unique :: "'e list \<Rightarrow> 'e list" where
  "Unique s =
     fst (range_loop (\<lambda>i item (result, seeds).
            case seeds item of
              None \<Rightarrow> (result @ [item], seeds(item := Some ()))
            | Some _ \<Rightarrow> (result, seeds)) 0 s ([], Map.empty))"

definition Difference :: "'e list \<Rightarrow> 'e list \<Rightarrow> 'e list" where
  "Difference s1 s2 =
     (if length s1 = 0 then []
      else if length s2 = 0 then [] @ s1
      else
        let excluded = indexSet s2
        in range_loop (\<lambda>i item result. if excluded item = None then result @ [item] else result) 0 s1 [])"

definition Intersect :: "'e list \<Rightarrow> 'e list \<Rightarrow> 'e list" where
  "Intersect s1 s2 =
     (if length s1 = 0 \<or> length s2 = 0 then []
      else
        let included = indexSet s2
        in range_loop (\<lambda>i item result. if included item \<noteq> None then result @ [item] else result) 0 s1 [])"

definition Only :: "'e list \<Rightarrow> 'e list \<Rightarrow> 'e list" where
  "Only s items =
     (if length s = 0 \<or> length items = 0 then []
      else
        let included = indexSet items
        in range_loop (\<lambda>i item result. if included item \<noteq> None then result @ [item] else result) 0 s [])"

definition Without :: "'e list \<Rightarrow> 'e list \<Rightarrow> 'e list" where
  "Without s items =
     (if length s = 0 then []
      else if length items = 0 then [] @ s
      else
        let excluded = indexSet items
        in range_loop (\<lambda>i item result. if excluded item = None then result @ [item] else result) 0 s [])"

definition Remove :: "'e list \<Rightarrow> 'e list \<Rightarrow> 'e list" where
  "Remove s items = Without s items"

definition Partition :: "'e list \<Rightarrow> ('e \<Rightarrow> bool) \<Rightarrow> 'e list \<times> 'e list" where
  "Partition s fn =
     range_loop (\<lambda>i item (yes, no). if fn item then (yes @ [item], no) else (yes, no @ [item])) 0 s ([], [])"

definition PartitionN :: "'e list \<Rightarrow> ('e \<Rightarrow> nat \<Rightarrow> bool) \<Rightarrow> 'e list \<times> 'e list" where
  "PartitionN s fn =
     range_loop (\<lambda>i item (yes, no). if fn item i then (yes @ [item], no) else (yes, no @ [item])) 0 s ([], [])"

function chunk_loop :: "'e list \<Rightarrow> nat \<Rightarrow> nat \<Rightarrow> 'e list list \<Rightarrow> 'e list list" where
  "chunk_loop s sz i result =
     (if i < length s \<and> 0 < sz
      then let e = min (i + sz) (length s)
           in chunk_loop s sz (i + sz) (result @ [take (e - i) (drop i s)])
      else result)"
  by pat_completeness auto
termination by (relation "measure (\<lambda>(s, sz, i, result). length s - i)") auto

declare chunk_loop.simps [simp del]

definition Chunk :: "'e list \<Rightarrow> int \<Rightarrow> 'e list list" where
  "Chunk s sz = (if sz \<le> 0 then [] else chunk_loop s (nat sz) 0 [])"

text \<open>A missing map entry reads as the zero value.\<close>

definition GroupBy :: "'e list \<Rightarrow> ('e \<Rightarrow> 'k) \<Rightarrow> ('k, 'e list) map" where
  "GroupBy s fn =
     range_loop (\<lambda>i item result.
       let key = fn item
       in result(key := Some ((case result key of Some xs \<Rightarrow> xs | None \<Rightarrow> []) @ [item]))) 0 s Map.empty"

definition GroupByN :: "'e list \<Rightarrow> ('e \<Rightarrow> nat \<Rightarrow> 'k) \<Rightarrow> ('k, 'e list) map" where
  "GroupByN s fn =
     range_loop (\<lambda>i item result.
       let key = fn item i
       in result(key := Some ((case result key of Some xs \<Rightarrow> xs | None \<Rightarrow> []) @ [item]))) 0 s Map.empty"

definition CountBy :: "'e list \<Rightarrow> ('e \<Rightarrow> 'k) \<Rightarrow> ('k, int) map" where
  "CountBy s fn =
     range_loop (\<lambda>i item result.
       let key = fn item
       in result(key := Some ((case result key of Some n \<Rightarrow> n | None \<Rightarrow> 0) + 1))) 0 s Map.empty"

definition CountByN :: "'e list \<Rightarrow> ('e \<Rightarrow> nat \<Rightarrow> 'k) \<Rightarrow> ('k, int) map" where
  "CountByN s fn =
     range_loop (\<lambda>i item result.
       let key = fn item i
       in result(key := Some ((case result key of Some n \<Rightarrow> n | None \<Rightarrow> 0) + 1))) 0 s Map.empty"

definition First :: "'e \<Rightarrow> 'e list \<Rightarrow> 'e \<times> bool" where
  "First zero s = (if length s = 0 then (zero, False) else (s ! 0, True))"

definition Last :: "'e \<Rightarrow> 'e list \<Rightarrow> 'e \<times> bool" where
  "Last zero s = (if length s = 0 then (zero, False) else (s ! (length s - 1), True))"

definition Find :: "'e \<Rightarrow> 'e list \<Rightarrow> ('e \<Rightarrow> bool) \<Rightarrow> 'e \<times> bool" where
  "Find zero s fn =
     (case range_find (\<lambda>i item. if fn item then Some (item, True) else None) 0 s of
        Some r \<Rightarrow> r | None \<Rightarrow> (zero, False))"

definition FindN :: "'e \<Rightarrow> 'e list \<Rightarrow> ('e \<Rightarrow> nat \<Rightarrow> bool) \<Rightarrow> 'e \<times> bool" where
  "FindN zero s fn =
     (case range_find (\<lambda>i item. if fn item i then Some (item, True) else None) 0 s of
        Some r \<Rightarrow> r | None \<Rightarrow> (zero, False))"

definition FindLast :: "'e \<Rightarrow> 'e list \<Rightarrow> ('e \<Rightarrow> bool) \<Rightarrow> 'e \<times> bool" where
  "FindLast zero s fn =
     (case down_find (\<lambda>i. let item = s ! i in if fn item then Some (item, True) else None) (length s) of
        Some r \<Rightarrow> r | None \<Rightarrow> (zero, False))"

definition FindLastN :: "'e \<Rightarrow> 'e list \<Rightarrow> ('e \<Rightarrow> nat \<Rightarrow> bool) \<Rightarrow> 'e \<times> bool" where
  "FindLastN zero s fn =
     (case down_find (\<lambda>i. let item = s ! i in if fn item i then Some (item, True) else None) (length s) of
        Some r \<Rightarrow> r | None \<Rightarrow> (zero, False))"

definition Index :: "'e list \<Rightarrow> ('e \<Rightarrow> bool) \<Rightarrow> int \<times> bool" where
  "Index s fn =
     (case range_find (\<lambda>i item. if fn item then Some (int i, True) else None) 0 s of
        Some r \<Rightarrow> r | None \<Rightarrow> (-1, False))"

definition IndexN :: "'e list \<Rightarrow> ('e \<Rightarrow> nat \<Rightarrow> bool) \<Rightarrow> int \<times> bool" where
  "IndexN s fn =
     (case range_find (\<lambda>i item. if fn item i then Some (int i, True) else None) 0 s of
        Some r \<Rightarrow> r | None \<Rightarrow> (-1, False))"

definition LastIndex :: "'e list \<Rightarrow> ('e \<Rightarrow> bool) \<Rightarrow> int \<times> bool" where
  "LastIndex s fn =
     (case down_find (\<lambda>i. if fn (s ! i) then Some (int i, True) else None) (length s) of
        Some r \<Rightarrow> r | None \<Rightarrow> (-1, False))"

definition LastIndexN :: "'e list \<Rightarrow> ('e \<Rightarrow> nat \<Rightarrow> bool) \<Rightarrow> int \<times> bool" where
  "LastIndexN s fn =
     (case down_find (\<lambda>i. if fn (s ! i) i then Some (int i, True) else None) (length s) of
        Some r \<Rightarrow> r | None \<Rightarrow> (-1, False))"

definition Fill :: "'e list \<Rightarrow> 'e \<Rightarrow> 'e list" where
  "Fill s v = fold (\<lambda>i s. s[i := v]) [0..<length s] s"

text \<open>\<open>rand.IntN(n)\<close> is a draw below \<open>n\<close>; \<open>rand.Shuffle\<close> of the standard library swaps item \<open>i\<close>
  with a drawn \<open>j \<le> i\<close>, from the last index down to 1.\<close>

definition Random :: "'e \<Rightarrow> (nat \<Rightarrow> nat) \<Rightarrow> 'e list \<Rightarrow> 'e" where
  "Random zero intN s = (if length s = 0 then zero else s ! intN (length s))"

definition swap_items :: "nat \<Rightarrow> nat \<Rightarrow> 'e list \<Rightarrow> 'e list" where
  "swap_items i j result = (result[i := result ! j])[j := result ! i]"

fun rand_Shuffle :: "(nat \<Rightarrow> nat) \<Rightarrow> nat \<Rightarrow> 'e list \<Rightarrow> 'e list" where
  "rand_Shuffle draw 0 result = result"
| "rand_Shuffle draw (Suc i) result = rand_Shuffle draw i (swap_items (Suc i) (draw (Suc i + 1)) result)"

definition Shuffle :: "(nat \<Rightarrow> nat) \<Rightarrow> 'e list \<Rightarrow> 'e list" where
  "Shuffle draw s = rand_Shuffle draw (length s - 1) s"

definition MinS :: "'e :: linorder \<Rightarrow> 'e list \<Rightarrow> 'e" where
  "MinS zero s =
     (if length s = 0 then zero
      else range_loop (\<lambda>i item m. if item < m then item else m) 0 s (s ! 0))"

definition MaxS :: "'e :: linorder \<Rightarrow> 'e list \<Rightarrow> 'e" where
  "MaxS zero s =
     (if length s = 0 then zero
      else range_loop (\<lambda>i item m. if item > m then item else m) 0 s (s ! 0))"

text \<open>At a word type the sum wraps, as it does in Go.\<close>

definition Sum :: "'e :: {zero, plus} list \<Rightarrow> 'e" where
  "Sum s = range_loop (\<lambda>i item sum. sum + item) 0 s 0"

definition LengthS :: "'e list \<Rightarrow> nat" where "LengthS s = length s"

section \<open>Laws of the loops\<close>

lemma range_loop_enumerate:
  "range_loop body i s acc = fold (\<lambda>(i, item). body i item) (enumerate i s) acc"
  by (induction s arbitrary: i acc) simp_all

lemma range_loop_fold: "range_loop (\<lambda>i item. f item) i s acc = fold f s acc"
  by (induction s arbitrary: i acc) simp_all

lemma range_find_enumerate:
  "range_find body i s = range_find (\<lambda>_ (i, item). body i item) j (enumerate i s)"
  by (induction s arbitrary: i j) (simp_all split: option.splits)

lemma fold_append:
  "fold (\<lambda>x result. result @ f x) xs acc = acc @ concat (map f xs)"
  by (induction xs arbitrary: acc) simp_all

lemma fold_append_if:
  "fold (\<lambda>x result. if P x then result @ [g x] else result) xs acc = acc @ map g (filter P xs)"
  by (induction xs arbitrary: acc) simp_all

lemma range_loop_map: "range_loop (\<lambda>i item result. result @ [fn item]) i s acc = acc @ map fn s"
  by (induction s arbitrary: i acc) simp_all

lemma range_loop_concat: "range_loop (\<lambda>i item result. result @ fs item) i s acc = acc @ concat (map fs s)"
  by (induction s arbitrary: i acc) simp_all

lemma range_loop_filter:
  "range_loop (\<lambda>i item result. if P item then result @ [item] else result) i s acc = acc @ filter P s"
  by (induction s arbitrary: i acc) simp_all

lemma range_loop_foldl: "range_loop (\<lambda>i item result. fn result item) i s acc = foldl fn acc s"
  by (induction s arbitrary: i acc) simp_all

lemma range_loop_partition:
  "range_loop (\<lambda>i item (yes, no). if P item then (yes @ [item], no) else (yes, no @ [item])) i s (ys, ns) =
   (ys @ filter P s, ns @ filter (\<lambda>x. \<not> P x) s)"
  by (induction s arbitrary: i ys ns) simp_all

lemma indexSet_iff: "indexSet s x = (if x \<in> set s then Some () else None)"
proof -
  have "range_loop (\<lambda>i item result. result(item := Some ())) i s m x =
      (if x \<in> set s then Some () else m x)" for i m
    by (induction s arbitrary: i m) auto
  then show ?thesis by (simp add: indexSet_def)
qed

text \<open>The first and the last index at which a condition on index and item holds.\<close>

definition first_at :: "(nat \<Rightarrow> 'e \<Rightarrow> bool) \<Rightarrow> 'e list \<Rightarrow> nat \<Rightarrow> bool" where
  "first_at P s i \<longleftrightarrow> i < length s \<and> P i (s ! i) \<and> (\<forall>j < i. \<not> P j (s ! j))"

definition last_at :: "(nat \<Rightarrow> 'e \<Rightarrow> bool) \<Rightarrow> 'e list \<Rightarrow> nat \<Rightarrow> bool" where
  "last_at P s i \<longleftrightarrow> i < length s \<and> P i (s ! i) \<and> (\<forall>j. i < j \<and> j < length s \<longrightarrow> \<not> P j (s ! j))"

definition nowhere :: "(nat \<Rightarrow> 'e \<Rightarrow> bool) \<Rightarrow> 'e list \<Rightarrow> bool" where
  "nowhere P s \<longleftrightarrow> (\<forall>i < length s. \<not> P i (s ! i))"

lemma range_find_aux:
  "(range_find (\<lambda>i x. if P i x then Some (f i x) else None) k s = Some r \<longleftrightarrow>
     (\<exists>i. first_at (\<lambda>i. P (k + i)) s i \<and> r = f (k + i) (s ! i))) \<and>
   (range_find (\<lambda>i x. if P i x then Some (f i x) else None) k s = None \<longleftrightarrow> nowhere (\<lambda>i. P (k + i)) s)"
proof (induction s arbitrary: k)
  case (Cons x s)
  have first: "first_at (\<lambda>i. P (k + i)) (x # s) i \<longleftrightarrow>
      (if P k x then i = 0 else (\<exists>j. i = Suc j \<and> first_at (\<lambda>i. P (Suc k + i)) s j))" for i
    by (cases i) (auto simp: first_at_def less_Suc_eq_0_disj)
  have none: "nowhere (\<lambda>i. P (k + i)) (x # s) \<longleftrightarrow> \<not> P k x \<and> nowhere (\<lambda>i. P (Suc k + i)) s"
    by (auto simp: nowhere_def less_Suc_eq_0_disj)
  show ?case unfolding first none using Cons [of "Suc k"] by auto
qed (simp_all add: first_at_def nowhere_def)

lemmas range_find_iff =
  range_find_aux [where k = 0, simplified, THEN conjunct1]
  range_find_aux [where k = 0, simplified, THEN conjunct2]

lemma down_find_iff:
  "down_find (\<lambda>i. if P i then Some (f i) else None) n = Some r \<longleftrightarrow>
     (\<exists>i < n. P i \<and> (\<forall>j. i < j \<and> j < n \<longrightarrow> \<not> P j) \<and> r = f i)"
  "down_find (\<lambda>i. if P i then Some (f i) else None) n = None \<longleftrightarrow> (\<forall>i < n. \<not> P i)"
  by (induction n) (auto simp: less_Suc_eq)

lemma first_at_unique: "first_at P s i \<Longrightarrow> first_at P s j \<Longrightarrow> i = j"
  unfolding first_at_def by (meson linorder_neqE_nat)

lemma last_at_unique: "last_at P s i \<Longrightarrow> last_at P s j \<Longrightarrow> i = j"
  unfolding last_at_def by (meson linorder_neqE_nat)

lemma nowhere_at: "nowhere P s \<Longrightarrow> first_at P s i \<Longrightarrow> False" "nowhere P s \<Longrightarrow> last_at P s i \<Longrightarrow> False"
  by (auto simp: nowhere_def first_at_def last_at_def)

lemmas at_unique = first_at_unique last_at_unique nowhere_at

lemma down_find_at:
  "down_find (\<lambda>i. if P i (s ! i) then Some (f i (s ! i)) else None) (length s) = Some r \<longleftrightarrow>
     (\<exists>i. last_at P s i \<and> r = f i (s ! i))"
  "down_find (\<lambda>i. if P i (s ! i) then Some (f i (s ! i)) else None) (length s) = None \<longleftrightarrow> nowhere P s"
  unfolding down_find_iff last_at_def nowhere_def by blast+

lemma range_find_cases:
  obtains (found) i where "first_at P s i"
      "range_find (\<lambda>i x. if P i x then Some (f i x) else None) 0 s = Some (f i (s ! i))"
  | (missing) "nowhere P s" "range_find (\<lambda>i x. if P i x then Some (f i x) else None) 0 s = None"
  using range_find_iff [of P f s]
  by (cases "range_find (\<lambda>i x. if P i x then Some (f i x) else None) 0 s") blast+

lemma down_find_cases:
  obtains (found) i where "last_at P s i"
      "down_find (\<lambda>i. if P i (s ! i) then Some (f i (s ! i)) else None) (length s) = Some (f i (s ! i))"
  | (missing) "nowhere P s" "down_find (\<lambda>i. if P i (s ! i) then Some (f i (s ! i)) else None) (length s) = None"
  using down_find_at [of P s f]
  by (cases "down_find (\<lambda>i. if P i (s ! i) then Some (f i (s ! i)) else None) (length s)") blast+

lemma fold_update_fill:
  "n \<le> length s \<Longrightarrow> fold (\<lambda>i s. s[i := g i]) [0..<n] s = map g [0..<n] @ drop n s"
  by (induction n) (auto simp: list_update_append Cons_nth_drop_Suc [symmetric])

lemma Reverse_rev: "Reverse zero s = rev s"
proof -
  have "Reverse zero s = map (\<lambda>i. s ! (length s - 1 - i)) [0..<length s]"
    using fold_update_fill [of "length s" "replicate (length s) zero" "\<lambda>i. s ! (length s - 1 - i)"]
    by (simp add: Reverse_def)
  also have "\<dots> = rev s" by (rule nth_equalityI) (simp_all add: rev_nth)
  finally show ?thesis .
qed

lemma Fill_replicate: "Fill s v = replicate (length s) v"
  using fold_update_fill [of "length s" s "\<lambda>_. v"] by (simp add: Fill_def map_replicate_const)

lemma fold_partition:
  "fold (\<lambda>x (yes, no). if P x then (yes @ [g x], no) else (yes, no @ [g x])) xs (ys, ns) =
   (ys @ map g (filter P xs), ns @ map g (filter (\<lambda>x. \<not> P x) xs))"
  by (induction xs arbitrary: ys ns) simp_all

text \<open>Grouping: the items with a key, in order.\<close>

definition items_with :: "('x \<Rightarrow> 'k) \<Rightarrow> ('x \<Rightarrow> 'e) \<Rightarrow> 'x list \<Rightarrow> 'k \<Rightarrow> 'e list" where
  "items_with fn g xs k = map g (filter (\<lambda>x. fn x = k) xs)"

lemma fold_group:
  "fold (\<lambda>x result. result(fn x := Some ((case result (fn x) of Some ys \<Rightarrow> ys | None \<Rightarrow> []) @ [g x]))) xs m k =
   (if items_with fn g xs k = [] then m k
    else Some ((case m k of Some ys \<Rightarrow> ys | None \<Rightarrow> []) @ items_with fn g xs k))"
  by (induction xs arbitrary: m) (auto simp: items_with_def)

lemma fold_count:
  "fold (\<lambda>x result. result(fn x := Some ((case result (fn x) of Some n \<Rightarrow> n | None \<Rightarrow> 0) + 1))) xs m k =
   (if items_with fn g xs k = [] then m k
    else Some ((case m k of Some n \<Rightarrow> n | None \<Rightarrow> 0) + int (length (items_with fn g xs k))))"
  by (induction xs arbitrary: m) (auto simp: items_with_def)

lemma fold_key:
  "fold (\<lambda>x result. result(fn x := Some (g x))) xs m k =
   (if items_with fn g xs k = [] then m k else Some (last (items_with fn g xs k)))"
  by (induction xs arbitrary: m) (auto simp: items_with_def)

text \<open>Keeping the first item of each key.\<close>

fun first_by :: "('x \<Rightarrow> 'k) \<Rightarrow> 'k set \<Rightarrow> 'x list \<Rightarrow> 'x list" where
  "first_by fn seen [] = []"
| "first_by fn seen (x # xs) =
     (if fn x \<in> seen then first_by fn seen xs else x # first_by fn (insert (fn x) seen) xs)"

lemma fold_unique:
  "fst (fold (\<lambda>x (result, seeds). case seeds (fn x) of
          None \<Rightarrow> (result @ [g x], seeds(fn x := Some ())) | Some _ \<Rightarrow> (result, seeds)) xs (acc, m)) =
   acc @ map g (first_by fn (dom m) xs)"
  by (induction xs arbitrary: acc m) (auto split: option.splits simp: domIff insert_absorb)

lemma first_by_nth:
  "first_by fn seen xs = map ((!) xs) (filter (\<lambda>i. fn (xs ! i) \<notin> seen \<and> (\<forall>j < i. fn (xs ! j) \<noteq> fn (xs ! i))) [0..<length xs])"
proof (induction fn seen xs rule: first_by.induct)
  case (2 fn seen x xs)
  let ?P = "\<lambda>seen xs i. fn (xs ! i) \<notin> seen \<and> (\<forall>j < i. fn (xs ! j) \<noteq> fn (xs ! i))"
  have shift: "filter (?P seen (x # xs)) [0..<length (x # xs)] =
      (if fn x \<in> seen then [] else [0]) @ map Suc (filter (\<lambda>i. ?P seen (x # xs) (Suc i)) [0..<length xs])"
    by (simp add: upt_conv_Cons map_Suc_upt [symmetric] filter_map o_def del: upt_Suc)
  have "?P seen (x # xs) (Suc i) \<longleftrightarrow> ?P (insert (fn x) seen) xs i" for i
    by (auto simp: less_Suc_eq_0_disj)
  moreover have "?P (insert (fn x) seen) xs i \<longleftrightarrow> ?P seen xs i" if "fn x \<in> seen" for i
    using that by auto
  ultimately show ?case using 2 shift by (simp add: o_def del: upt_Suc)
qed simp

lemma chunk_loop_spec:
  assumes "0 < sz"
  shows "concat (chunk_loop s sz i result) = concat result @ drop i s \<and>
         (\<exists>cs. chunk_loop s sz i result = result @ cs \<and>
            (\<forall>c \<in> set (butlast cs). length c = sz) \<and> (cs \<noteq> [] \<longrightarrow> 0 < length (last cs) \<and> length (last cs) \<le> sz))"
  using assms
proof (induction s sz i result rule: chunk_loop.induct)
  case (1 s sz i result)
  show ?case
  proof (cases "i < length s")
    case True
    let ?c = "take (min (i + sz) (length s) - i) (drop i s)"
    have c: "?c = take sz (drop i s)" by (simp add: min_def)
    have eq: "chunk_loop s sz i result = chunk_loop s sz (i + sz) (result @ [?c])"
      using True 1(2) by (subst chunk_loop.simps) (simp add: Let_def)
    obtain cs where cs: "chunk_loop s sz (i + sz) (result @ [?c]) = (result @ [?c]) @ cs"
      "\<forall>c \<in> set (butlast cs). length c = sz" "cs \<noteq> [] \<longrightarrow> 0 < length (last cs) \<and> length (last cs) \<le> sz"
      "concat (chunk_loop s sz (i + sz) (result @ [?c])) = concat (result @ [?c]) @ drop (i + sz) s"
      using 1(1) [OF _ refl 1(2)] True 1(2) by auto
    have "concat (chunk_loop s sz i result) = concat result @ drop i s"
      using cs(4) eq c by (simp add: add.commute [of i] drop_drop [symmetric] del: drop_drop)
    moreover have "length ?c = sz" if "cs \<noteq> []"
    proof (rule ccontr)
      assume "length ?c \<noteq> sz"
      then have "\<not> i + sz < length s" by (auto simp: c)
      then have "chunk_loop s sz (i + sz) (result @ [?c]) = result @ [?c]" by (subst chunk_loop.simps) simp
      with cs(1) that show False by simp
    qed
    moreover have "0 < length ?c" "length ?c \<le> sz" using True 1(2) by (auto simp: c)
    ultimately show ?thesis using cs eq by (intro conjI exI [of _ "?c # cs"]) auto
  next
    case False
    then have "chunk_loop s sz i result = result" by (subst chunk_loop.simps) simp
    with False show ?thesis by simp
  qed
qed

lemma swap_items_mset:
  "i < length xs \<Longrightarrow> j < length xs \<Longrightarrow> mset (swap_items i j xs) = mset xs"
  by (simp add: swap_items_def mset_swap)

lemma rand_Shuffle_mset:
  assumes "\<And>n. 0 < n \<Longrightarrow> draw n < n" "i < length xs \<or> i = 0"
  shows "mset (rand_Shuffle draw i xs) = mset xs"
  using assms(2)
proof (induction i arbitrary: xs)
  case (Suc i)
  have "draw (Suc i + 1) < Suc i + 1" using assms(1) by simp
  with Suc have "mset (swap_items (Suc i) (draw (Suc i + 1)) xs) = mset xs"
    by (intro swap_items_mset) auto
  with Suc show ?case by (simp add: swap_items_def)
qed simp

lemma range_loop_min:
  "range_loop (\<lambda>i item m. if item < m then item else m) i s (m :: 'e :: linorder) = Min (set (m # s))"
proof -
  have "(\<lambda>item m :: 'e. if item < m then item else m) = min" by (auto simp: fun_eq_iff min_def)
  then show ?thesis using range_loop_fold [of "\<lambda>item m. if item < m then item else m" i s m]
    by (simp only: Min.set_eq_fold)
qed

lemma range_loop_max:
  "range_loop (\<lambda>i item m. if item > m then item else m) i s (m :: 'e :: linorder) = Max (set (m # s))"
proof -
  have "(\<lambda>item m :: 'e. if m < item then item else m) = max" by (auto simp: fun_eq_iff max_def)
  then show ?thesis using range_loop_fold [of "\<lambda>item m. if m < item then item else m" i s m]
    by (simp only: Max.set_eq_fold)
qed

section \<open>Properties\<close>

text \<open>C36. The loops compute the standard list functions: the transforming, filtering, folding and
  joining functions of the package, and the set-like ones with their membership map and their
  special cases for empty arguments, equal their definitions on lists; the functions with an
  index do the same to the items paired with their positions.\<close>

theorem slices_reference:
  "MapS s fn = map fn s \<and> MapN s fnN = map (\<lambda>(i, x). fnN x i) (enumerate 0 s) \<and>
   FlatMap s fs = concat (map fs s) \<and> Concat ss = concat ss \<and> Reverse zero s = rev s \<and>
   Fill s v = replicate (length s) v \<and>
   Filter s P = filter P s \<and> FilterN s Q = map snd (filter (\<lambda>(i, x). Q x i) (enumerate 0 s)) \<and>
   Partition s P = (filter P s, filter (\<lambda>x. \<not> P x) s) \<and>
   PartitionN s Q = (map snd (filter (\<lambda>(i, x). Q x i) (enumerate 0 s)),
                     map snd (filter (\<lambda>(i, x). \<not> Q x i) (enumerate 0 s))) \<and>
   Reduce z s f [] = foldl f z s \<and> Reduce z s f (d # ds) = foldl f d s \<and>
   Any s P = list_ex P s \<and> Every s P = list_all P s \<and> Contains s v = (v \<in> set s) \<and>
   Difference s t = filter (\<lambda>x. x \<notin> set t) s \<and> Without s t = filter (\<lambda>x. x \<notin> set t) s \<and>
   Intersect s t = filter (\<lambda>x. x \<in> set t) s \<and> Only s t = filter (\<lambda>x. x \<in> set t) s"
proof -
  have ex: "slices_ContainsFunc s p = list_ex p s" for p
    using range_find_iff(2) [of "\<lambda>_. p" "\<lambda>i _. i" s]
    by (auto simp: slices_ContainsFunc_def nowhere_def list_ex_length)
  have "Every s P = list_all P s"
    using range_find_iff [of "\<lambda>_ x. \<not> P x" "\<lambda>_ _. False" s]
    by (auto simp: Every_def nowhere_def list_all_length first_at_def split: option.splits)
  moreover have "MapN s fnN = map (\<lambda>(i, x). fnN x i) (enumerate 0 s)"
    using fold_append [of "\<lambda>(i, x). [fnN x i]" "enumerate 0 s" "[]"]
    by (simp add: MapN_def range_loop_enumerate split_def)
  moreover have "FilterN s Q = map snd (filter (\<lambda>(i, x). Q x i) (enumerate 0 s))"
    using fold_append_if [of "\<lambda>(i, x). Q x i" snd "enumerate 0 s" "[]"]
    by (simp add: FilterN_def range_loop_enumerate split_def)
  moreover have "PartitionN s Q = (map snd (filter (\<lambda>(i, x). Q x i) (enumerate 0 s)),
                     map snd (filter (\<lambda>(i, x). \<not> Q x i) (enumerate 0 s)))"
    using fold_partition [of "\<lambda>(i, x). Q x i" snd "enumerate 0 s" "[]" "[]"]
    by (simp add: PartitionN_def range_loop_enumerate split_def)
  moreover have "Reduce z s f [] = foldl f z s" "Reduce z s f (d # ds) = foldl f d s"
    by (simp_all add: Reduce_def range_loop_foldl)
  moreover have "Difference s t = filter (\<lambda>x. x \<notin> set t) s" "Without s t = filter (\<lambda>x. x \<notin> set t) s"
    "Intersect s t = filter (\<lambda>x. x \<in> set t) s" "Only s t = filter (\<lambda>x. x \<in> set t) s"
    by (auto simp: Difference_def Without_def Intersect_def Only_def indexSet_iff range_loop_filter Let_def
        intro: filter_cong)
  ultimately show ?thesis
    by (simp add: MapS_def FlatMap_def Concat_def Filter_def Partition_def Any_def Contains_def
        range_loop_map range_loop_filter range_loop_partition Reverse_rev Fill_replicate ex list_ex_iff
        range_loop_concat range_loop_concat [where fs = "\<lambda>x. x", simplified])
qed

text \<open>\<open>UniqueBy\<close> keeps the items whose key did not occur before, in their order, and \<open>Unique\<close>
  does so for the items themselves: the keys of the result are distinct and none is missing.\<close>

theorem UniqueBy_first:
  "UniqueBy s fn = map ((!) s) (filter (\<lambda>i. \<forall>j < i. fn (s ! j) \<noteq> fn (s ! i)) [0..<length s]) \<and>
   distinct (map fn (UniqueBy s fn)) \<and> fn ` set (UniqueBy s fn) = fn ` set s \<and>
   Unique s = UniqueBy s (\<lambda>x. x) \<and> UniqueByN s (\<lambda>x i. fn x) = UniqueBy s fn"
proof -
  have first: "UniqueBy s fn = first_by fn {} s" for fn :: "'a \<Rightarrow> 'b" and s
    using fold_unique [where fn = fn and g = "\<lambda>x. x" and xs = s and acc = "[]" and m = Map.empty] by (simp add: UniqueBy_def range_loop_fold Let_def)
  have "distinct (map fn (first_by fn seen s)) \<and> fn ` set (first_by fn seen s) = fn ` set s - seen" for seen
    by (induction fn seen s rule: first_by.induct) auto
  from this [of "{}"] have "distinct (map fn (UniqueBy s fn))" "fn ` set (UniqueBy s fn) = fn ` set s"
    by (simp_all add: first)
  moreover have "UniqueBy s fn = map ((!) s) (filter (\<lambda>i. \<forall>j < i. fn (s ! j) \<noteq> fn (s ! i)) [0..<length s])"
    using first_by_nth [of fn "{}" s] by (simp add: first)
  moreover have "Unique s = UniqueBy s (\<lambda>x. x)" "UniqueByN s (\<lambda>x i. fn x) = UniqueBy s fn"
    by (simp_all add: Unique_def UniqueBy_def UniqueByN_def Let_def)
  ultimately show ?thesis by metis
qed

theorem UniqueBy_first_witness:
  "let s = [3, 4, 13 :: int]; fn = (\<lambda>x. x mod 10) in
   UniqueBy s fn = map ((!) s) (filter (\<lambda>i. \<forall>j < i. fn (s ! j) \<noteq> fn (s ! i)) [0..<length s]) \<and>
   UniqueBy s fn = [3, 4]"
proof -
  have "UniqueBy [3, 4, 13 :: int] (\<lambda>x. x mod 10) = [3, 4]" by code_simp
  with UniqueBy_first [of "[3, 4, 13 :: int]" "\<lambda>x. x mod 10"] show ?thesis unfolding Let_def by blast
qed

text \<open>The maps that group a slice: \<open>GroupBy\<close> holds for every key the items with that key in
  their order (and no entry for a key without items), \<open>CountBy\<close> their number, and \<open>KeyBy\<close> the
  last of them; so grouping loses and invents nothing.\<close>

theorem GroupBy_groups:
  "GroupBy s fn k = (let xs = filter (\<lambda>x. fn x = k) s in if xs = [] then None else Some xs) \<and>
   CountBy s fn k = map_option (\<lambda>xs. int (length xs)) (GroupBy s fn k) \<and>
   KeyBy s fn k = map_option last (GroupBy s fn k) \<and>
   GroupByN s fnN k = map_option (map snd) (GroupBy (enumerate 0 s) (\<lambda>(i, x). fnN x i) k) \<and>
   CountByN s fnN k = map_option (\<lambda>xs. int (length xs)) (GroupByN s fnN k) \<and>
   KeyByN s fnN k = map_option last (GroupByN s fnN k)"
proof -
  have "GroupBy s fn k = (if items_with fn (\<lambda>x. x) s k = [] then None else Some (items_with fn (\<lambda>x. x) s k))"
    for s :: "'x list" and fn :: "'x \<Rightarrow> 'k" and k
    using fold_group [where fn = fn and g = "\<lambda>x. x" and xs = s and m = Map.empty and k = k]
    by (simp add: GroupBy_def range_loop_fold Let_def)
  note group = this
  have "GroupByN s fnN k = (if items_with (\<lambda>(i, x). fnN x i) snd (enumerate 0 s) k = [] then None
      else Some (items_with (\<lambda>(i, x). fnN x i) snd (enumerate 0 s) k))"
    using fold_group [where fn = "\<lambda>(i, x). fnN x i" and g = snd and xs = "enumerate 0 s" and m = Map.empty and k = k]
    by (simp add: GroupByN_def range_loop_enumerate Let_def split_def)
  note groupN = this
  have "CountBy s fn k = map_option (\<lambda>xs. int (length xs)) (GroupBy s fn k)"
    using fold_count [where fn = fn and g = "\<lambda>x. x" and xs = s and m = Map.empty and k = k]
    by (simp add: CountBy_def range_loop_fold Let_def group)
  moreover have "KeyBy s fn k = map_option last (GroupBy s fn k)"
    using fold_key [where fn = fn and g = "\<lambda>x. x" and xs = s and m = Map.empty and k = k]
    by (simp add: KeyBy_def range_loop_fold Let_def group)
  moreover have "CountByN s fnN k = map_option (\<lambda>xs. int (length xs)) (GroupByN s fnN k)"
    using fold_count [where fn = "\<lambda>(i, x). fnN x i" and g = snd and xs = "enumerate 0 s" and m = Map.empty and k = k]
    by (simp add: CountByN_def range_loop_enumerate Let_def split_def groupN)
  moreover have "KeyByN s fnN k = map_option last (GroupByN s fnN k)"
    using fold_key [where fn = "\<lambda>(i, x). fnN x i" and g = snd and xs = "enumerate 0 s" and m = Map.empty and k = k]
    by (simp add: KeyByN_def range_loop_enumerate Let_def split_def groupN)
  ultimately show ?thesis
    by (simp add: group groupN items_with_def)
qed

text \<open>C37. \<open>Chunk\<close> cuts and loses nothing: for a positive size the chunks concatenate to the slice,
  all but the last have exactly that size and the last has at least one item and at most that
  many; any other size gives no chunks.\<close>

theorem Chunk_concat:
  "(sz \<le> 0 \<longrightarrow> Chunk s sz = []) \<and>
   (0 < sz \<longrightarrow> concat (Chunk s sz) = s \<and> (\<forall>c \<in> set (butlast (Chunk s sz)). int (length c) = sz) \<and>
      (Chunk s sz \<noteq> [] \<longrightarrow> 0 < length (last (Chunk s sz)) \<and> int (length (last (Chunk s sz))) \<le> sz))"
  using chunk_loop_spec [of "nat sz" s 0 "[]"] by (auto simp: Chunk_def)

theorem Chunk_concat_witness:
  "concat (Chunk [1, 2, 3, 4, 5 :: nat] 2) = [1, 2, 3, 4, 5] \<and> Chunk [1, 2, 3, 4, 5 :: nat] 2 = [[1, 2], [3, 4], [5]]"
proof -
  have "Chunk [1, 2, 3, 4, 5 :: nat] 2 = [[1, 2], [3, 4], [5]]" by code_simp
  with Chunk_concat [of 2 "[1, 2, 3, 4, 5 :: nat]"] show ?thesis by simp
qed

text \<open>The searching functions find the first (or last) position: \<open>Index\<close>, \<open>IndexN\<close>,
  \<open>LastIndex\<close>, \<open>LastIndexN\<close>, \<open>IndexOf\<close> and \<open>LastIndexOf\<close> return an index exactly when it is the
  first (last) match and -1 when there is none; \<open>Find\<close> and its variants return the item there, or
  the zero value with false.\<close>

theorem search_positions:
  "(Index s p = (int i, True) \<longleftrightarrow> first_at (\<lambda>_. p) s i) \<and> (Index s p = (-1, False) \<longleftrightarrow> nowhere (\<lambda>_. p) s) \<and>
   (IndexN s pN = (int i, True) \<longleftrightarrow> first_at (\<lambda>i x. pN x i) s i) \<and>
   (IndexN s pN = (-1, False) \<longleftrightarrow> nowhere (\<lambda>i x. pN x i) s) \<and>
   (LastIndex s p = (int i, True) \<longleftrightarrow> last_at (\<lambda>_. p) s i) \<and>
   (LastIndex s p = (-1, False) \<longleftrightarrow> nowhere (\<lambda>_. p) s) \<and>
   (LastIndexN s pN = (int i, True) \<longleftrightarrow> last_at (\<lambda>i x. pN x i) s i) \<and>
   (LastIndexN s pN = (-1, False) \<longleftrightarrow> nowhere (\<lambda>i x. pN x i) s) \<and>
   (IndexOf s v = int i \<longleftrightarrow> first_at (\<lambda>_ x. x = v) s i) \<and> (IndexOf s v = -1 \<longleftrightarrow> v \<notin> set s) \<and>
   (LastIndexOf s v = int i \<longleftrightarrow> last_at (\<lambda>_ x. x = v) s i) \<and> (LastIndexOf s v = -1 \<longleftrightarrow> v \<notin> set s) \<and>
   (Find zero s p = (x, True) \<longleftrightarrow> (\<exists>i. first_at (\<lambda>_. p) s i \<and> x = s ! i)) \<and>
   (Find zero s p = (zero, False) \<longleftrightarrow> nowhere (\<lambda>_. p) s) \<and>
   (FindLast zero s p = (x, True) \<longleftrightarrow> (\<exists>i. last_at (\<lambda>_. p) s i \<and> x = s ! i)) \<and>
   (FindLast zero s p = (zero, False) \<longleftrightarrow> nowhere (\<lambda>_. p) s)"
proof -
  have none: "v \<notin> set s \<longleftrightarrow> nowhere (\<lambda>_ x. x = v) s" by (auto simp: nowhere_def in_set_conv_nth)
  have "(Index s p = (int i, True) \<longleftrightarrow> first_at (\<lambda>_. p) s i) \<and> (Index s p = (-1, False) \<longleftrightarrow> nowhere (\<lambda>_. p) s)"
    by (rule range_find_cases [of "\<lambda>_. p" s "\<lambda>i _. (int i, True)"]) (auto simp: Index_def dest: at_unique)
  moreover have "(IndexN s pN = (int i, True) \<longleftrightarrow> first_at (\<lambda>i x. pN x i) s i) \<and>
      (IndexN s pN = (-1, False) \<longleftrightarrow> nowhere (\<lambda>i x. pN x i) s)"
    by (rule range_find_cases [of "\<lambda>i x. pN x i" s "\<lambda>i _. (int i, True)"]) (auto simp: IndexN_def dest: at_unique)
  moreover have "(LastIndex s p = (int i, True) \<longleftrightarrow> last_at (\<lambda>_. p) s i) \<and>
      (LastIndex s p = (-1, False) \<longleftrightarrow> nowhere (\<lambda>_. p) s)"
    by (rule down_find_cases [of "\<lambda>_. p" s "\<lambda>i _. (int i, True)"]) (auto simp: LastIndex_def dest: at_unique)
  moreover have "(LastIndexN s pN = (int i, True) \<longleftrightarrow> last_at (\<lambda>i x. pN x i) s i) \<and>
      (LastIndexN s pN = (-1, False) \<longleftrightarrow> nowhere (\<lambda>i x. pN x i) s)"
    by (rule down_find_cases [of "\<lambda>i x. pN x i" s "\<lambda>i _. (int i, True)"]) (auto simp: LastIndexN_def dest: at_unique)
  moreover have "(IndexOf s v = int i \<longleftrightarrow> first_at (\<lambda>_ x. x = v) s i) \<and> (IndexOf s v = -1 \<longleftrightarrow> v \<notin> set s)"
    unfolding none by (rule range_find_cases [of "\<lambda>_ x. x = v" s "\<lambda>i _. int i"]) (auto simp: IndexOf_def dest: at_unique)
  moreover have "(LastIndexOf s v = int i \<longleftrightarrow> last_at (\<lambda>_ x. x = v) s i) \<and> (LastIndexOf s v = -1 \<longleftrightarrow> v \<notin> set s)"
    unfolding none by (rule down_find_cases [of "\<lambda>_ x. x = v" s "\<lambda>i _. int i"]) (auto simp: LastIndexOf_def dest: at_unique)
  moreover have "(Find zero s p = (x, True) \<longleftrightarrow> (\<exists>i. first_at (\<lambda>_. p) s i \<and> x = s ! i)) \<and>
      (Find zero s p = (zero, False) \<longleftrightarrow> nowhere (\<lambda>_. p) s)"
    by (rule range_find_cases [of "\<lambda>_. p" s "\<lambda>_ y. (y, True)"]) (auto simp: Find_def dest: at_unique)
  moreover have "(FindLast zero s p = (x, True) \<longleftrightarrow> (\<exists>i. last_at (\<lambda>_. p) s i \<and> x = s ! i)) \<and>
      (FindLast zero s p = (zero, False) \<longleftrightarrow> nowhere (\<lambda>_. p) s)"
    by (rule down_find_cases [of "\<lambda>_. p" s "\<lambda>_ y. (y, True)"]) (auto simp: FindLast_def Let_def dest: at_unique)
  ultimately show ?thesis by blast
qed

text \<open>\<open>Shuffle\<close> returns the same items in some order, whatever the generator draws; \<open>Min\<close> and
  \<open>Max\<close> of a non-empty slice are its least and greatest item.\<close>

theorem Shuffle_permutes:
  assumes "\<forall>n. 0 < n \<longrightarrow> draw n < n"
  shows "mset (Shuffle draw s) = mset s \<and>
    (t \<noteq> [] \<longrightarrow> MinS zero t = Min (set t) \<and> MaxS zero t = Max (set t))"
proof -
  have "mset (Shuffle draw s) = mset s"
    unfolding Shuffle_def by (rule rand_Shuffle_mset) (use assms in auto)
  moreover have "MinS zero t = Min (set t)" "MaxS zero t = Max (set t)" if "t \<noteq> []"
    using that by (auto simp: MinS_def MaxS_def range_loop_min range_loop_max insert_absorb)
  ultimately show ?thesis by blast
qed

theorem Shuffle_permutes_witness:
  "mset (Shuffle (\<lambda>n. 0) [1, 2, 3 :: nat]) = mset [1, 2, 3 :: nat] \<and> MinS 0 [5, 2 :: nat] = Min (set [5, 2])"
  using Shuffle_permutes [of "\<lambda>n. 0" "[1, 2, 3 :: nat]" "[5, 2 :: nat]" 0] by simp

end
