(* ===== verification/Queue.thy ===== *)
theory Queue
  imports Codec Retry
begin

text \<open>
  Package \<open>queue\<close> (\<open>src/queue\<close>), everything but the worker: the task envelope, the interfaces
  \<open>Queue\<close>, \<open>Consumer\<close> and \<open>Delivery\<close> as records of their methods over a world \<open>'w\<close>, the error
  markers a handler returns, events and observers, and the producers. The JSON codec is a
  parameter, and so is the text of an error (an error of a handler has a method of its own).
  The nil context, the nil map and the nil option are not modelled: a context is the error it
  reports in a world, and a nil map reads as the empty one.
\<close>

section \<open>Tasks and the interfaces\<close>

type_synonym 'w ctx = "'w \<Rightarrow> go_error option"

record Task =
  task_ID :: string
  task_Type :: string
  task_Queue :: string
  task_Payload :: bytes
  task_Metadata :: "string \<rightharpoonup> string"
  task_Attempt :: int
  task_CreatedAt :: int
  task_AvailableAt :: int

definition DefaultQueue :: string where "DefaultQueue = ''default''"

text \<open>A copy of the value; payload and metadata are values of the model, so that a copy shares
  nothing with the original.\<close>

definition Clone :: "Task option \<Rightarrow> Task option" where
  "Clone t = (case t of None \<Rightarrow> None | Some t \<Rightarrow> Some (t\<lparr>task_Payload := [] @ task_Payload t,
     task_Metadata := Map.empty ++ task_Metadata t\<rparr>))"

record ConsumerConfig =
  cc_Queue :: string
  cc_Name :: string

definition Normalize :: "ConsumerConfig \<Rightarrow> ConsumerConfig" where
  "Normalize c = (if cc_Queue c = [] then c\<lparr>cc_Queue := DefaultQueue\<rparr> else c)"

record 'w Delivery =
  d_Task :: "Task option"
  d_Ack :: "'w ctx \<Rightarrow> 'w \<Rightarrow> go_error option \<times> 'w"
  d_Retry :: "'w ctx \<Rightarrow> int \<Rightarrow> 'w \<Rightarrow> go_error option \<times> 'w"
  d_DeadLetter :: "'w ctx \<Rightarrow> string \<Rightarrow> 'w \<Rightarrow> go_error option \<times> 'w"

text \<open>\<open>Receive\<close> blocks, possibly for ever (\<open>None\<close>).\<close>

record 'w Consumer =
  c_Receive :: "'w ctx \<Rightarrow> 'w \<Rightarrow> ((go_error + 'w Delivery option) \<times> 'w) option"
  c_Close :: "'w \<Rightarrow> go_error option \<times> 'w"

record 'w Queue =
  q_Enqueue :: "'w ctx \<Rightarrow> Task option \<Rightarrow> 'w \<Rightarrow> go_error option \<times> 'w"
  q_NewConsumer :: "'w ctx \<Rightarrow> ConsumerConfig \<Rightarrow> 'w \<Rightarrow> (go_error + 'w Consumer) \<times> 'w"

text \<open>\<open>NewDelivery\<close> of \<open>task.go\<close>: a delivery with nothing to settle.\<close>

definition noop_Ack :: "'w ctx \<Rightarrow> 'w \<Rightarrow> go_error option \<times> 'w" where
  "noop_Ack ctx w = (ctx w, w)"

definition noop_Retry :: "'w ctx \<Rightarrow> int \<Rightarrow> 'w \<Rightarrow> go_error option \<times> 'w" where
  "noop_Retry ctx _ w = (ctx w, w)"

definition noop_DeadLetter :: "'w ctx \<Rightarrow> string \<Rightarrow> 'w \<Rightarrow> go_error option \<times> 'w" where
  "noop_DeadLetter ctx _ w = (ctx w, w)"

definition NewDelivery :: "Task option \<Rightarrow> 'w Delivery" where
  "NewDelivery task = \<lparr>d_Task = task, d_Ack = noop_Ack, d_Retry = noop_Retry, d_DeadLetter = noop_DeadLetter\<rparr>"

section \<open>Errors\<close>

definition ErrNoTask :: go_error where
  "ErrNoTask = Sentinel ''queue: no task available''"
definition ErrConsumerClosed :: go_error where
  "ErrConsumerClosed = Sentinel ''queue: consumer closed''"
definition ErrInvalidTaskType :: go_error where
  "ErrInvalidTaskType = Sentinel ''queue: task type is required''"
definition ErrHandlerNotFound :: go_error where
  "ErrHandlerNotFound = Sentinel ''queue: handler not found''"
definition ErrRetryExhausted :: go_error where
  "ErrRetryExhausted = Sentinel ''queue: retry exhausted''"
definition ErrDiscard :: go_error where
  "ErrDiscard = Sentinel ''queue: discard task''"

definition defaultDeadLetterReason :: string where
  "defaultDeadLetterReason = ''queue: dead letter requested''"

definition RetryAfter :: "int \<Rightarrow> go_error" where
  "RetryAfter delay = (let delay = (if delay < 0 then 0 else delay) in RetryAfterError delay)"

definition retryAfterDelay :: "go_error \<Rightarrow> int option" where
  "retryAfterDelay err = as_first (\<lambda>e. case e of RetryAfterError d \<Rightarrow> Some d | _ \<Rightarrow> None) err"

definition DeadLetter :: "string \<Rightarrow> go_error" where
  "DeadLetter reason =
     (let reason = (if reason = [] then defaultDeadLetterReason else reason) in DeadLetterError reason)"

definition deadLetterReason :: "go_error \<Rightarrow> string option" where
  "deadLetterReason err = as_first (\<lambda>e. case e of DeadLetterError r \<Rightarrow> Some r | _ \<Rightarrow> None) err"

section \<open>Handlers\<close>

text \<open>A call returns, or panics with a value of which the code uses only its text. A handler gets a
  pointer to the envelope; the model passes the value, which assumes that handlers do not write
  to it.\<close>

datatype 'a called = Returned 'a | Panicked string

type_synonym 'w Handler = "'w ctx \<Rightarrow> Task \<Rightarrow> 'w \<Rightarrow> go_error option called \<times> 'w"
type_synonym 'w Middleware = "'w Handler \<Rightarrow> 'w Handler"

definition chain :: "'w Handler \<Rightarrow> 'w Middleware list \<Rightarrow> 'w Handler" where
  "chain handler middleware = fold (\<lambda>m handler. m handler) (rev middleware) handler"

record 'v TaskFor =
  tf_Task :: Task
  tf_Payload :: 'v

type_synonym ('w, 'v) HandlerFor = "'w ctx \<Rightarrow> 'v TaskFor \<Rightarrow> 'w \<Rightarrow> go_error option called \<times> 'w"

record ('w, 'v) Tasker =
  TaskType :: string
  Tasker_Handle :: "('w, 'v) HandlerFor"

section \<open>Events and observers\<close>

datatype EventKind =
    EventEnqueueStarted | EventEnqueued | EventEnqueueFailed
  | EventWorkerStarted | EventWorkerStopped
  | EventTaskReceived | EventHandlerStarted | EventHandlerSucceeded | EventHandlerFailed
  | EventTaskAcked | EventTaskRetried | EventTaskDeadLettered | EventTaskSettlementFailed

text \<open>\<open>NoSettlement\<close> is the zero value of the string type.\<close>

datatype SettlementAction = NoSettlement | SettlementAck | SettlementRetry | SettlementDeadLetter

record TaskInfo =
  ti_ID :: string
  ti_Type :: string
  ti_Queue :: string
  ti_Attempt :: int

record Event =
  Kind :: EventKind
  ev_Queue :: string
  ConsumerName :: string
  ev_Task :: TaskInfo
  Settlement :: SettlementAction
  Delay :: int
  Reason :: string
  Err :: "go_error option"

definition taskInfo :: "Task option \<Rightarrow> TaskInfo" where
  "taskInfo task =
     (case task of None \<Rightarrow> \<lparr>ti_ID = [], ti_Type = [], ti_Queue = [], ti_Attempt = 0\<rparr>
      | Some t \<Rightarrow> \<lparr>ti_ID = task_ID t, ti_Type = task_Type t, ti_Queue = task_Queue t,
                    ti_Attempt = task_Attempt t\<rparr>)"

text \<open>An observer may return a nil context.\<close>

type_synonym 'w Observer = "'w ctx \<Rightarrow> Event \<Rightarrow> 'w \<Rightarrow> 'w ctx option \<times> 'w"

definition ObserverFunc_ObserveQueue :: "'w Observer option \<Rightarrow> 'w Observer" where
  "ObserverFunc_ObserveQueue f ctx event w = (case f of Some f \<Rightarrow> f ctx event w | None \<Rightarrow> (Some ctx, w))"

text \<open>The zero \<open>Event\<close> of a kind, which the code fills in.\<close>

definition event_of :: "EventKind \<Rightarrow> string \<Rightarrow> string \<Rightarrow> TaskInfo \<Rightarrow> Event" where
  "event_of kind q consumer info = \<lparr>Kind = kind, ev_Queue = q, ConsumerName = consumer, ev_Task = info,
     Settlement = NoSettlement, Delay = 0, Reason = [], Err = None\<rparr>"

section \<open>The producer\<close>

record enqueueConfig =
  ec_id :: string
  ec_queue :: string
  ec_metadata :: "string \<rightharpoonup> string"
  ec_delay :: int

record 'w producerConfig =
  pc_queue :: string
  pc_metadata :: "string \<rightharpoonup> string"
  pc_observer :: "'w Observer option"

datatype EnqueueOption =
    WithID string
  | WithMetadataValue string string
  | WithDelay int
  | EnqueueWithQueue string
  | EnqueueWithMetadata "string \<rightharpoonup> string"

text \<open>Copying an empty map adds nothing, which is the early return of the metadata options.\<close>

fun applyEnqueue :: "EnqueueOption \<Rightarrow> enqueueConfig \<Rightarrow> enqueueConfig" where
  "applyEnqueue (WithID i) c = c\<lparr>ec_id := i\<rparr>"
| "applyEnqueue (WithMetadataValue key v) c = c\<lparr>ec_metadata := (ec_metadata c)(key \<mapsto> v)\<rparr>"
| "applyEnqueue (WithDelay delay) c = (if delay > 0 then c\<lparr>ec_delay := delay\<rparr> else c)"
| "applyEnqueue (EnqueueWithQueue name) c = (if name \<noteq> [] then c\<lparr>ec_queue := name\<rparr> else c)"
| "applyEnqueue (EnqueueWithMetadata metadata) c = c\<lparr>ec_metadata := ec_metadata c ++ metadata\<rparr>"

datatype 'w ProducerOption =
    ProducerWithQueue string
  | ProducerWithObserver "'w Observer option"
  | ProducerWithMetadata "string \<rightharpoonup> string"

fun applyProducer :: "'w ProducerOption \<Rightarrow> 'w producerConfig \<Rightarrow> 'w producerConfig" where
  "applyProducer (ProducerWithQueue name) c = (if name \<noteq> [] then c\<lparr>pc_queue := name\<rparr> else c)"
| "applyProducer (ProducerWithObserver observer) c = c\<lparr>pc_observer := observer\<rparr>"
| "applyProducer (ProducerWithMetadata metadata) c = c\<lparr>pc_metadata := pc_metadata c ++ metadata\<rparr>"

text \<open>
  \<open>newID\<close> prints 16 random bytes, or, when there are none, the bytes of the current UTC time in
  the layout \<open>RFC3339Nano\<close> of the standard library: the civil date of a day number, the time
  of day, and the fraction of a second without its trailing zeros.
\<close>

fun digits :: "nat \<Rightarrow> int \<Rightarrow> string" where
  "digits 0 n = []"
| "digits (Suc k) n = digits k (n div 10) @ [''0123456789'' ! nat (n mod 10)]"

definition civil_date :: "int \<Rightarrow> int \<times> int \<times> int" where
  "civil_date days =
     (let z = days + 719468; era = z div 146097; doe = z mod 146097;
          yoe = (doe - doe div 1460 + doe div 36524 - doe div 146096) div 365;
          doy = doe - (365 * yoe + yoe div 4 - yoe div 100);
          mp = (5 * doy + 2) div 153;
          d = doy - (153 * mp + 2) div 5 + 1;
          m = (if mp < 10 then mp + 3 else mp - 9)
      in (yoe + era * 400 + (if m \<le> 2 then 1 else 0), m, d))"

definition Format_RFC3339Nano :: "int \<Rightarrow> string" where
  "Format_RFC3339Nano t =
     (let (y, m, d) = civil_date (t div 86400000000000);
          s = t div 1000000000 mod 86400;
          frac = rev (dropWhile (\<lambda>c. c = CHR ''0'') (rev (digits 9 (t mod 1000000000))))
      in digits 4 y @ ''-'' @ digits 2 m @ ''-'' @ digits 2 d @ ''T'' @ digits 2 (s div 3600) @ '':'' @
         digits 2 (s div 60 mod 60) @ '':'' @ digits 2 (s mod 60) @
         (if frac = [] then [] else ''.'' @ frac) @ ''Z'')"

definition string_bytes :: "string \<Rightarrow> bytes" where
  "string_bytes s = map (\<lambda>c. word_of_nat (of_char c)) s"

definition newID :: "'w exec_env \<Rightarrow> 'w \<Rightarrow> string \<times> 'w" where
  "newID env w =
     (case rand_Read env w of
        (Inl _, w') \<Rightarrow> (hex_EncodeToString (string_bytes (Format_RFC3339Nano (env_now env w'))), w')
      | (Inr bs, w') \<Rightarrow> (hex_EncodeToString bs, w'))"

definition newEnqueueConfig ::
  "'w exec_env \<Rightarrow> string \<Rightarrow> (string \<rightharpoonup> string) \<Rightarrow> EnqueueOption list \<Rightarrow> 'w \<Rightarrow> enqueueConfig \<times> 'w" where
  "newEnqueueConfig env queueName metadata opts w =
     (let queueName = (if queueName = [] then DefaultQueue else queueName);
          c = \<lparr>ec_id = [], ec_queue = queueName, ec_metadata = metadata, ec_delay = 0\<rparr>;
          c = fold applyEnqueue opts c
      in if ec_id c = [] then (let (i, w1) = newID env w in (c\<lparr>ec_id := i\<rparr>, w1)) else (c, w))"

definition newProducerConfig :: "'w ProducerOption list \<Rightarrow> 'w producerConfig" where
  "newProducerConfig opts =
     fold applyProducer opts \<lparr>pc_queue = DefaultQueue, pc_metadata = Map.empty, pc_observer = None\<rparr>"

record 'w Producer =
  p_queue :: "'w Queue"
  p_queueName :: string
  p_metadata :: "string \<rightharpoonup> string"
  p_observer :: "'w Observer option"

definition NewProducer :: "'w Queue \<Rightarrow> 'w ProducerOption list \<Rightarrow> 'w Producer" where
  "NewProducer q opts =
     (let c = newProducerConfig opts
      in \<lparr>p_queue = q, p_queueName = pc_queue c, p_metadata = pc_metadata c, p_observer = pc_observer c\<rparr>)"

definition Producer_observe :: "'w Producer \<Rightarrow> 'w ctx \<Rightarrow> Event \<Rightarrow> 'w \<Rightarrow> 'w ctx \<times> 'w" where
  "Producer_observe p ctx event w =
     (case p_observer p of None \<Rightarrow> (ctx, w)
      | Some observer \<Rightarrow>
          (case observer ctx event w of
             (None, w') \<Rightarrow> (ctx, w')
           | (Some observedCtx, w') \<Rightarrow> (observedCtx, w')))"

definition Producer_Enqueue :: "'w exec_env \<Rightarrow> 'w Producer \<Rightarrow> 'w ctx \<Rightarrow> string \<Rightarrow> bytes \<Rightarrow>
    EnqueueOption list \<Rightarrow> 'w \<Rightarrow> (go_error + Task option) \<times> 'w" where
  "Producer_Enqueue env p ctx taskType payload opts w =
     (if taskType = [] then (Inl ErrInvalidTaskType, w)
      else
        let (c, w1) = newEnqueueConfig env (p_queueName p) (p_metadata p) opts w;
            now = env_now env w1;
            task = \<lparr>task_ID = ec_id c, task_Type = taskType, task_Queue = ec_queue c,
                    task_Payload = [] @ payload, task_Metadata = ec_metadata c, task_Attempt = 0,
                    task_CreatedAt = now, task_AvailableAt = now + ec_delay c\<rparr>;
            event = (\<lambda>kind. (event_of kind (task_Queue task) [] (taskInfo (Some task)))\<lparr>Delay := ec_delay c\<rparr>);
            (observeCtx, w2) = Producer_observe p ctx (event EventEnqueueStarted) w1
        in case q_Enqueue (p_queue p) observeCtx (Some task) w2 of
             (Some err, w3) \<Rightarrow>
               (let (_, w4) = Producer_observe p observeCtx ((event EventEnqueueFailed)\<lparr>Err := Some err\<rparr>) w3
                in (Inl err, w4))
           | (None, w3) \<Rightarrow>
               (let (_, w4) = Producer_observe p observeCtx (event EventEnqueued) w3
                in (Inr (Clone (Some task)), w4)))"

section \<open>Typed producers\<close>

definition EnqueueForWithCodec :: "'v codec \<Rightarrow> 'w exec_env \<Rightarrow> 'w ctx \<Rightarrow> 'w Producer option \<Rightarrow> string \<Rightarrow> 'v \<Rightarrow>
    'v codec option \<Rightarrow> EnqueueOption list \<Rightarrow> 'w \<Rightarrow> (go_error + Task option) \<times> 'w" where
  "EnqueueForWithCodec defaultCodec env ctx producer taskType payload codec opts w =
     (case producer of None \<Rightarrow> (Inl (Sentinel ''queue: producer is nil''), w)
      | Some producer \<Rightarrow>
          let codec = (case codec of None \<Rightarrow> defaultCodec | Some c \<Rightarrow> c)
          in case Marshal codec payload of
               Inl err \<Rightarrow> (Inl err, w)
             | Inr data \<Rightarrow> Producer_Enqueue env producer ctx taskType data opts w)"

definition EnqueueFor :: "'v codec \<Rightarrow> 'w exec_env \<Rightarrow> 'w ctx \<Rightarrow> 'w Producer option \<Rightarrow> string \<Rightarrow> 'v \<Rightarrow>
    EnqueueOption list \<Rightarrow> 'w \<Rightarrow> (go_error + Task option) \<times> 'w" where
  "EnqueueFor defaultCodec env ctx producer taskType payload opts w =
     EnqueueForWithCodec defaultCodec env ctx producer taskType payload (Some defaultCodec) opts w"

record 'w TaskProducer =
  tp_producer :: "'w Producer option"
  tp_taskType :: string

definition NewTaskProducer :: "'w Producer option \<Rightarrow> string \<Rightarrow> 'w TaskProducer" where
  "NewTaskProducer producer taskType = \<lparr>tp_producer = producer, tp_taskType = taskType\<rparr>"

definition TaskProducer_Enqueue :: "'v codec \<Rightarrow> 'w exec_env \<Rightarrow> 'w TaskProducer \<Rightarrow> 'w ctx \<Rightarrow> 'v \<Rightarrow>
    EnqueueOption list \<Rightarrow> 'w \<Rightarrow> (go_error + Task option) \<times> 'w" where
  "TaskProducer_Enqueue defaultCodec env p ctx payload opts w =
     EnqueueFor defaultCodec env ctx (tp_producer p) (tp_taskType p) payload opts w"

text \<open>A definition binds a task name and a codec (nil in the zero value).\<close>

record 'v Definition =
  def_taskType :: string
  def_codec :: "'v codec option"

definition WithCodec_applyDefinition :: "'v codec \<Rightarrow> 'v codec option \<Rightarrow> 'v codec \<Rightarrow> 'v codec" where
  "WithCodec_applyDefinition defaultCodec codec c = (case codec of None \<Rightarrow> defaultCodec | Some x \<Rightarrow> x)"

definition newDefinitionConfig :: "'v codec \<Rightarrow> 'v codec option list \<Rightarrow> 'v codec" where
  "newDefinitionConfig defaultCodec opts = fold (WithCodec_applyDefinition defaultCodec) opts defaultCodec"

definition Define :: "'v codec \<Rightarrow> string \<Rightarrow> 'v codec option list \<Rightarrow> 'v Definition" where
  "Define defaultCodec taskType opts =
     \<lparr>def_taskType = taskType, def_codec = Some (newDefinitionConfig defaultCodec opts)\<rparr>"

definition Definition_Enqueue :: "'v codec \<Rightarrow> 'w exec_env \<Rightarrow> 'v Definition \<Rightarrow> 'w ctx \<Rightarrow> 'w Producer option \<Rightarrow> 'v \<Rightarrow>
    EnqueueOption list \<Rightarrow> 'w \<Rightarrow> (go_error + Task option) \<times> 'w" where
  "Definition_Enqueue defaultCodec env d ctx producer payload opts w =
     (if def_taskType d = [] then (Inl ErrInvalidTaskType, w)
      else EnqueueForWithCodec defaultCodec env ctx producer (def_taskType d) payload (def_codec d) opts w)"

section \<open>What a producer stores\<close>

text \<open>What each option sets.\<close>

definition id_choice :: "EnqueueOption \<Rightarrow> string option" where
  "id_choice opt = (case opt of WithID i \<Rightarrow> Some i | _ \<Rightarrow> None)"

definition queue_choice :: "EnqueueOption \<Rightarrow> string option" where
  "queue_choice opt = (case opt of EnqueueWithQueue n \<Rightarrow> if n = [] then None else Some n | _ \<Rightarrow> None)"

definition delay_choice :: "EnqueueOption \<Rightarrow> int option" where
  "delay_choice opt = (case opt of WithDelay d \<Rightarrow> if d > 0 then Some d else None | _ \<Rightarrow> None)"

definition metadata_choice :: "string \<Rightarrow> EnqueueOption \<Rightarrow> string option option" where
  "metadata_choice k opt =
     (case opt of WithMetadataValue k' v \<Rightarrow> if k' = k then Some (Some v) else None
      | EnqueueWithMetadata md \<Rightarrow> (case md k of None \<Rightarrow> None | Some v \<Rightarrow> Some (Some v))
      | _ \<Rightarrow> None)"

lemmas choice_defs = id_choice_def queue_choice_def delay_choice_def metadata_choice_def

lemma fold_applyEnqueue:
  "ec_id (fold applyEnqueue opts c) = last_choice id_choice (ec_id c) opts"
  "ec_queue (fold applyEnqueue opts c) = last_choice queue_choice (ec_queue c) opts"
  "ec_delay (fold applyEnqueue opts c) = last_choice delay_choice (ec_delay c) opts"
  "ec_metadata (fold applyEnqueue opts c) k = last_choice (metadata_choice k) (ec_metadata c k) opts"
proof -
  show "ec_id (fold applyEnqueue opts c) = last_choice id_choice (ec_id c) opts"
    by (rule fold_last_choice) (simp add: choice_defs split: EnqueueOption.splits)
  show "ec_queue (fold applyEnqueue opts c) = last_choice queue_choice (ec_queue c) opts"
    by (rule fold_last_choice) (simp add: choice_defs split: EnqueueOption.splits)
  show "ec_delay (fold applyEnqueue opts c) = last_choice delay_choice (ec_delay c) opts"
    by (rule fold_last_choice) (simp add: choice_defs split: EnqueueOption.splits)
  show "ec_metadata (fold applyEnqueue opts c) k = last_choice (metadata_choice k) (ec_metadata c k) opts"
    by (rule fold_last_choice [where field = "\<lambda>c. ec_metadata c k"])
      (auto simp: choice_defs map_add_def split: EnqueueOption.splits option.splits)
qed

lemma last_choice_queue: "d \<noteq> [] \<Longrightarrow> last_choice queue_choice d opts \<noteq> []"
  by (induction opts rule: rev_induct)
    (simp_all add: last_choice_snoc queue_choice_def split: EnqueueOption.splits)

lemma last_choice_delay: "0 \<le> d \<Longrightarrow> 0 \<le> last_choice delay_choice d opts"
  by (induction opts rule: rev_induct)
    (simp_all add: last_choice_snoc delay_choice_def split: EnqueueOption.splits)

lemma newID_nonempty:
  assumes "rand_ok env"
  shows "fst (newID env w) \<noteq> []"
proof -
  have "string_bytes (Format_RFC3339Nano t) \<noteq> []" for t
    by (simp add: string_bytes_def Format_RFC3339Nano_def case_prod_unfold Let_def)
  then have "hex_EncodeToString bs \<noteq> [] \<longleftrightarrow> bs \<noteq> []" "hex_EncodeToString (string_bytes (Format_RFC3339Nano t)) \<noteq> []"
    for bs t by (metis hex_EncodeToString_inject length_0_conv length_hex mult_eq_0_iff zero_neq_numeral)+
  then show ?thesis using assms by (fastforce simp: newID_def rand_ok_def split: prod.splits sum.splits)
qed

text \<open>The task that a producer makes of its arguments; \<open>now\<close> is the clock.\<close>

definition made_from :: "'w Producer \<Rightarrow> string \<Rightarrow> bytes \<Rightarrow> EnqueueOption list \<Rightarrow> int \<Rightarrow> Task \<Rightarrow> bool" where
  "made_from p taskType payload opts now t \<longleftrightarrow>
     task_Type t = taskType \<and> task_Payload t = payload \<and> task_Attempt t = 0 \<and>
     task_ID t \<noteq> [] \<and> (last_choice id_choice [] opts \<noteq> [] \<longrightarrow> task_ID t = last_choice id_choice [] opts) \<and>
     task_Queue t = last_choice queue_choice (if p_queueName p = [] then DefaultQueue else p_queueName p) opts \<and>
     task_Queue t \<noteq> [] \<and>
     (\<forall>k. task_Metadata t k = last_choice (metadata_choice k) (p_metadata p k) opts) \<and>
     task_CreatedAt t = now \<and> task_AvailableAt t = now + last_choice delay_choice 0 opts \<and>
     now \<le> task_AvailableAt t"

lemma newEnqueueConfig_fields:
  assumes "newEnqueueConfig env queueName metadata opts w = (c, w1)"
    and "rand_ok env"
  shows "ec_id c \<noteq> []" "last_choice id_choice [] opts \<noteq> [] \<Longrightarrow> ec_id c = last_choice id_choice [] opts"
    "ec_queue c = last_choice queue_choice (if queueName = [] then DefaultQueue else queueName) opts"
    "ec_metadata c k = last_choice (metadata_choice k) (metadata k) opts"
    "ec_delay c = last_choice delay_choice 0 opts"
  using assms(1) newID_nonempty [OF assms(2), of w]
  by (auto simp: newEnqueueConfig_def fold_applyEnqueue Let_def split: if_splits prod.splits)

lemma Clone_Some [simp]: "Clone (Some t) = Some t"
  by (simp add: Clone_def)

lemma Producer_Enqueue_cases:
  assumes "Producer_Enqueue env p ctx taskType payload opts w = (r, w')" and "taskType \<noteq> []"
    and "rand_ok env"
  shows "\<exists>t ctx' w1 w2 e w3. made_from p taskType payload opts (env_now env w1) t \<and>
     q_Enqueue (p_queue p) ctx' (Some t) w2 = (e, w3) \<and>
     r = (case e of None \<Rightarrow> Inr (Some t) | Some err \<Rightarrow> Inl err) \<and>
     (p_observer p = None \<longrightarrow> ctx' = ctx \<and> w2 = w1 \<and> w' = w3)"
proof -
  obtain c w1 where c: "newEnqueueConfig env (p_queueName p) (p_metadata p) opts w = (c, w1)" by fastforce
  define t where "t = \<lparr>task_ID = ec_id c, task_Type = taskType, task_Queue = ec_queue c,
    task_Payload = payload, task_Metadata = ec_metadata c, task_Attempt = 0,
    task_CreatedAt = env_now env w1, task_AvailableAt = env_now env w1 + ec_delay c\<rparr>"
  have "DefaultQueue \<noteq> []" by (simp add: DefaultQueue_def)
  then have "made_from p taskType payload opts (env_now env w1) t"
    using newEnqueueConfig_fields [OF c assms(3)] last_choice_delay [of 0 opts]
    by (simp add: made_from_def t_def last_choice_queue)
  moreover define ev where "ev kind = (event_of kind (task_Queue t) [] (taskInfo (Some t)))\<lparr>Delay := ec_delay c\<rparr>" for kind
  obtain ctx' w2 where o: "Producer_observe p ctx (ev EventEnqueueStarted) w1 = (ctx', w2)" by fastforce
  moreover obtain e w3 where e: "q_Enqueue (p_queue p) ctx' (Some t) w2 = (e, w3)" by fastforce
  moreover have "r = (case e of None \<Rightarrow> Inr (Some t) | Some err \<Rightarrow> Inl err)"
    "p_observer p = None \<longrightarrow> w' = w3"
    using assms(1,2) c o e
    by (auto simp: Producer_Enqueue_def t_def ev_def Let_def Producer_observe_def
        split: option.splits prod.splits)
  moreover have "p_observer p = None \<longrightarrow> ctx' = ctx \<and> w2 = w1" using o by (auto simp: Producer_observe_def)
  ultimately show ?thesis by (intro exI [of _ t] exI [of _ ctx'] exI [of _ w1] exI [of _ w2] exI [of _ e] exI [of _ w3]) simp
qed

text \<open>C38. A producer refuses a task without a type. Otherwise it calls the queue once, with a task made
  of its arguments: the last option that sets the identifier, the queue, the delay or a metadata
  key wins over earlier ones and over the producer's defaults, the identifier and the queue are
  never empty and no task is available before it was created. It returns that task, or the
  error of the queue.\<close>

theorem Producer_Enqueue_stores:
  assumes "Producer_Enqueue env p ctx taskType payload opts w = (r, w')"
    and "rand_ok env"
  shows "if taskType = [] then r = Inl ErrInvalidTaskType \<and> w' = w
    else \<exists>t ctx' w1 w2 e w3. made_from p taskType payload opts (env_now env w1) t \<and>
      q_Enqueue (p_queue p) ctx' (Some t) w2 = (e, w3) \<and>
      r = (case e of None \<Rightarrow> Inr (Some t) | Some err \<Rightarrow> Inl err) \<and>
      (p_observer p = None \<longrightarrow> ctx' = ctx \<and> w2 = w1 \<and> w' = w3)"
proof (cases "taskType = []")
  case True
  then show ?thesis using assms(1) by (simp add: Producer_Enqueue_def)
next
  case False
  with Producer_Enqueue_cases [OF assms(1) False assms(2)] show ?thesis by simp
qed

text \<open>A queue that logs what it is given, in the world.\<close>

theorem Producer_Enqueue_stores_witness:
  defines "env \<equiv> \<lparr>env_now = (\<lambda>_. 5), rand_Read = (\<lambda>w. (Inr [1], w))\<rparr> :: Task list exec_env"
    and "p \<equiv> NewProducer \<lparr>q_Enqueue = (\<lambda>_ t w. (None, the t # w)), q_NewConsumer = (\<lambda>_ _ w. (Inl ErrNoTask, w))\<rparr>
      [ProducerWithMetadata [''k'' \<mapsto> ''default'', ''j'' \<mapsto> ''default'']]"
  shows "\<exists>t w'. Producer_Enqueue env p (\<lambda>_. None) ''mail'' [7]
      [WithDelay 10, WithMetadataValue ''k'' ''mine''] [] = (Inr (Some t), w') \<and> w' = [t] \<and>
    task_Queue t = ''default'' \<and> task_AvailableAt t = 15 \<and>
    task_Metadata t ''k'' = Some ''mine'' \<and> task_Metadata t ''j'' = Some ''default''"
proof -
  let ?opts = "[WithDelay 10, WithMetadataValue ''k'' ''mine'']"
  obtain r w' where e: "Producer_Enqueue env p (\<lambda>_. None) ''mail'' [7] ?opts [] = (r, w')" by fastforce
  have "rand_ok env" by (simp add: env_def rand_ok_def)
  from Producer_Enqueue_stores [OF e this]
  obtain t w1 w3 e' where "made_from p ''mail'' [7] ?opts 5 t" and
    "q_Enqueue (p_queue p) (\<lambda>_. None) (Some t) w1 = (e', w3)" and
    "r = (case e' of None \<Rightarrow> Inr (Some t) | Some err \<Rightarrow> Inl err)" and "w' = w3"
    by (auto simp: env_def p_def NewProducer_def newProducerConfig_def)
  moreover have "w' = [t]" if "r = Inr (Some t)" for t
    using e that by (auto simp: Producer_Enqueue_def newEnqueueConfig_def newID_def env_def p_def
        NewProducer_def newProducerConfig_def Producer_observe_def Let_def)
  ultimately show ?thesis using e
    by (auto simp: made_from_def p_def NewProducer_def newProducerConfig_def last_choice_def map_filter_def
        choice_defs DefaultQueue_def)
qed

end
