(* ===== verification/Queue_Worker.thy ===== *)
theory Queue_Worker
  imports Queue
begin

text \<open>
  The worker of package \<open>queue\<close> (\<open>src/queue/worker.go\<close>) and the panic recovery middleware
  (\<open>src/queue/middleware/recovery\<close>): options, the handling and settlement of one delivery, and
  the loop of one worker goroutine over any implementation of the queue interface. What the
  goroutines of \<open>Run\<close> and \<open>Stop\<close> do together is in theory \<open>Queue_Run\<close>.
\<close>

section \<open>Configuration\<close>

definition defaultConcurrency :: int where "defaultConcurrency = 1"
definition defaultRetryMaxAttempts :: int where "defaultRetryMaxAttempts = 3"
definition defaultRetryDelay :: int where "defaultRetryDelay = 1000000000"
definition defaultSettlementTimeout :: int where "defaultSettlementTimeout = 30 * 1000000000"

record 'w workerConfig =
  wc_queue :: string
  consumerName :: string
  concurrency :: int
  handlerTimeout :: int
  settlementTimeout :: int
  wc_maxAttempts :: int
  wc_backoff :: "'w Backoff"
  wc_retryIf :: "Task \<Rightarrow> go_error \<Rightarrow> bool"
  wc_observer :: "'w Observer option"
  wc_middleware :: "'w Middleware list"
  handlers :: "string \<rightharpoonup> 'w Handler"

datatype 'w WorkerOption =
    WithConsumerName string
  | WithConcurrency int
  | WithHandlerTimeout int
  | WithSettlementTimeout int
  | WithMaxAttempts int
  | WithBackoff "'w Backoff option"
  | WithRetryIf "(Task \<Rightarrow> go_error \<Rightarrow> bool) option"
  | WithMiddleware "'w Middleware list"
  | Handle string "'w Handler option"
  | WorkerWithQueue string
  | WorkerWithObserver "'w Observer option"

fun applyWorker :: "'w WorkerOption \<Rightarrow> 'w workerConfig \<Rightarrow> 'w workerConfig" where
  "applyWorker (WithConsumerName name) c = (if name \<noteq> [] then c\<lparr>consumerName := name\<rparr> else c)"
| "applyWorker (WithConcurrency n) c = (if n > 0 then c\<lparr>concurrency := n\<rparr> else c)"
| "applyWorker (WithHandlerTimeout timeout) c = (if timeout > 0 then c\<lparr>handlerTimeout := timeout\<rparr> else c)"
| "applyWorker (WithSettlementTimeout timeout) c =
     (if timeout > 0 then c\<lparr>settlementTimeout := timeout\<rparr> else c)"
| "applyWorker (WithMaxAttempts attempts) c = (if attempts \<ge> 1 then c\<lparr>wc_maxAttempts := attempts\<rparr> else c)"
| "applyWorker (WithBackoff b) c = (case b of Some strategy \<Rightarrow> c\<lparr>wc_backoff := strategy\<rparr> | None \<Rightarrow> c)"
| "applyWorker (WithRetryIf predicate) c = (case predicate of Some p \<Rightarrow> c\<lparr>wc_retryIf := p\<rparr> | None \<Rightarrow> c)"
| "applyWorker (WithMiddleware middleware) c = c\<lparr>wc_middleware := wc_middleware c @ middleware\<rparr>"
| "applyWorker (Handle taskType handler) c =
     (case handler of Some h \<Rightarrow> if taskType \<noteq> [] then c\<lparr>handlers := (handlers c)(taskType \<mapsto> h)\<rparr> else c
      | None \<Rightarrow> c)"
| "applyWorker (WorkerWithQueue name) c = (if name \<noteq> [] then c\<lparr>wc_queue := name\<rparr> else c)"
| "applyWorker (WorkerWithObserver observer) c = c\<lparr>wc_observer := observer\<rparr>"

definition newWorkerConfig :: "'w WorkerOption list \<Rightarrow> 'w workerConfig outcome" where
  "newWorkerConfig opts =
     (case Fixed defaultRetryDelay of Panic \<Rightarrow> Panic
      | Return strategy \<Rightarrow> Return (fold applyWorker opts
          \<lparr>wc_queue = DefaultQueue, consumerName = [], concurrency = defaultConcurrency, handlerTimeout = 0,
           settlementTimeout = defaultSettlementTimeout, wc_maxAttempts = defaultRetryMaxAttempts,
           wc_backoff = strategy, wc_retryIf = (\<lambda>_ _. True), wc_observer = None, wc_middleware = [],
           handlers = Map.empty\<rparr>))"

text \<open>Typed handlers decode the payload first.\<close>

definition HandleForWithCodec ::
  "'v codec \<Rightarrow> string \<Rightarrow> 'v codec option \<Rightarrow> ('w, 'v) HandlerFor option \<Rightarrow> 'w WorkerOption" where
  "HandleForWithCodec defaultCodec taskType codec handler =
     (case handler of None \<Rightarrow> Handle taskType None
      | Some handler \<Rightarrow>
          let codec = (case codec of None \<Rightarrow> defaultCodec | Some c \<Rightarrow> c)
          in Handle taskType (Some (\<lambda>ctx task w.
               case Unmarshal codec (task_Payload task) of
                 Inl err \<Rightarrow> (Returned (Some err), w)
               | Inr payload \<Rightarrow> handler ctx \<lparr>tf_Task = task, tf_Payload = payload\<rparr> w)))"

definition HandleFor :: "'v codec \<Rightarrow> string \<Rightarrow> ('w, 'v) HandlerFor option \<Rightarrow> 'w WorkerOption" where
  "HandleFor defaultCodec taskType handler = HandleForWithCodec defaultCodec taskType (Some defaultCodec) handler"

definition HandlePayloadWithCodec :: "'v codec \<Rightarrow> string \<Rightarrow> 'v codec option \<Rightarrow>
    ('w ctx \<Rightarrow> 'v \<Rightarrow> 'w \<Rightarrow> go_error option called \<times> 'w) option \<Rightarrow> 'w WorkerOption" where
  "HandlePayloadWithCodec defaultCodec taskType codec handler =
     (case handler of None \<Rightarrow> Handle taskType None
      | Some handler \<Rightarrow> HandleForWithCodec defaultCodec taskType codec
          (Some (\<lambda>ctx task w. handler ctx (tf_Payload task) w)))"

definition HandlePayload :: "'v codec \<Rightarrow> string \<Rightarrow>
    ('w ctx \<Rightarrow> 'v \<Rightarrow> 'w \<Rightarrow> go_error option called \<times> 'w) option \<Rightarrow> 'w WorkerOption" where
  "HandlePayload defaultCodec taskType handler =
     HandlePayloadWithCodec defaultCodec taskType (Some defaultCodec) handler"

definition HandleTasker :: "'v codec \<Rightarrow> ('w, 'v) Tasker option \<Rightarrow> 'w WorkerOption" where
  "HandleTasker defaultCodec tasker =
     (case tasker of None \<Rightarrow> Handle [] None
      | Some t \<Rightarrow> HandleFor defaultCodec (TaskType t) (Some (Tasker_Handle t)))"

definition Definition_Handle :: "'v codec \<Rightarrow> 'v Definition \<Rightarrow>
    ('w ctx \<Rightarrow> 'v \<Rightarrow> 'w \<Rightarrow> go_error option called \<times> 'w) option \<Rightarrow> 'w WorkerOption" where
  "Definition_Handle defaultCodec d handler =
     HandlePayloadWithCodec defaultCodec (def_taskType d) (def_codec d) handler"

definition Definition_HandleFor :: "'v codec \<Rightarrow> 'v Definition \<Rightarrow> ('w, 'v) HandlerFor option \<Rightarrow> 'w WorkerOption" where
  "Definition_HandleFor defaultCodec d handler =
     HandleForWithCodec defaultCodec (def_taskType d) (def_codec d) handler"

section \<open>Processing one delivery\<close>

definition observe :: "'w workerConfig \<Rightarrow> 'w ctx \<Rightarrow> Event \<Rightarrow> 'w \<Rightarrow> 'w ctx \<times> 'w" where
  "observe c ctx ev w =
     (case wc_observer c of None \<Rightarrow> (ctx, w)
      | Some observer \<Rightarrow>
          (case observer ctx ev w of
             (None, w') \<Rightarrow> (ctx, w')
           | (Some observedCtx, w') \<Rightarrow> (observedCtx, w')))"

definition event :: "'w workerConfig \<Rightarrow> EventKind \<Rightarrow> Task option \<Rightarrow> Event" where
  "event c kind task = event_of kind (wc_queue c) (consumerName c) (taskInfo task)"

definition settlementFailedEvent ::
  "'w workerConfig \<Rightarrow> Task option \<Rightarrow> SettlementAction \<Rightarrow> int \<Rightarrow> string \<Rightarrow> go_error \<Rightarrow> Event" where
  "settlementFailedEvent c task settlement delay reason err =
     (event c EventTaskSettlementFailed task)\<lparr>Settlement := settlement, Delay := delay, Reason := reason,
        Err := Some err\<rparr>"

text \<open>\<open>context.WithTimeout\<close>: the parent's error, or the deadline's once the clock has reached it. The
  deferred \<open>cancel\<close> comes after the last use of the context.\<close>

definition WithTimeout :: "'w exec_env \<Rightarrow> 'w ctx \<Rightarrow> int \<Rightarrow> 'w \<Rightarrow> 'w ctx" where
  "WithTimeout env ctx timeout w =
     (\<lambda>w'. case ctx w' of Some err \<Rightarrow> Some err
           | None \<Rightarrow> if env_now env w + timeout \<le> env_now env w' then Some DeadlineExceeded else None)"

definition withSettlementContext :: "'w exec_env \<Rightarrow> 'w workerConfig \<Rightarrow> 'w ctx \<Rightarrow>
    ('w ctx \<Rightarrow> 'w \<Rightarrow> go_error option \<times> 'w) \<Rightarrow> 'w \<Rightarrow> go_error option \<times> 'w" where
  "withSettlementContext env c ctx fn w =
     (if settlementTimeout c \<le> 0 then fn ctx w
      else fn (WithTimeout env ctx (settlementTimeout c) w) w)"

definition ack :: "'w exec_env \<Rightarrow> 'w workerConfig \<Rightarrow> 'w ctx \<Rightarrow> 'w Delivery \<Rightarrow> 'w \<Rightarrow> go_error option \<times> 'w" where
  "ack env c ctx delivery w =
     (case withSettlementContext env c ctx (\<lambda>ctx. d_Ack delivery ctx) w of
        (Some err, w1) \<Rightarrow>
          (let (_, w2) = observe c ctx (settlementFailedEvent c (d_Task delivery) SettlementAck 0 [] err) w1
           in (Some err, w2))
      | (None, w1) \<Rightarrow>
          (let (_, w2) = observe c ctx (event c EventTaskAcked (d_Task delivery)) w1 in (None, w2)))"

definition retry :: "'w exec_env \<Rightarrow> 'w workerConfig \<Rightarrow> 'w ctx \<Rightarrow> 'w Delivery \<Rightarrow> int \<Rightarrow> 'w \<Rightarrow>
    go_error option \<times> 'w" where
  "retry env c ctx delivery delay w =
     (case withSettlementContext env c ctx (\<lambda>ctx. d_Retry delivery ctx delay) w of
        (Some err, w1) \<Rightarrow>
          (let (_, w2) = observe c ctx (settlementFailedEvent c (d_Task delivery) SettlementRetry delay [] err) w1
           in (Some err, w2))
      | (None, w1) \<Rightarrow>
          (let (_, w2) = observe c ctx ((event c EventTaskRetried (d_Task delivery))
                 \<lparr>Settlement := SettlementRetry, Delay := delay\<rparr>) w1
           in (None, w2)))"

definition deadLetter :: "'w exec_env \<Rightarrow> 'w workerConfig \<Rightarrow> 'w ctx \<Rightarrow> 'w Delivery \<Rightarrow> string \<Rightarrow> 'w \<Rightarrow>
    go_error option \<times> 'w" where
  "deadLetter env c ctx delivery reason w =
     (case withSettlementContext env c ctx (\<lambda>ctx. d_DeadLetter delivery ctx reason) w of
        (Some err, w1) \<Rightarrow>
          (let (_, w2) = observe c ctx
                 (settlementFailedEvent c (d_Task delivery) SettlementDeadLetter 0 reason err) w1
           in (Some err, w2))
      | (None, w1) \<Rightarrow>
          (let (_, w2) = observe c ctx ((event c EventTaskDeadLettered (d_Task delivery))
                 \<lparr>Settlement := SettlementDeadLetter, Reason := reason\<rparr>) w1
           in (None, w2)))"

definition handle :: "'w exec_env \<Rightarrow> 'w workerConfig \<Rightarrow> 'w ctx \<Rightarrow> 'w Handler \<Rightarrow> Task \<Rightarrow> 'w \<Rightarrow>
    go_error option called \<times> 'w" where
  "handle env c ctx handler task w =
     (let handler = chain handler (wc_middleware c)
      in if handlerTimeout c \<le> 0 then handler ctx task w
         else handler (WithTimeout env ctx (handlerTimeout c) w) task w)"

text \<open>\<open>Error\<close> is the text of an error. A delivery without a task is a nil dereference (the loop passes
  none on).\<close>

definition process :: "(go_error \<Rightarrow> string) \<Rightarrow> 'w exec_env \<Rightarrow> 'w workerConfig \<Rightarrow> 'w ctx \<Rightarrow> 'w Delivery \<Rightarrow> 'w \<Rightarrow>
    go_error option called \<times> 'w" where
  "process Error env c ctx delivery w =
     (case d_Task delivery of None \<Rightarrow> (Panicked ''nil pointer dereference'', w)
      | Some task \<Rightarrow>
     (case handlers c (task_Type task) of
        None \<Rightarrow> apfst Returned (deadLetter env c ctx delivery ''queue: handler not found'' w)
      | Some handler \<Rightarrow>
          let (ctx, w) = observe c ctx (event c EventHandlerStarted (Some task)) w
          in case handle env c ctx handler task w of
               (Panicked v, w) \<Rightarrow> (Panicked v, w)
             | (Returned None, w) \<Rightarrow>
                 (let (ctx, w) = observe c ctx (event c EventHandlerSucceeded (Some task)) w
                  in apfst Returned (ack env c ctx delivery w))
             | (Returned (Some err), w) \<Rightarrow>
                 (let (ctx, w) = observe c ctx ((event c EventHandlerFailed (Some task))\<lparr>Err := Some err\<rparr>) w
                  in if errors_Is err ErrDiscard then apfst Returned (ack env c ctx delivery w)
                     else case deadLetterReason err of
                       Some reason \<Rightarrow> apfst Returned (deadLetter env c ctx delivery reason w)
                     | None \<Rightarrow>
                         if task_Attempt task \<ge> wc_maxAttempts c
                         then apfst Returned (deadLetter env c ctx delivery
                                (''queue: retry exhausted: '' @ Error err) w)
                         else case retryAfterDelay err of
                           Some retryAfter \<Rightarrow> apfst Returned (retry env c ctx delivery retryAfter w)
                         | None \<Rightarrow>
                             if \<not> wc_retryIf c task err
                             then apfst Returned (deadLetter env c ctx delivery (Error err) w)
                             else let (delay, w) = wc_backoff c (task_Attempt task) w
                                  in apfst Returned (retry env c ctx delivery (max delay 0) w))))"

section \<open>The worker loop\<close>

definition isStopError :: "go_error \<Rightarrow> bool" where
  "isStopError err \<longleftrightarrow> errors_Is err Canceled \<or> errors_Is err DeadlineExceeded"

definition isNormalStopError :: "'w ctx \<Rightarrow> go_error \<Rightarrow> 'w \<Rightarrow> bool" where
  "isNormalStopError ctx err w \<longleftrightarrow>
     isStopError err \<or> (errors_Is err ErrConsumerClosed \<and> ctx w \<noteq> None)"

partial_function (option) receive_loop :: "(go_error \<Rightarrow> string) \<Rightarrow> 'w exec_env \<Rightarrow> 'w workerConfig \<Rightarrow>
    'w ctx \<Rightarrow> 'w ctx \<Rightarrow> 'w ctx \<Rightarrow> 'w Consumer \<Rightarrow> 'w \<Rightarrow> (go_error option called \<times> 'w) option" where
  "receive_loop Error env c runCtx pollCtx handlerCtx consumer w =
     (if pollCtx w \<noteq> None then Some (Returned None, w)
      else case c_Receive consumer pollCtx w of
        None \<Rightarrow> None
      | Some (received, w1) \<Rightarrow>
          (case received of
             Inl err \<Rightarrow>
               if isNormalStopError pollCtx err w1 then Some (Returned None, w1)
               else Some (Returned (Some err), w1)
           | Inr None \<Rightarrow> receive_loop Error env c runCtx pollCtx handlerCtx consumer w1
           | Inr (Some delivery) \<Rightarrow>
               (case d_Task delivery of
                  None \<Rightarrow> receive_loop Error env c runCtx pollCtx handlerCtx consumer w1
                | Some task \<Rightarrow>
                    let w2 = snd (observe c handlerCtx (event c EventTaskReceived (Some task)) w1);
                        (r, w3) = process Error env c handlerCtx delivery w2
                    in case r of
                         Panicked v \<Rightarrow> Some (Panicked v, w3)
                       | Returned (Some err) \<Rightarrow>
                           if runCtx w3 \<noteq> None \<and> isStopError err then Some (Returned None, w3)
                           else Some (Returned (Some err), w3)
                       | Returned None \<Rightarrow>
                           receive_loop Error env c runCtx pollCtx handlerCtx consumer w3)))"

declare receive_loop.simps [code]

definition loop :: "(go_error \<Rightarrow> string) \<Rightarrow> 'w exec_env \<Rightarrow> 'w Queue \<Rightarrow> 'w workerConfig \<Rightarrow>
    'w ctx \<Rightarrow> 'w ctx \<Rightarrow> 'w ctx \<Rightarrow> 'w \<Rightarrow> (go_error option called \<times> 'w) option" where
  "loop Error env q c runCtx pollCtx handlerCtx w =
     (case q_NewConsumer q pollCtx \<lparr>cc_Queue = wc_queue c, cc_Name = consumerName c\<rparr> w of
        (Inl err, w1) \<Rightarrow>
          if isNormalStopError pollCtx err w1 then Some (Returned None, w1)
          else Some (Returned (Some err), w1)
      | (Inr consumer, w1) \<Rightarrow>
          map_option (\<lambda>(r, w2). (r, snd (c_Close consumer w2)))
            (receive_loop Error env c runCtx pollCtx handlerCtx consumer w1))"

section \<open>Recovery middleware\<close>

text \<open>
  The handler of recovered panics may panic itself. \<open>trace\<close> is the text of the stack trace, of which
  \<open>runtime.Stack\<close> writes as much as fits; the default handler prints to the log of the world.
  A nil task does not occur, as handlers take values.
\<close>

datatype log_arg = LogString string | LogInt int

type_synonym 'w recovery_HandlerFunc = "'w ctx \<Rightarrow> Task \<Rightarrow> string \<Rightarrow> string \<Rightarrow> 'w \<Rightarrow> unit called \<times> 'w"

definition DefaultHandler :: "(string \<Rightarrow> log_arg list \<Rightarrow> 'w \<Rightarrow> 'w) \<Rightarrow> 'w recovery_HandlerFunc" where
  "DefaultHandler log_Printf ctx task recovered stack w =
     (Returned (), log_Printf
        ''queue panic recovered: task_id=%s task_type=%s queue=%s attempt=%d recovered=%v\<newline>stack trace:\<newline>%s''
        [LogString (task_ID task), LogString (task_Type task), LogString (task_Queue task),
         LogInt (task_Attempt task), LogString recovered, LogString stack] w)"

record 'w recovery_config =
  rc_handler :: "'w recovery_HandlerFunc"
  stackSize :: int

datatype 'w recovery_Option =
    WithHandler "'w recovery_HandlerFunc option"
  | WithStackSize int

fun recovery_apply :: "'w recovery_Option \<Rightarrow> 'w recovery_config \<Rightarrow> 'w recovery_config" where
  "recovery_apply (WithHandler handler) c = (case handler of Some h \<Rightarrow> c\<lparr>rc_handler := h\<rparr> | None \<Rightarrow> c)"
| "recovery_apply (WithStackSize n) c = (if n > 0 then c\<lparr>stackSize := n\<rparr> else c)"

definition recovery_newConfig ::
  "(string \<Rightarrow> log_arg list \<Rightarrow> 'w \<Rightarrow> 'w) \<Rightarrow> 'w recovery_Option list \<Rightarrow> 'w recovery_config" where
  "recovery_newConfig log_Printf opts =
     fold recovery_apply opts \<lparr>rc_handler = DefaultHandler log_Printf, stackSize = 4 * 1024\<rparr>"

definition recovery_New :: "(string \<Rightarrow> log_arg list \<Rightarrow> 'w \<Rightarrow> 'w) \<Rightarrow> string \<Rightarrow> 'w recovery_Option list \<Rightarrow>
    'w Middleware" where
  "recovery_New log_Printf trace opts =
     (let c = recovery_newConfig log_Printf opts
      in (\<lambda>next ctx task w.
           case next ctx task w of
             (Returned err, w1) \<Rightarrow> (Returned err, w1)
           | (Panicked recovered, w1) \<Rightarrow>
               (let stack = take (nat (stackSize c)) trace
                in case rc_handler c ctx task recovered stack w1 of
                     (Panicked v, w2) \<Rightarrow> (Panicked v, w2)
                   | (Returned _, w2) \<Rightarrow>
                       (Returned (Some (Sentinel (''queue handler panic recovered: '' @ recovered))), w2))))"

section \<open>The contract of the worker\<close>

text \<open>What the documentation says a worker does with a task once its handler has returned \<open>err\<close>;
  \<open>delay\<close> is the delay of the backoff strategy.\<close>

datatype settlement = Acked | Retried int | DeadLettered string

definition decision :: "(go_error \<Rightarrow> string) \<Rightarrow> 'w workerConfig \<Rightarrow> Task \<Rightarrow> go_error option \<Rightarrow> int \<Rightarrow> settlement" where
  "decision Error c task err delay =
     (case err of None \<Rightarrow> Acked
      | Some err \<Rightarrow>
          if errors_Is err ErrDiscard then Acked
          else case deadLetterReason err of Some reason \<Rightarrow> DeadLettered reason
          | None \<Rightarrow>
              if wc_maxAttempts c \<le> task_Attempt task
              then DeadLettered (''queue: retry exhausted: '' @ Error err)
              else case retryAfterDelay err of Some d \<Rightarrow> Retried d
              | None \<Rightarrow> if wc_retryIf c task err then Retried (max delay 0) else DeadLettered (Error err))"

text \<open>What a settlement does to the waiting and to the dead tasks of every queue.\<close>

type_synonym qview = "(string \<Rightarrow> Task multiset) \<times> (string \<Rightarrow> Task multiset)"

fun moved :: "settlement \<Rightarrow> Task \<Rightarrow> int \<Rightarrow> qview \<Rightarrow> qview" where
  "moved Acked t now v = v"
| "moved (Retried d) t now (P, D) =
     (P(task_Queue t := add_mset (t\<lparr>task_AvailableAt := now + d\<rparr>) (P (task_Queue t))), D)"
| "moved (DeadLettered reason) t now (P, D) =
     (P, D(task_Queue t := add_mset
        (t\<lparr>task_Metadata := (task_Metadata t)(''queue.dead_letter.reason'' \<mapsto> reason)\<rparr>) (D (task_Queue t))))"

definition settle :: "'w exec_env \<Rightarrow> 'w workerConfig \<Rightarrow> 'w ctx \<Rightarrow> 'w Delivery \<Rightarrow> settlement \<Rightarrow> 'w \<Rightarrow>
    go_error option \<times> 'w" where
  "settle env c ctx delivery s w =
     (case s of Acked \<Rightarrow> ack env c ctx delivery w
      | Retried delay \<Rightarrow> retry env c ctx delivery delay w
      | DeadLettered reason \<Rightarrow> deadLetter env c ctx delivery reason w)"

text \<open>Observers and backoff strategies do not touch the queue, nor set back the clock.\<close>

definition quiet :: "'w exec_env \<Rightarrow> ('w \<Rightarrow> qview) \<Rightarrow> 'w workerConfig \<Rightarrow> bool" where
  "quiet env view c \<longleftrightarrow>
     (\<forall>obs ctx e w. wc_observer c = Some obs \<longrightarrow>
        view (snd (obs ctx e w)) = view w \<and> env_now env w \<le> env_now env (snd (obs ctx e w))) \<and>
     (\<forall>n w. view (snd (wc_backoff c n w)) = view w \<and> env_now env w \<le> env_now env (snd (wc_backoff c n w)))"

text \<open>One delivery: the handler runs once and the task is settled once, as decided, or the panic of the
  handler or the error of the context is passed on and the queue left as it is.\<close>

definition processed :: "'w exec_env \<Rightarrow> ('w \<Rightarrow> qview) \<Rightarrow> (go_error \<Rightarrow> string) \<Rightarrow>
    'w workerConfig \<Rightarrow> Task \<Rightarrow> 'w \<Rightarrow> go_error option called \<Rightarrow> 'w \<Rightarrow> bool" where
  "processed env view Error c t w res w' \<longleftrightarrow>
     (case handlers c (task_Type t) of
        None \<Rightarrow> \<exists>r now. res = Returned r \<and> view w' =
          (if r = None then moved (DeadLettered ''queue: handler not found'') t now (view w) else view w)
      | Some h \<Rightarrow> \<exists>ctx1 w1 hr w2. view w1 = view w \<and> handle env c ctx1 h t w1 = (hr, w2) \<and>
          (case hr of
             Panicked v \<Rightarrow> res = Panicked v \<and> w' = w2
           | Returned err \<Rightarrow> \<exists>r now delay. res = Returned r \<and> env_now env w2 \<le> now \<and>
               (\<exists>w3. delay = fst (wc_backoff c (task_Attempt t) w3)) \<and>
               view w' = (if r = None then moved (decision Error c t err delay) t now (view w2) else view w2)))"

lemma apfst_eq_iff: "apfst f p = (a, b) \<longleftrightarrow> (\<exists>r. a = f r \<and> p = (r, b))"
  by (cases p) auto

lemma process_decision:
  assumes "d_Task delivery = Some task" and "handlers c (task_Type task) = Some h"
    and "observe c ctx (event c EventHandlerStarted (Some task)) w = (ctx1, w1)"
  shows "process Error env c ctx delivery w =
    (case handle env c ctx1 h task w1 of
       (Panicked v, w2) \<Rightarrow> (Panicked v, w2)
     | (Returned err, w2) \<Rightarrow>
         let (ctx2, w3) = observe c ctx1 ((event c (if err = None then EventHandlerSucceeded else EventHandlerFailed)
                (Some task))\<lparr>Err := err\<rparr>) w2;
             (delay, w4) = wc_backoff c (task_Attempt task) w3;
             s = decision Error c task err delay;
             backed = (\<exists>e. err = Some e \<and> \<not> errors_Is e ErrDiscard \<and> deadLetterReason e = None \<and>
                task_Attempt task < wc_maxAttempts c \<and> retryAfterDelay e = None \<and> wc_retryIf c task e)
         in apfst Returned (settle env c ctx2 delivery s (if backed then w4 else w3)))"
proof -
  have "(event c EventHandlerSucceeded (Some task))\<lparr>Err := None\<rparr> = event c EventHandlerSucceeded (Some task)"
    by (simp add: event_def event_of_def)
  then show ?thesis using assms
    by (auto simp: process_def decision_def settle_def not_le Let_def
        split: prod.splits called.splits option.splits)
qed

locale task_queue =
  fixes deliver :: "Task \<Rightarrow> 'w Delivery"
    and env :: "'w exec_env"
    and view :: "'w \<Rightarrow> qview"
  assumes deliver_Task: "d_Task (deliver t) = Some t"
    and Ack_law: "d_Ack (deliver t) ctx w = (r, w') \<Longrightarrow>
      r = ctx w \<and> view w' = view w \<and> env_now env w' = env_now env w"
    and Retry_law: "task_Queue t \<noteq> [] \<Longrightarrow> d_Retry (deliver t) ctx d w = (r, w') \<Longrightarrow>
      r = ctx w \<and> view w' = (if r = None then moved (Retried d) t (env_now env w) (view w) else view w) \<and>
      env_now env w' = env_now env w"
    and DeadLetter_law: "task_Queue t \<noteq> [] \<Longrightarrow> d_DeadLetter (deliver t) ctx reason w = (r, w') \<Longrightarrow>
      r = ctx w \<and>
      view w' = (if r = None then moved (DeadLettered reason) t (env_now env w) (view w) else view w) \<and>
      env_now env w' = env_now env w"
begin

lemma observe_quiet:
  assumes "quiet env view c" and "observe c ctx e w = (ctx', w')"
  shows "view w' = view w \<and> env_now env w \<le> env_now env w'"
proof (cases "wc_observer c")
  case None
  then show ?thesis using assms(2) by (simp add: observe_def)
next
  case (Some obs)
  with assms(1) have "view (snd (obs ctx e w)) = view w \<and> env_now env w \<le> env_now env (snd (obs ctx e w))"
    by (simp add: quiet_def)
  then show ?thesis using assms(2) Some by (auto simp: observe_def split: prod.splits option.splits)
qed

lemma backoff_quiet:
  "quiet env view c \<Longrightarrow> wc_backoff c n w = (d, w') \<Longrightarrow> view w' = view w \<and> env_now env w \<le> env_now env w'"
  unfolding quiet_def by (metis snd_conv)

text \<open>A fresh timeout has not passed yet: the settlement sees the error of the handler's context.\<close>

lemma settlement_context:
  "\<exists>ctx'. withSettlementContext env c ctx fn w = fn ctx' w \<and> ctx' w = ctx w"
proof (cases "settlementTimeout c \<le> 0")
  case True
  then show ?thesis by (auto simp: withSettlementContext_def)
next
  case False
  then have "WithTimeout env ctx (settlementTimeout c) w w = ctx w"
    by (simp add: WithTimeout_def split: option.splits)
  with False show ?thesis by (auto simp: withSettlementContext_def)
qed

lemma settle_moves:
  assumes "quiet env view c" and "task_Queue t \<noteq> []" and "settle env c ctx (deliver t) s w = (r, w')"
  shows "r = ctx w \<and> view w' = (if r = None then moved s t (env_now env w) (view w) else view w)"
proof (cases s)
  case Acked
  obtain ctx' where ctx': "withSettlementContext env c ctx (d_Ack (deliver t)) w = d_Ack (deliver t) ctx' w"
    "ctx' w = ctx w" using settlement_context by blast
  then show ?thesis
    using assms(3) observe_quiet [OF assms(1)] Ack_law [of t ctx' w] Acked
    by (fastforce simp: settle_def ack_def split: prod.splits option.splits)
next
  case (Retried d)
  obtain ctx' where ctx': "withSettlementContext env c ctx (\<lambda>x. d_Retry (deliver t) x d) w = d_Retry (deliver t) ctx' d w"
    "ctx' w = ctx w" using settlement_context [where fn = "\<lambda>x. d_Retry (deliver t) x d"] by blast
  then show ?thesis
    using assms(3) observe_quiet [OF assms(1)] Retry_law [OF assms(2), of ctx' d w] Retried
    by (fastforce simp: settle_def retry_def split: prod.splits option.splits)
next
  case (DeadLettered reason)
  obtain ctx' where ctx': "withSettlementContext env c ctx (\<lambda>x. d_DeadLetter (deliver t) x reason) w =
    d_DeadLetter (deliver t) ctx' reason w"
    "ctx' w = ctx w" using settlement_context [where fn = "\<lambda>x. d_DeadLetter (deliver t) x reason"] by blast
  then show ?thesis
    using assms(3) observe_quiet [OF assms(1)] DeadLetter_law [OF assms(2), of ctx' reason w] DeadLettered
    by (fastforce simp: settle_def deadLetter_def split: prod.splits option.splits)
qed

lemma process_processed:
  assumes q: "quiet env view c" and t: "task_Queue t \<noteq> []"
    and p: "process Error env c ctx (deliver t) w = (res, w')"
  shows "processed env view Error c t w res w'"
proof (cases "handlers c (task_Type t)")
  case None
  then have "apfst Returned (settle env c ctx (deliver t) (DeadLettered ''queue: handler not found'') w) = (res, w')"
    using p by (simp add: process_def deliver_Task settle_def)
  then obtain r where "res = Returned r"
    "settle env c ctx (deliver t) (DeadLettered ''queue: handler not found'') w = (r, w')"
    by (auto simp: apfst_eq_iff)
  with settle_moves [OF q t] None show ?thesis unfolding processed_def by auto
next
  case (Some h)
  obtain ctx1 w1 where o: "observe c ctx (event c EventHandlerStarted (Some t)) w = (ctx1, w1)" by fastforce
  obtain hr w2 where h: "handle env c ctx1 h t w1 = (hr, w2)" by fastforce
  note eq = process_decision [OF deliver_Task Some o, of Error env]
  have w1: "view w1 = view w" using observe_quiet [OF q o] by simp
  show ?thesis
  proof (cases hr)
    case (Panicked v)
    then have "res = Panicked v \<and> w' = w2" using p h eq by simp
    then show ?thesis using Some h w1 Panicked unfolding processed_def by fastforce
  next
    case (Returned err)
    obtain ctx2 w3 where o2: "observe c ctx1 ((event c (if err = None then EventHandlerSucceeded
      else EventHandlerFailed) (Some t))\<lparr>Err := err\<rparr>) w2 = (ctx2, w3)" by fastforce
    obtain delay w4 where b: "wc_backoff c (task_Attempt t) w3 = (delay, w4)" by fastforce
    define s where "s = decision Error c t err delay"
    obtain w5 where w5: "w5 = w3 \<or> w5 = w4" and
      "apfst Returned (settle env c ctx2 (deliver t) s w5) = (res, w')"
      using p h eq o2 b Returned by (auto simp: s_def Let_def split: if_splits)
    then obtain r where r: "res = Returned r" "settle env c ctx2 (deliver t) s w5 = (r, w')"
      by (auto simp: apfst_eq_iff)
    have "view w5 = view w2 \<and> env_now env w2 \<le> env_now env w5"
      using observe_quiet [OF q o2] backoff_quiet [OF q b] w5 by auto
    moreover have "view w' = (if r = None then moved s t (env_now env w5) (view w5) else view w5)"
      using settle_moves [OF q t r(2)] by simp
    moreover have "delay = fst (wc_backoff c (task_Attempt t) w3)" using b by simp
    ultimately have "\<exists>r now delay. res = Returned r \<and> env_now env w2 \<le> now \<and>
      (\<exists>w3. delay = fst (wc_backoff c (task_Attempt t) w3)) \<and>
      view w' = (if r = None then moved (decision Error c t err delay) t now (view w2) else view w2)"
      using r(1) unfolding s_def by metis
    with h w1 Returned show ?thesis unfolding processed_def Some option.case
      by (intro exI [of _ ctx1] exI [of _ w1] exI [of _ hr] exI [of _ w2]) simp
  qed
qed

end

section \<open>Panics\<close>

lemma chain_Cons: "chain h (m # ms) = m (chain h ms)"
  by (simp add: chain_def)

lemma recovery_New_Panicked:
  assumes "\<And>ctx t v s w. \<exists>w'. rc_handler (recovery_newConfig log_Printf opts) ctx t v s w = (Returned (), w')"
    and "next ctx t w = (Panicked v, w1)"
  shows "\<exists>w2. recovery_New log_Printf trace opts next ctx t w =
    (Returned (Some (Sentinel (''queue handler panic recovered: '' @ v))), w2)"
  using assms(2) assms(1) [of ctx t v "take (nat (stackSize (recovery_newConfig log_Printf opts))) trace" w1]
  by (auto simp: recovery_New_def Let_def)

lemma recovery_New_Returned:
  assumes "\<And>ctx t v s w. \<exists>w'. rc_handler (recovery_newConfig log_Printf opts) ctx t v s w = (Returned (), w')"
  shows "\<exists>r w2. recovery_New log_Printf trace opts next ctx t w = (Returned r, w2)"
proof (cases "next ctx t w")
  case (Pair a w1)
  then show ?thesis
  proof (cases a)
    case (Panicked v)
    with Pair recovery_New_Panicked [of log_Printf opts "next" ctx t w v w1, OF assms] show ?thesis by blast
  qed (simp add: recovery_New_def Let_def)
qed

text \<open>C18. With the recovery middleware outermost, and a recovery handler that returns, no panic of a
  handler or of an inner middleware leaves \<open>process\<close>: the delivery is settled and the worker goes on.
  A panic counts as a failed attempt: the task is never acknowledged, but retried while attempts
  are left and the retry predicate agrees, and dead-lettered otherwise.\<close>

theorem recovery_settles_panics:
  assumes "wc_middleware c = recovery_New log_Printf trace opts # ms"
    and "\<And>ctx t v s w. \<exists>w'. rc_handler (recovery_newConfig log_Printf opts) ctx t v s w = (Returned (), w')"
    and "d_Task d = Some t"
  shows "(\<exists>r w'. process Error env c ctx d w = (Returned r, w')) \<and>
    (chain h ms ctx' t w1 = (Panicked v, w2) \<longrightarrow>
      (\<exists>w3 err. chain h (wc_middleware c) ctx' t w1 = (Returned (Some err), w3) \<and>
        decision Error c t (Some err) delay =
          (if wc_maxAttempts c \<le> task_Attempt t then DeadLettered (''queue: retry exhausted: '' @ Error err)
           else if wc_retryIf c t err then Retried (max delay 0) else DeadLettered (Error err))))"
proof (intro conjI impI)
  have ret: "\<exists>r w2. chain g (wc_middleware c) ctx t w = (Returned r, w2)" for g ctx t w
    using recovery_New_Returned [OF assms(2)] assms(1) by (simp add: chain_Cons)
  have "\<exists>r w2. handle env c ctx g t w = (Returned r, w2)" for g ctx w
    by (cases "handlerTimeout c \<le> 0") (simp_all add: handle_def ret)
  then show "\<exists>r w'. process Error env c ctx d w = (Returned r, w')"
  proof (cases "handlers c (task_Type t)")
    case (Some g)
    obtain ctx1 w1 where o: "observe c ctx (event c EventHandlerStarted (Some t)) w = (ctx1, w1)" by fastforce
    obtain r w2 where "handle env c ctx1 g t w1 = (Returned r, w2)"
      using \<open>\<And>w g ctx. \<exists>r w2. handle env c ctx g t w = (Returned r, w2)\<close> by blast
    then show ?thesis using process_decision [OF assms(3) Some o, of Error env]
      by (auto simp: apfst_eq_iff Let_def split: prod.splits)
  qed (auto simp: process_def assms(3) apfst_eq_iff split: prod.splits)
next
  assume "chain h ms ctx' t w1 = (Panicked v, w2)"
  with recovery_New_Panicked [OF assms(2)] assms(1)
  obtain w3 where "chain h (wc_middleware c) ctx' t w1 =
      (Returned (Some (Sentinel (''queue handler panic recovered: '' @ v))), w3)"
    by (metis chain_Cons)
  then show "\<exists>w3 err. chain h (wc_middleware c) ctx' t w1 = (Returned (Some err), w3) \<and>
        decision Error c t (Some err) delay =
          (if wc_maxAttempts c \<le> task_Attempt t then DeadLettered (''queue: retry exhausted: '' @ Error err)
           else if wc_retryIf c t err then Retried (max delay 0) else DeadLettered (Error err))"
    by (auto simp: decision_def ErrDiscard_def deadLetterReason_def retryAfterDelay_def)
qed

text \<open>A configuration without options but for its delays, and one with a handler that panics.\<close>

definition plain_config :: "'w workerConfig" where
  "plain_config = \<lparr>wc_queue = DefaultQueue, consumerName = [], concurrency = 1, handlerTimeout = 0,
     settlementTimeout = 5, wc_maxAttempts = 3, wc_backoff = (\<lambda>_ w. (7, w)), wc_retryIf = (\<lambda>_ _. True),
     wc_observer = None, wc_middleware = [], handlers = Map.empty\<rparr>"

definition panicking_config :: "unit workerConfig" where
  "panicking_config = fold applyWorker
     [Handle ''mail'' (Some (\<lambda>_ _ w. (Panicked ''boom'', w))), WithMiddleware [recovery_New (\<lambda>_ _ w. w) ''trace'' []]]
     plain_config"

theorem recovery_settles_panics_witness:
  defines "t \<equiv> \<lparr>task_ID = ''1'', task_Type = ''mail'', task_Queue = ''default'', task_Payload = [],
    task_Metadata = Map.empty, task_Attempt = 1, task_CreatedAt = 0, task_AvailableAt = 0\<rparr>"
    and "env \<equiv> \<lparr>env_now = (\<lambda>_. 5), rand_Read = (\<lambda>w. (Inr [1], w))\<rparr> :: unit exec_env"
  shows "(\<exists>r. process (\<lambda>_. []) env panicking_config (\<lambda>_. None) (NewDelivery (Some t)) () = (Returned r, ())) \<and>
    (\<exists>err. chain (\<lambda>_ _ w. (Panicked ''boom'', w)) (wc_middleware panicking_config) (\<lambda>_. None) t () =
      (Returned (Some err), ()) \<and> decision (\<lambda>_. []) panicking_config t (Some err) 7 = Retried 7)"
proof -
  have m: "wc_middleware panicking_config = recovery_New (\<lambda>_ _ w. w) ''trace'' [] # []"
    by (simp add: panicking_config_def plain_config_def)
  have h: "\<exists>w'. rc_handler (recovery_newConfig (\<lambda>_ _ w. w) []) ctx t v s w = (Returned (), w')"
    for ctx t v s and w :: unit by (simp add: recovery_newConfig_def DefaultHandler_def)
  have d: "d_Task (NewDelivery (Some t) :: unit Delivery) = Some t" by (simp add: NewDelivery_def)
  have p: "chain (\<lambda>_ _ w. (Panicked ''boom'', w)) [] (\<lambda>_. None) t () = (Panicked ''boom'', ())"
    by (simp add: chain_def)
  show ?thesis
    using recovery_settles_panics [OF m h d, of "\<lambda>_. []" env "\<lambda>_. None" "()"
        "\<lambda>_ _ w. (Panicked ''boom'', w)" "\<lambda>_. None" "()" "''boom''" "()" 7] p
    by (auto simp: panicking_config_def plain_config_def t_def)
qed

end
