(* ===== verification/Queue_Memory.thy ===== *)
theory Queue_Memory
  imports Queue_Worker
begin

text \<open>
  The in-memory queue (\<open>src/queue/adapter/memory/queue.go\<close>). The mutex makes every operation a step
  on the queue of the world. The slices of stored tasks are lists, per queue name; \<open>notify\<close> is the
  number of the current notification channel (an older one is closed). Which ready case a
  \<open>select\<close> takes, and what other goroutines do while it waits, is a parameter.
\<close>

section \<open>The queue\<close>

record mqueue =
  queues :: "string \<Rightarrow> Task list"
  deadLetters :: "string \<Rightarrow> Task list"
  notify :: nat

text \<open>The queue reads the clock of the world it lives in. \<open>qw_consumers\<close> numbers the consumers,
  \<open>qw_closed\<close> are those whose \<open>done\<close> channel is closed; \<open>qw_rest\<close> is everything else.\<close>

record 'x qworld =
  qw_clock :: int
  qw_queue :: mqueue
  qw_consumers :: nat
  qw_closed :: "nat list"
  qw_rest :: 'x

definition NewQueue :: mqueue where
  "NewQueue = \<lparr>queues = (\<lambda>_. []), deadLetters = (\<lambda>_. []), notify = 0\<rparr>"

definition signal :: "mqueue \<Rightarrow> mqueue" where
  "signal q = q\<lparr>notify := notify q + 1\<rparr>"

definition Enqueue :: "'x qworld ctx \<Rightarrow> Task option \<Rightarrow> 'x qworld \<Rightarrow> go_error option \<times> 'x qworld" where
  "Enqueue ctx task w =
     (case ctx w of Some err \<Rightarrow> (Some err, w)
      | None \<Rightarrow>
          (case Clone task of None \<Rightarrow> (None, w)
           | Some task \<Rightarrow>
               let task = (if task_Queue task = [] then task\<lparr>task_Queue := DefaultQueue\<rparr> else task);
                   q = qw_queue w;
                   q = q\<lparr>queues := (queues q)(task_Queue task := queues q (task_Queue task) @ [task])\<rparr>
               in (None, w\<lparr>qw_queue := signal q\<rparr>)))"

text \<open>The loop of \<open>next\<close> over the slice: \<open>seen\<close> is the part before the current index. The result is
  the task and the slice without it, or the shortest delay.\<close>

fun next_loop :: "int \<Rightarrow> Task list \<Rightarrow> Task list \<Rightarrow> int \<Rightarrow> (Task \<times> Task list) option \<times> int" where
  "next_loop now seen [] wt = (None, wt)"
| "next_loop now seen (task # tasks) wt =
     (if task_AvailableAt task > now
      then let delay = time_Sub (task_AvailableAt task) now
           in next_loop now (seen @ [task]) tasks (if wt = 0 \<or> delay < wt then delay else wt)
      else (Some (task, seen @ tasks), 0))"

definition next_task :: "string \<Rightarrow> 'x qworld \<Rightarrow> (Task option \<times> nat \<times> int) \<times> 'x qworld" where
  "next_task queueName w =
     (let now = qw_clock w; q = qw_queue w
      in case next_loop now [] (queues q queueName) 0 of
           (Some (task, rest), wt) \<Rightarrow>
             (let q = q\<lparr>queues := (queues q)(queueName := rest)\<rparr>;
                  task = task\<lparr>task_Attempt := i64 (task_Attempt task + 1)\<rparr>
              in ((Some task, notify q, 0), w\<lparr>qw_queue := q\<rparr>))
         | (None, wt) \<Rightarrow> ((None, notify q, wt), w))"

definition DeadLetters :: "mqueue \<Rightarrow> string \<Rightarrow> Task list" where
  "DeadLetters q queueName =
     (let queueName = (if queueName = [] then DefaultQueue else queueName)
      in List.map_filter (\<lambda>task. Clone (Some task)) (deadLetters q queueName))"

section \<open>Deliveries\<close>

definition delivery_Ack :: "'x qworld ctx \<Rightarrow> 'x qworld \<Rightarrow> go_error option \<times> 'x qworld" where
  "delivery_Ack ctx w = (ctx w, w)"

definition delivery_Retry ::
  "Task option \<Rightarrow> 'x qworld ctx \<Rightarrow> int \<Rightarrow> 'x qworld \<Rightarrow> go_error option \<times> 'x qworld" where
  "delivery_Retry d_task ctx delay w =
     (case ctx w of Some err \<Rightarrow> (Some err, w)
      | None \<Rightarrow>
          (case Clone d_task of None \<Rightarrow> (None, w)
           | Some task \<Rightarrow> Enqueue ctx (Some (task\<lparr>task_AvailableAt := qw_clock w + delay\<rparr>)) w))"

definition delivery_DeadLetter ::
  "Task option \<Rightarrow> 'x qworld ctx \<Rightarrow> string \<Rightarrow> 'x qworld \<Rightarrow> go_error option \<times> 'x qworld" where
  "delivery_DeadLetter d_task ctx reason w =
     (case ctx w of Some err \<Rightarrow> (Some err, w)
      | None \<Rightarrow>
          (case Clone d_task of None \<Rightarrow> (None, w)
           | Some task \<Rightarrow>
               let task = task\<lparr>task_Metadata := (task_Metadata task)(''queue.dead_letter.reason'' \<mapsto> reason)\<rparr>;
                   q = qw_queue w
               in (None, w\<lparr>qw_queue := q\<lparr>deadLetters := (deadLetters q)
                     (task_Queue task := deadLetters q (task_Queue task) @ [task])\<rparr>\<rparr>)))"

definition delivery :: "Task \<Rightarrow> 'x qworld Delivery" where
  "delivery task = \<lparr>d_Task = Some task, d_Ack = delivery_Ack, d_Retry = delivery_Retry (Some task),
     d_DeadLetter = delivery_DeadLetter (Some task)\<rparr>"

section \<open>Consumers\<close>

datatype selected = CtxDone | ConsumerDone | Notified | TimerFired

text \<open>A \<open>select\<close> of \<open>Receive\<close>: given the context, the consumer, the channel \<open>notify\<close> and the timer (if
  one was started), the case taken and the world then, or \<open>None\<close> when it blocks for ever.\<close>

type_synonym 'x receive_select =
  "'x qworld ctx \<Rightarrow> nat \<Rightarrow> nat \<Rightarrow> int option \<Rightarrow> 'x qworld \<Rightarrow> (selected \<times> 'x qworld) option"

partial_function (option) Receive :: "'x receive_select \<Rightarrow> nat \<Rightarrow> string \<Rightarrow> 'x qworld ctx \<Rightarrow> 'x qworld \<Rightarrow>
    ((go_error + 'x qworld Delivery option) \<times> 'x qworld) option" where
  "Receive sel consumer name ctx w =
     (case next_task name w of
        ((Some task, _, _), w1) \<Rightarrow> Some (Inr (Some (delivery task)), w1)
      | ((None, notif, wt), w1) \<Rightarrow>
          (case sel ctx consumer notif (if wt > 0 then Some wt else None) w1 of
             None \<Rightarrow> None
           | Some (taken, w2) \<Rightarrow>
               (case taken of
                  CtxDone \<Rightarrow> Some (case ctx w2 of Some err \<Rightarrow> Inl err | None \<Rightarrow> Inr None, w2)
                | ConsumerDone \<Rightarrow> Some (Inl ErrConsumerClosed, w2)
                | Notified \<Rightarrow> Receive sel consumer name ctx w2
                | TimerFired \<Rightarrow> Receive sel consumer name ctx w2)))"

declare Receive.simps [code]

definition Close :: "nat \<Rightarrow> 'x qworld \<Rightarrow> go_error option \<times> 'x qworld" where
  "Close consumer w =
     (None, if consumer \<in> set (qw_closed w) then w else w\<lparr>qw_closed := consumer # qw_closed w\<rparr>)"

definition NewConsumer :: "'x receive_select \<Rightarrow> 'x qworld ctx \<Rightarrow> ConsumerConfig \<Rightarrow> 'x qworld \<Rightarrow>
    (go_error + 'x qworld Consumer) \<times> 'x qworld" where
  "NewConsumer sel ctx config w =
     (case ctx w of Some err \<Rightarrow> (Inl err, w)
      | None \<Rightarrow>
          let config = Normalize config; consumer = qw_consumers w
          in (Inr \<lparr>c_Receive = Receive sel consumer (cc_Queue config), c_Close = Close consumer\<rparr>,
              w\<lparr>qw_consumers := consumer + 1\<rparr>))"

definition memory_queue :: "'x receive_select \<Rightarrow> 'x qworld Queue" where
  "memory_queue sel = \<lparr>q_Enqueue = Enqueue, q_NewConsumer = NewConsumer sel\<rparr>"

section \<open>The memory queue keeps the contract of the worker\<close>

definition mq_view :: "'x qworld \<Rightarrow> qview" where
  "mq_view w = (\<lambda>n. mset (queues (qw_queue w) n), \<lambda>n. mset (deadLetters (qw_queue w) n))"

definition mq_env :: "('x \<Rightarrow> (go_error + bytes) \<times> 'x) \<Rightarrow> 'x qworld exec_env" where
  "mq_env rand = \<lparr>env_now = qw_clock,
     rand_Read = (\<lambda>w. case rand (qw_rest w) of (r, x) \<Rightarrow> (r, w\<lparr>qw_rest := x\<rparr>))\<rparr>"

lemma mq_env_now [simp]: "env_now (mq_env rand) = qw_clock"
  by (simp add: mq_env_def)

lemma Enqueue_Some:
  "task_Queue t \<noteq> [] \<Longrightarrow> Enqueue ctx (Some t) w = (r, w') \<Longrightarrow>
   r = ctx w \<and> (if r = None then w' = w\<lparr>qw_queue := signal ((qw_queue w)\<lparr>queues := (queues (qw_queue w))
      (task_Queue t := queues (qw_queue w) (task_Queue t) @ [t])\<rparr>)\<rparr> else w' = w)"
  by (auto simp: Enqueue_def Let_def split: option.splits)

interpretation mq: task_queue delivery "mq_env rand" mq_view for rand
proof unfold_locales
  fix t :: Task and ctx :: "'a qworld ctx" and w r w' d reason
  show "d_Task (delivery t) = Some t" by (simp add: delivery_def)
  show "d_Ack (delivery t) ctx w = (r, w') \<Longrightarrow>
      r = ctx w \<and> mq_view w' = mq_view w \<and> env_now (mq_env rand) w' = env_now (mq_env rand) w"
    by (auto simp: delivery_def delivery_Ack_def)
  show "task_Queue t \<noteq> [] \<Longrightarrow> d_Retry (delivery t) ctx d w = (r, w') \<Longrightarrow>
      r = ctx w \<and> mq_view w' = (if r = None then moved (Retried d) t (env_now (mq_env rand) w) (mq_view w)
        else mq_view w) \<and> env_now (mq_env rand) w' = env_now (mq_env rand) w"
    by (cases "ctx w"; cases r)
      (auto simp: delivery_def delivery_Retry_def Enqueue_def mq_view_def signal_def fun_eq_iff Let_def)
  show "task_Queue t \<noteq> [] \<Longrightarrow> d_DeadLetter (delivery t) ctx reason w = (r, w') \<Longrightarrow>
      r = ctx w \<and> mq_view w' = (if r = None then moved (DeadLettered reason) t (env_now (mq_env rand) w) (mq_view w)
        else mq_view w) \<and> env_now (mq_env rand) w' = env_now (mq_env rand) w"
    by (cases "ctx w"; cases r)
      (auto simp: delivery_def delivery_DeadLetter_def mq_view_def fun_eq_iff Let_def)
qed

text \<open>C7. A worker on the memory queue handles a delivery once and settles it once. A task without a
  handler is dead-lettered. When the handler returns, the task leaves the queue for good (success or
  discard), goes back to the end of its queue with the delay of the \<open>RetryAfter\<close> error or of the
  backoff strategy, or is dead-lettered with its reason, in this order of precedence: discard, dead
  letter, exhausted attempts, explicit delay, retry predicate. Nothing else in the queue changes but what
  the handler itself did; when the settlement fails the queue is left as the handler left it.\<close>

theorem worker_settles_once:
  assumes "quiet (mq_env rand) mq_view c" and "task_Queue t \<noteq> []"
    and "process Error (mq_env rand) c ctx (delivery t) w = (res, w')"
  shows "processed (mq_env rand) mq_view Error c t w res w'"
  using assms by (rule mq.process_processed)

theorem worker_settles_once_witness:
  defines "t \<equiv> \<lparr>task_ID = ''1'', task_Type = ''mail'', task_Queue = ''default'', task_Payload = [],
    task_Metadata = Map.empty, task_Attempt = 3, task_CreatedAt = 0, task_AvailableAt = 0\<rparr>"
    and "w \<equiv> \<lparr>qw_clock = 5, qw_queue = NewQueue, qw_consumers = 0, qw_closed = [], qw_rest = ()\<rparr>"
    and "c \<equiv> applyWorker (Handle ''mail'' (Some (\<lambda>_ _ w. (Returned (Some (RetryAfterError 9)), w)))) plain_config"
  shows "\<exists>w'. process (\<lambda>_. ''no'') (mq_env (\<lambda>x. (Inr [1], x))) c (\<lambda>_. None) (delivery t) w = (Returned None, w') \<and>
    processed (mq_env (\<lambda>x. (Inr [1], x))) mq_view (\<lambda>_. ''no'') c t w (Returned None) w' \<and>
    map (\<lambda>t. task_Metadata t ''queue.dead_letter.reason'') (deadLetters (qw_queue w') ''default'') =
      [Some ''queue: retry exhausted: no'']"
proof -
  have q: "quiet (mq_env (\<lambda>x. (Inr [1], x))) mq_view c" by (simp add: quiet_def c_def plain_config_def)
  obtain w' where p: "process (\<lambda>_. ''no'') (mq_env (\<lambda>x. (Inr [1], x))) c (\<lambda>_. None) (delivery t) w = (Returned None, w')"
    and "map (\<lambda>t. task_Metadata t ''queue.dead_letter.reason'') (deadLetters (qw_queue w') ''default'') =
      [Some ''queue: retry exhausted: no'']"
    by (simp add: process_def c_def plain_config_def t_def w_def delivery_def observe_def handle_def chain_def ErrDiscard_def
        errors_Is_def deadLetterReason_def deadLetter_def withSettlementContext_def WithTimeout_def
        delivery_DeadLetter_def NewQueue_def Let_def)
  then show ?thesis using worker_settles_once [OF q _ p] by (auto simp: t_def)
qed

section \<open>Delivery order\<close>

lemma time_Sub_pos: "now < t \<Longrightarrow> 0 < time_Sub t now"
  by (simp add: time_Sub_def MinInt64_def MaxInt64_def)

lemma next_loop_Some:
  "next_loop now seen ts wt = (Some (t, rest), wt') \<Longrightarrow>
   wt' = 0 \<and> (\<exists>pre post. ts = pre @ t # post \<and> rest = seen @ pre @ post \<and>
     (\<forall>x \<in> set pre. now < task_AvailableAt x) \<and> task_AvailableAt t \<le> now)"
proof (induction now seen ts wt rule: next_loop.induct)
  case (2 now seen task tasks wt)
  show ?case
  proof (cases "task_AvailableAt task > now")
    case True
    with 2 obtain pre post where "tasks = pre @ t # post" "rest = (seen @ [task]) @ pre @ post" "wt' = 0"
      "\<forall>x \<in> set pre. now < task_AvailableAt x" "task_AvailableAt t \<le> now"
      by (auto simp: Let_def)
    with True show ?thesis by (intro conjI exI [of _ "task # pre"] exI [of _ post]) auto
  next
    case False
    with 2 show ?thesis by (intro conjI exI [of _ "[]"] exI [of _ tasks]) auto
  qed
qed simp

lemma next_loop_None:
  "next_loop now seen ts wt = (None, wt') \<Longrightarrow> 0 \<le> wt \<Longrightarrow>
   (\<forall>x \<in> set ts. now < task_AvailableAt x) \<and>
   (if ts = [] then wt' = wt
    else wt' = Min ((if wt = 0 then {} else {wt}) \<union> (\<lambda>x. time_Sub (task_AvailableAt x) now) ` set ts))"
proof (induction now seen ts wt rule: next_loop.induct)
  case (2 now seen task tasks wt)
  let ?d = "\<lambda>x. time_Sub (task_AvailableAt x) now"
  let ?wt = "if wt = 0 \<or> ?d task < wt then ?d task else wt"
  have av: "task_AvailableAt task > now" using "2.prems"(1) by (auto split: if_splits)
  have pos: "0 < ?d task" using av by (rule time_Sub_pos)
  have wt: "?wt = Min ((if wt = 0 then {} else {wt}) \<union> {?d task})" "0 < ?wt"
    using pos "2.prems"(2) by auto
  have IH: "(\<forall>x \<in> set tasks. now < task_AvailableAt x) \<and>
    (if tasks = [] then wt' = ?wt else wt' = Min ({?wt} \<union> ?d ` set tasks))"
    using "2.IH" [OF av refl] "2.prems" av wt(2) by (auto simp: Let_def)
  have "Min ({?wt} \<union> ?d ` set tasks) = Min ((if wt = 0 then {} else {wt}) \<union> ?d ` set (task # tasks))" if "tasks \<noteq> []"
  proof -
    have "Min ({?wt} \<union> ?d ` set tasks) = min ?wt (Min (?d ` set tasks))"
      using that by (simp add: Min_insert)
    also have "\<dots> = Min (((if wt = 0 then {} else {wt}) \<union> {?d task}) \<union> ?d ` set tasks)"
      using that wt(1) by (subst Min_Un) auto
    finally show ?thesis by (simp add: Un_assoc)
  qed
  with IH av wt(1) show ?case by (cases "tasks = []") auto
qed simp

text \<open>C19. \<open>next\<close> delivers in the order of the queue among the tasks that are due: the first due task
  leaves the queue with its attempt counted, everything before it is not yet due and nothing else
  changes. When no task is due the queue is unchanged and the wait is the time until the first one is
  (zero, for no timer, exactly when the queue is empty).\<close>

theorem next_task_fifo:
  assumes "next_task name w = ((task, notif, wt), w')"
  defines "ts \<equiv> queues (qw_queue w) name"
  shows "case task of
      None \<Rightarrow> w' = w \<and> (\<forall>x \<in> set ts. qw_clock w < task_AvailableAt x) \<and>
        wt = (if ts = [] then 0 else Min ((\<lambda>x. time_Sub (task_AvailableAt x) (qw_clock w)) ` set ts)) \<and>
        (wt = 0 \<longleftrightarrow> ts = []) \<and> 0 \<le> wt
    | Some t' \<Rightarrow> wt = 0 \<and> (\<exists>pre t post. ts = pre @ t # post \<and>
        (\<forall>x \<in> set pre. qw_clock w < task_AvailableAt x) \<and> task_AvailableAt t \<le> qw_clock w \<and>
        t' = t\<lparr>task_Attempt := i64 (task_Attempt t + 1)\<rparr> \<and>
        w' = w\<lparr>qw_queue := (qw_queue w)\<lparr>queues := (queues (qw_queue w))(name := pre @ post)\<rparr>\<rparr>)"
proof (cases "next_loop (qw_clock w) [] ts 0")
  case (Pair found wt0)
  show ?thesis
  proof (cases found)
    case None
    then have n: "task = None" "wt = wt0" "w' = w"
      using assms(1) Pair by (auto simp: next_task_def ts_def Let_def)
    moreover have l: "(\<forall>x \<in> set ts. qw_clock w < task_AvailableAt x)"
      "if ts = [] then wt0 = 0 else wt0 = Min ((\<lambda>x. time_Sub (task_AvailableAt x) (qw_clock w)) ` set ts)"
      using next_loop_None [of "qw_clock w" "[]" ts 0 wt0] Pair None by simp_all
    moreover have "ts \<noteq> [] \<Longrightarrow> 0 < wt0" using l by (simp add: time_Sub_pos)
    ultimately show ?thesis by (cases "ts = []") (auto simp del: Min_gr_iff Min_ge_iff)
  next
    case (Some tr)
    then obtain t rest where tr: "found = Some (t, rest)" by (cases tr) auto
    from next_loop_Some [of "qw_clock w" "[]" ts 0 t rest wt0] Pair tr
    obtain pre post where "ts = pre @ t # post" "rest = pre @ post"
      "\<forall>x \<in> set pre. qw_clock w < task_AvailableAt x" "task_AvailableAt t \<le> qw_clock w" by auto
    moreover have "wt = 0" "task = Some (t\<lparr>task_Attempt := i64 (task_Attempt t + 1)\<rparr>)"
      "w' = w\<lparr>qw_queue := (qw_queue w)\<lparr>queues := (queues (qw_queue w))(name := rest)\<rparr>\<rparr>"
      using assms(1) Pair tr by (auto simp: next_task_def ts_def Let_def)
    ultimately show ?thesis by auto
  qed
qed

text \<open>Three waiting tasks of which the second is due.\<close>

definition sample_task :: "string \<Rightarrow> int \<Rightarrow> Task" where
  "sample_task i at = \<lparr>task_ID = i, task_Type = ''mail'', task_Queue = ''default'', task_Payload = [],
     task_Metadata = Map.empty, task_Attempt = 0, task_CreatedAt = 0, task_AvailableAt = at\<rparr>"

definition sample_world :: "unit qworld" where
  "sample_world = \<lparr>qw_clock = 5, qw_queue = NewQueue\<lparr>queues := (\<lambda>_. [])(''default'' :=
     [sample_task ''1'' 9, sample_task ''2'' 3, sample_task ''3'' 4])\<rparr>, qw_consumers = 0, qw_closed = [], qw_rest = ()\<rparr>"

theorem next_task_fifo_witness:
  "\<exists>t w'. next_task ''default'' sample_world = ((Some t, 0, 0), w') \<and> task_ID t = ''2'' \<and> task_Attempt t = 1 \<and>
     map task_ID (queues (qw_queue w') ''default'') = [''1'', ''3'']"
proof -
  obtain t n wt w' where e: "next_task ''default'' sample_world = ((Some t, n, wt), w')" "task_ID t = ''2''" "n = 0"
    by (simp add: next_task_def sample_world_def sample_task_def NewQueue_def Let_def)
  from next_task_fifo [OF e(1)] obtain pre t0 post where
    ts: "queues (qw_queue sample_world) ''default'' = pre @ t0 # post" and
    t: "t = t0\<lparr>task_Attempt := i64 (task_Attempt t0 + 1)\<rparr>" "wt = 0" and
    w': "w' = sample_world\<lparr>qw_queue := (qw_queue sample_world)\<lparr>queues :=
      (queues (qw_queue sample_world))(''default'' := pre @ post)\<rparr>\<rparr>" by auto
  have q: "queues (qw_queue sample_world) ''default'' = [sample_task ''1'' 9, sample_task ''2'' 3, sample_task ''3'' 4]"
    by (simp add: sample_world_def)
  have "t0 \<in> set (queues (qw_queue sample_world) ''default'')" using ts by simp
  then have t0: "t0 = sample_task ''2'' 3" using e(2) t unfolding q by (auto simp: sample_task_def)
  have "map task_ID pre @ ''2'' # map task_ID post = [''1'', ''2'', ''3'']"
    using ts unfolding q by (auto simp: t0 sample_task_def dest: arg_cong [where f = "map task_ID"])
  then have "map task_ID pre = [''1''] \<and> map task_ID post = [''3'']"
    by (auto simp: Cons_eq_append_conv append_eq_Cons_conv)
  then show ?thesis using e t w' t0 by (auto simp: sample_task_def i64_def)
qed

section \<open>From the producer to the handler\<close>

lemma next_task_single:
  assumes "queues (qw_queue w) n = [t]" and "task_AvailableAt t \<le> qw_clock w"
  shows "next_task n w = ((Some (t\<lparr>task_Attempt := i64 (task_Attempt t + 1)\<rparr>), notify (qw_queue w), 0),
    w\<lparr>qw_queue := (qw_queue w)\<lparr>queues := (queues (qw_queue w))(n := [])\<rparr>\<rparr>)"
  using assms by (simp add: next_task_def Let_def)

lemma Receive_due:
  assumes "next_task n w = ((Some t, notif, wt), w')"
  shows "Receive sel consumer n ctx w = Some (Inr (Some (delivery t)), w')"
  using assms by (subst Receive.simps) simp

lemma HandleForWithCodec_registers:
  assumes "ty \<noteq> []" and "codec_roundtrip codec" and "Marshal codec v = Inr (task_Payload t)"
  shows "\<exists>g. handlers (applyWorker (HandleForWithCodec dc ty (Some codec) (Some h)) c) ty = Some g \<and>
    g ctx t w = h ctx \<lparr>tf_Task = t, tf_Payload = v\<rparr> w"
proof -
  have "Unmarshal codec (task_Payload t) = Inr v" using assms(2,3) by (simp add: codec_roundtrip_def)
  then show ?thesis using assms(1) by (simp add: HandleForWithCodec_def)
qed

text \<open>C17. A value enqueued with a codec reaches the typed handler: the task is stored in its queue, the
  next \<open>Receive\<close> at or after its due time delivers it as the first attempt and empties the queue, and the handler
  registered for its type under the same codec is called with the value that was enqueued.\<close>

theorem typed_roundtrip:
  assumes "codec_roundtrip codec" and "rand_ok env" and "ty \<noteq> []" and "p_observer p = None"
    and "p_queue p = memory_queue sel"
    and "EnqueueForWithCodec dc env ctx (Some p) ty v (Some codec) opts w = (Inr (Some t), w1)"
    and "queues (qw_queue w) (task_Queue t) = []"
    and "\<forall>w. qw_queue (snd (rand_Read env w)) = qw_queue w"
    and "qw_queue w2 = qw_queue w1" and "task_AvailableAt t \<le> qw_clock w2"
  shows "\<exists>w3. Receive sel consumer (task_Queue t) ctx2 w2 =
      Some (Inr (Some (delivery (t\<lparr>task_Attempt := 1\<rparr>))), w3) \<and>
    queues (qw_queue w3) (task_Queue t) = [] \<and>
    (\<exists>g. handlers (applyWorker (HandleForWithCodec dc ty (Some codec) (Some h)) c) (task_Type t) = Some g \<and>
      g ctx3 (t\<lparr>task_Attempt := 1\<rparr>) w4 = h ctx3 \<lparr>tf_Task = t\<lparr>task_Attempt := 1\<rparr>, tf_Payload = v\<rparr> w4)"
proof -
  obtain data where data: "Marshal codec v = Inr data" and
    enq: "Producer_Enqueue env p ctx ty data opts w = (Inr (Some t), w1)"
    using assms(6) by (auto simp: EnqueueForWithCodec_def split: sum.splits)
  obtain wn where wn: "qw_queue wn = qw_queue w" and
    made: "task_Type t = ty" "task_Payload t = data" "task_Attempt t = 0" "task_Queue t \<noteq> []" and
    e: "Enqueue ctx (Some t) wn = (None, w1)"
  proof -
    obtain cfg wn where cfg: "newEnqueueConfig env (p_queueName p) (p_metadata p) opts w = (cfg, wn)" by fastforce
    have q: "qw_queue wn = qw_queue w"
      using cfg spec [OF assms(8), of w]
      by (auto simp: newEnqueueConfig_def newID_def Let_def split: if_splits prod.splits sum.splits)
    show thesis
    proof (rule that [OF q])
      from Producer_Enqueue_cases [OF enq assms(3,2)]
      show "task_Type t = ty" "task_Payload t = data" "task_Attempt t = 0" "task_Queue t \<noteq> []"
        by (auto simp: made_from_def split: option.splits)
      show "Enqueue ctx (Some t) wn = (None, w1)"
        using enq cfg assms(3,4,5) by (auto simp: Producer_Enqueue_def Producer_observe_def memory_queue_def Let_def
            split: prod.splits option.splits)
    qed
  qed
  have "queues (qw_queue w2) (task_Queue t) = [t]"
    using Enqueue_Some [OF made(4) e] assms(7,9) wn by (simp add: signal_def)
  from next_task_single [OF this assms(10)] made(3)
  have "next_task (task_Queue t) w2 = ((Some (t\<lparr>task_Attempt := 1\<rparr>), notify (qw_queue w2), 0),
    w2\<lparr>qw_queue := (qw_queue w2)\<lparr>queues := (queues (qw_queue w2))(task_Queue t := [])\<rparr>\<rparr>)"
    by (simp add: i64_def)
  from Receive_due [OF this] show ?thesis
    using HandleForWithCodec_registers [OF assms(3,1), of v "t\<lparr>task_Attempt := 1\<rparr>" dc h c ctx3 w4] data made
    by simp
qed

text \<open>A codec for numbers: one byte.\<close>

definition byte_codec :: "nat codec" where
  "byte_codec = \<lparr>Marshal = (\<lambda>n. if n < 256 then Inr [word_of_nat n] else Inl (Sentinel ''too big'')),
     Unmarshal = (\<lambda>bs. case bs of [b] \<Rightarrow> Inr (unat b) | _ \<Rightarrow> Inl (Sentinel ''one byte''))\<rparr>"

lemma byte_codec_roundtrip: "codec_roundtrip byte_codec"
  by (auto simp: codec_roundtrip_def byte_codec_def unsigned_of_nat take_bit_nat_eq_self split: if_splits)

theorem typed_roundtrip_witness:
  defines "w \<equiv> \<lparr>qw_clock = 5, qw_queue = NewQueue, qw_consumers = 0, qw_closed = [], qw_rest = ()\<rparr>"
    and "env \<equiv> mq_env (\<lambda>x. (Inr [1], x))"
  shows "\<exists>t w1 w3. EnqueueForWithCodec byte_codec env (\<lambda>_. None)
      (Some (NewProducer (memory_queue (\<lambda>_ _ _ _ _. None)) [])) ''n'' 42 (Some byte_codec) [] w = (Inr (Some t), w1) \<and>
    Receive (\<lambda>_ _ _ _ _. None) 0 (task_Queue t) (\<lambda>_. None) w1 = Some (Inr (Some (delivery (t\<lparr>task_Attempt := 1\<rparr>))), w3) \<and>
    queues (qw_queue w3) (task_Queue t) = [] \<and>
    (\<exists>g. handlers (applyWorker (HandleForWithCodec byte_codec ''n'' (Some byte_codec)
        (Some (\<lambda>_ tf _. (Returned None, tf_Payload tf)))) plain_config) (task_Type t) = Some g \<and>
      g (\<lambda>_. None) (t\<lparr>task_Attempt := 1\<rparr>) 0 = (Returned None, 42))"
proof -
  let ?p = "NewProducer (memory_queue (\<lambda>_ _ _ _ _. None)) [] :: unit qworld Producer"
  have p: "p_observer ?p = None" "p_queue ?p = memory_queue (\<lambda>_ _ _ _ _. None)"
    by (simp_all add: NewProducer_def newProducerConfig_def)
  obtain t w1 where e: "EnqueueForWithCodec byte_codec env (\<lambda>_. None) (Some ?p) ''n'' 42 (Some byte_codec) [] w =
      (Inr (Some t), w1)" and t: "task_AvailableAt t \<le> qw_clock w1"
    by (simp add: EnqueueForWithCodec_def byte_codec_def Producer_Enqueue_def newEnqueueConfig_def newID_def env_def
        mq_env_def w_def NewProducer_def newProducerConfig_def Producer_observe_def memory_queue_def Enqueue_def Let_def DefaultQueue_def)
  have r: "rand_ok env" by (simp add: rand_ok_def env_def mq_env_def)
  have rq: "\<forall>w. qw_queue (snd (rand_Read env w)) = qw_queue w" by (simp add: env_def mq_env_def)
  have q: "queues (qw_queue w) (task_Queue t) = []" by (simp add: w_def NewQueue_def)
  have n: "''n'' \<noteq> []" by simp
  from typed_roundtrip [OF byte_codec_roundtrip r n p e q rq refl t,
      of 0 "\<lambda>_. None" "\<lambda>_ tf _. (Returned None, tf_Payload tf)" plain_config "\<lambda>_. None" 0] e
  show ?thesis by auto
qed

end
