(* ===== verification/Queue_System.thy ===== *)
theory Queue_System
  imports Queue_Memory
begin

text \<open>
  Producers and the goroutines of a worker on one memory queue, as a transition system: the mutex of the
  queue makes \<open>Enqueue\<close>, \<open>next\<close> and the settlement of a delivery atomic steps, and between the steps
  that receive and settle a task its handler runs and may return anything. The memory queue forgets a task when it
  delivers it, so that a task is lost when its settlement is refused. The invariant is that this happens only when the
  context of the settlement has ended, and that no task is delivered more often than the worker allows.
\<close>

section \<open>The system\<close>

text \<open>Besides the world: every task produced, and the deliveries that are being handled, whose Ack returned nil, and
  whose settlement was tried under a context that had ended. The last does not depend on what the settlement
  returned.\<close>

record 'x sys =
  s_world :: "'x qworld"
  s_produced :: "Task multiset"
  s_inflight :: "Task multiset"
  s_acked :: "Task multiset"
  s_ended :: "Task multiset"

definition decided :: "(go_error \<Rightarrow> string) \<Rightarrow> 'w workerConfig \<Rightarrow> Task \<Rightarrow> settlement \<Rightarrow> bool" where
  "decided Error c t s \<longleftrightarrow>
     s = DeadLettered ''queue: handler not found'' \<or> (\<exists>err delay. s = decision Error c t err delay)"

inductive work_step :: "(go_error \<Rightarrow> string) \<Rightarrow> ('x \<Rightarrow> (go_error + bytes) \<times> 'x) \<Rightarrow> 'x qworld workerConfig \<Rightarrow>
    'x sys \<Rightarrow> 'x sys \<Rightarrow> bool" for Error rand c where
  receive: "next_task (wc_queue c) (s_world s) = ((Some t, notif, wt), w') \<Longrightarrow>
    work_step Error rand c s (s\<lparr>s_world := w', s_inflight := add_mset t (s_inflight s)\<rparr>)"
| settle: "t \<in># s_inflight s \<Longrightarrow> decided Error c t sm \<Longrightarrow>
    settle (mq_env rand) c ctx (delivery t) sm (s_world s) = (res, w') \<Longrightarrow>
    work_step Error rand c s (s\<lparr>s_world := w', s_inflight := s_inflight s - {#t#},
      s_acked := (if sm = Acked \<and> res = None then add_mset t (s_acked s) else s_acked s),
      s_ended := (if ctx (s_world s) \<noteq> None then add_mset t (s_ended s) else s_ended s)\<rparr>)"

text \<open>Anything that leaves the queue alone, such as the passing of time.\<close>

definition idle :: "'x sys \<Rightarrow> 'x sys \<Rightarrow> bool" where
  "idle s s' \<longleftrightarrow> (\<exists>w'. s' = s\<lparr>s_world := w'\<rparr> \<and> qw_queue w' = qw_queue (s_world s) \<and>
     qw_clock (s_world s) \<le> qw_clock w')"

inductive sys_reachable :: "(go_error \<Rightarrow> string) \<Rightarrow> ('x \<Rightarrow> (go_error + bytes) \<times> 'x) \<Rightarrow> 'x qworld workerConfig \<Rightarrow>
    'x sys \<Rightarrow> bool" for Error rand c where
  init: "qw_queue w = NewQueue \<Longrightarrow> sys_reachable Error rand c
    \<lparr>s_world = w, s_produced = {#}, s_inflight = {#}, s_acked = {#}, s_ended = {#}\<rparr>"
| produce: "sys_reachable Error rand c s \<Longrightarrow> task_Queue t = wc_queue c \<Longrightarrow> task_Attempt t = 0 \<Longrightarrow>
    Enqueue ctx (Some t) (s_world s) = (None, w') \<Longrightarrow>
    sys_reachable Error rand c (s\<lparr>s_world := w', s_produced := add_mset t (s_produced s)\<rparr>)"
| work: "sys_reachable Error rand c s \<Longrightarrow> work_step Error rand c s s' \<Longrightarrow> sys_reachable Error rand c s'"
| idle: "sys_reachable Error rand c s \<Longrightarrow> idle s s' \<Longrightarrow> sys_reachable Error rand c s'"

text \<open>Runs without new tasks, with the number of their steps that receive or settle one.\<close>

inductive runs :: "(go_error \<Rightarrow> string) \<Rightarrow> ('x \<Rightarrow> (go_error + bytes) \<times> 'x) \<Rightarrow> 'x qworld workerConfig \<Rightarrow>
    nat \<Rightarrow> 'x sys \<Rightarrow> 'x sys \<Rightarrow> bool" for Error rand c where
  none: "runs Error rand c 0 s s"
| step: "runs Error rand c n s s' \<Longrightarrow> work_step Error rand c s' s'' \<Longrightarrow> runs Error rand c (Suc n) s s''"
| pause: "runs Error rand c n s s' \<Longrightarrow> idle s' s'' \<Longrightarrow> runs Error rand c n s s''"

abbreviation waiting :: "'x qworld workerConfig \<Rightarrow> 'x sys \<Rightarrow> Task multiset" where
  "waiting c s \<equiv> fst (mq_view (s_world s)) (wc_queue c)"

abbreviation dead :: "'x qworld workerConfig \<Rightarrow> 'x sys \<Rightarrow> Task multiset" where
  "dead c s \<equiv> snd (mq_view (s_world s)) (wc_queue c)"

section \<open>What each step does to the tasks\<close>

text \<open>What stays the same from delivery to delivery.\<close>

definition core :: "Task \<Rightarrow> string \<times> string \<times> string \<times> bytes" where
  "core t = (task_ID t, task_Type t, task_Queue t, task_Payload t)"

lemma core_update [simp]:
  "core (t\<lparr>task_Attempt := a\<rparr>) = core t" "core (t\<lparr>task_AvailableAt := d\<rparr>) = core t"
  "core (t\<lparr>task_Metadata := md\<rparr>) = core t"
  by (simp_all add: core_def)

lemma next_task_view:
  assumes "next_task n w = ((Some t, notif, wt), w')"
  obtains t0 where "t = t0\<lparr>task_Attempt := i64 (task_Attempt t0 + 1)\<rparr>"
    "fst (mq_view w) n = add_mset t0 (fst (mq_view w') n)" "snd (mq_view w') = snd (mq_view w)"
proof -
  obtain t0 rest wt0 where l: "next_loop (qw_clock w) [] (queues (qw_queue w) n) 0 = (Some (t0, rest), wt0)"
    and t: "t = t0\<lparr>task_Attempt := i64 (task_Attempt t0 + 1)\<rparr>"
    and w': "w' = w\<lparr>qw_queue := (qw_queue w)\<lparr>queues := (queues (qw_queue w))(n := rest)\<rparr>\<rparr>"
    using assms by (auto simp: next_task_def Let_def split: prod.splits option.splits)
  from next_loop_Some [OF l] obtain pre post where "queues (qw_queue w) n = pre @ t0 # post" "rest = pre @ post"
    by auto
  then show ?thesis using that [of t0] t w' by (simp add: mq_view_def)
qed

lemma Retried_decided:
  assumes "decided Error c t (Retried d)"
  shows "task_Attempt t < wc_maxAttempts c"
proof (rule ccontr)
  assume "\<not> task_Attempt t < wc_maxAttempts c"
  then have "decision Error c t err delay \<noteq> Retried d" for err delay
    by (simp add: decision_def split: option.split)
  with assms show False by (metis decided_def settlement.distinct(5))
qed

text \<open>The configurations that \<open>newWorkerConfig\<close> makes, on a platform with 64-bit \<open>int\<close>.\<close>

definition sys_config :: "'x qworld workerConfig \<Rightarrow> bool" where
  "sys_config c \<longleftrightarrow> wc_queue c \<noteq> [] \<and> 1 \<le> wc_maxAttempts c \<and> wc_maxAttempts c \<le> MaxInt64"

definition tasks_in :: "string \<Rightarrow> int \<Rightarrow> int \<Rightarrow> Task multiset \<Rightarrow> bool" where
  "tasks_in n lo hi M \<longleftrightarrow> (\<forall>t. t \<in># M \<longrightarrow> task_Queue t = n \<and> lo \<le> task_Attempt t \<and> task_Attempt t \<le> hi)"

lemma tasks_in_simps [simp]:
  "tasks_in n lo hi {#}"
  "tasks_in n lo hi (add_mset t M) \<longleftrightarrow>
     task_Queue t = n \<and> lo \<le> task_Attempt t \<and> task_Attempt t \<le> hi \<and> tasks_in n lo hi M"
  "tasks_in n lo hi (M + N) \<longleftrightarrow> tasks_in n lo hi M \<and> tasks_in n lo hi N"
  by (auto simp: tasks_in_def)

text \<open>Every task produced is waiting, being handled, acknowledged, dead or was settled too late, as often as it was
  produced; a waiting one has an attempt left, and no delivery exceeds the limit.\<close>

definition sys_ok :: "'x qworld workerConfig \<Rightarrow> 'x sys \<Rightarrow> bool" where
  "sys_ok c s \<longleftrightarrow>
     image_mset core (s_produced s) =
       image_mset core (waiting c s + s_inflight s + s_acked s + dead c s + s_ended s) \<and>
     tasks_in (wc_queue c) 0 (wc_maxAttempts c - 1) (waiting c s) \<and>
     tasks_in (wc_queue c) 1 (wc_maxAttempts c) (s_inflight s + s_acked s + dead c s + s_ended s)"

lemma sys_okD:
  assumes "sys_ok c s"
  shows "t \<in># waiting c s \<Longrightarrow> task_Queue t = wc_queue c \<and> 0 \<le> task_Attempt t \<and> task_Attempt t < wc_maxAttempts c"
    "t \<in># s_inflight s \<Longrightarrow> task_Queue t = wc_queue c \<and> 1 \<le> task_Attempt t \<and> task_Attempt t \<le> wc_maxAttempts c"
  using assms unfolding sys_ok_def tasks_in_def by auto

lemma sys_ok_init:
  "qw_queue w = NewQueue \<Longrightarrow>
   sys_ok c \<lparr>s_world = w, s_produced = {#}, s_inflight = {#}, s_acked = {#}, s_ended = {#}\<rparr>"
  by (simp add: sys_ok_def mq_view_def NewQueue_def)

lemma sys_ok_produce:
  assumes "sys_config c" and "sys_ok c s" and "task_Queue t = wc_queue c" and "task_Attempt t = 0"
    and "Enqueue ctx (Some t) (s_world s) = (None, w')"
  shows "sys_ok c (s\<lparr>s_world := w', s_produced := add_mset t (s_produced s)\<rparr>)"
proof -
  have "fst (mq_view w') (wc_queue c) = add_mset t (waiting c s)" "snd (mq_view w') = snd (mq_view (s_world s))"
    using Enqueue_Some [OF _ assms(5)] assms(1,3) by (auto simp: sys_config_def mq_view_def signal_def)
  then show ?thesis using assms(1-4) by (auto simp: sys_ok_def sys_config_def)
qed

lemma sys_ok_receive:
  assumes "sys_config c" and "sys_ok c s"
    and "next_task (wc_queue c) (s_world s) = ((Some t, notif, wt), w')"
  shows "sys_ok c (s\<lparr>s_world := w', s_inflight := add_mset t (s_inflight s)\<rparr>)"
proof -
  obtain t0 where t: "t = t0\<lparr>task_Attempt := i64 (task_Attempt t0 + 1)\<rparr>"
    and v: "waiting c s = add_mset t0 (fst (mq_view w') (wc_queue c))" "snd (mq_view w') = snd (mq_view (s_world s))"
    by (rule next_task_view [OF assms(3)]) (rule that)
  have "t0 \<in># waiting c s" by (simp add: v(1))
  note t0 = sys_okD(1) [OF assms(2) this]
  then have "i64 (task_Attempt t0 + 1) = task_Attempt t0 + 1"
    using assms(1) by (intro i64_id in_i64_nonneg) (auto simp: sys_config_def)
  with t0 have "core t = core t0" "task_Queue t = wc_queue c" "1 \<le> task_Attempt t" "task_Attempt t \<le> wc_maxAttempts c"
    by (simp_all add: t)
  then show ?thesis using assms(2) by (simp add: sys_ok_def v)
qed

lemma settle_view:
  assumes "quiet (mq_env rand) mq_view c" and "task_Queue t = n" "n \<noteq> []"
    and "settle (mq_env rand) c ctx (delivery t) sm w = (None, w')"
  obtains t' where "core t' = core t" "task_Queue t' = n" "task_Attempt t' = task_Attempt t"
    "fst (mq_view w') n = (case sm of Retried d \<Rightarrow> add_mset t' (fst (mq_view w) n) | _ \<Rightarrow> fst (mq_view w) n)"
    "snd (mq_view w') n = (case sm of DeadLettered d \<Rightarrow> add_mset t' (snd (mq_view w) n) | _ \<Rightarrow> snd (mq_view w) n)"
proof -
  have v: "mq_view w' = moved sm t (qw_clock w) (mq_view w)"
    using mq.settle_moves [OF assms(1) _ assms(4)] assms(2,3) by simp
  obtain P D where PD: "mq_view w = (P, D)" by fastforce
  show ?thesis
  proof (cases sm)
    case Acked
    then show ?thesis using that [of t] v assms(2) by simp
  next
    case (Retried d)
    then show ?thesis using that [of "t\<lparr>task_AvailableAt := qw_clock w + d\<rparr>"] v PD assms(2) by simp
  next
    case (DeadLettered reason)
    then show ?thesis
      using that [of "t\<lparr>task_Metadata := (task_Metadata t)(''queue.dead_letter.reason'' \<mapsto> reason)\<rparr>"] v PD assms(2)
      by simp
  qed
qed

lemma settle_live:
  assumes "quiet (mq_env rand) mq_view c" and "task_Queue t = n" "n \<noteq> []"
    and "settle (mq_env rand) c ctx (delivery t) sm w = (res, w')" and "ctx w = None"
  shows "res = None"
  using mq.settle_moves [OF assms(1) _ assms(4)] assms(2,3,5) by simp

lemma settle_ended:
  assumes "quiet (mq_env rand) mq_view c" and "task_Queue t = n" "n \<noteq> []"
    and "settle (mq_env rand) c ctx (delivery t) sm w = (res, w')" and "ctx w = Some err"
  shows "mq_view w' = mq_view w"
  using mq.settle_moves [OF assms(1) _ assms(4)] assms(2,3,5) by simp

lemma settle_refused:
  assumes "quiet (mq_env rand) mq_view c" and "task_Queue t = n" "n \<noteq> []"
    and "settle (mq_env rand) c ctx (delivery t) sm w = (res, w')" and "ctx w = Some err"
  shows "res = Some err"
  using mq.settle_moves [OF assms(1) _ assms(4)] assms(2,3,5) by simp

lemma sys_ok_world: "mq_view w' = mq_view (s_world s) \<Longrightarrow> sys_ok c (s\<lparr>s_world := w'\<rparr>) = sys_ok c s"
  by (simp add: sys_ok_def)

lemma sys_ok_failed:
  assumes "sys_ok c s" and "t \<in># s_inflight s"
  shows "sys_ok c (s\<lparr>s_inflight := s_inflight s - {#t#}, s_ended := add_mset t (s_ended s)\<rparr>)"
proof -
  obtain fl where fl: "s_inflight s = add_mset t fl" using assms(2) by (rule mset_add)
  show ?thesis using assms(1) by (simp add: sys_ok_def fl)
qed

lemma sys_ok_work:
  assumes "sys_config c" and "quiet (mq_env rand) mq_view c" and "work_step Error rand c s s'" and "sys_ok c s"
  shows "sys_ok c s'"
  using assms(3)
proof cases
  case (receive t notif wt w')
  then show ?thesis using sys_ok_receive [OF assms(1,4)] by simp
next
  case (settle t sm ctx res w')
  note t = sys_okD(2) [OF assms(4) settle(2)]
  have n: "wc_queue c \<noteq> []" using assms(1) by (simp add: sys_config_def)
  show ?thesis
  proof (cases "ctx (s_world s)")
    case live: None
    have r: "res = None" by (rule settle_live [OF assms(2) conjunct1 [OF t] n settle(4) live])
    have res: "settle (mq_env rand) c ctx (delivery t) sm (s_world s) = (None, w')"
      using settle_live [OF assms(2) conjunct1 [OF t] n settle(4) live] settle(4) by simp
    obtain fl where fl: "s_inflight s = add_mset t fl" using settle(2) by (rule mset_add)
    obtain t' where
      t': "core t' = core t" "task_Queue t' = wc_queue c" "task_Attempt t' = task_Attempt t" and
      v: "fst (mq_view w') (wc_queue c) = (case sm of Retried d \<Rightarrow> add_mset t' (waiting c s) | _ \<Rightarrow> waiting c s)"
        "snd (mq_view w') (wc_queue c) = (case sm of DeadLettered d \<Rightarrow> add_mset t' (dead c s) | _ \<Rightarrow> dead c s)"
      by (rule settle_view [OF assms(2) conjunct1 [OF t] n res]) (rule that)
    show ?thesis
    proof (cases sm)
      case (Retried d)
      then have "task_Attempt t < wc_maxAttempts c" using Retried_decided settle(3) by blast
      then show ?thesis using assms(4) t unfolding settle(1) by (simp add: sys_ok_def t' v fl Retried live r)
    qed (use assms(4) t in \<open>simp_all add: sys_ok_def t' v fl settle(1) live r\<close>)
  next
    case ended: (Some err)
    have view: "mq_view w' = mq_view (s_world s)" by (rule settle_ended [OF assms(2) conjunct1 [OF t] n settle(4) ended])
    have r: "res = Some err" by (rule settle_refused [OF assms(2) conjunct1 [OF t] n settle(4) ended])
    have "sys_ok c (s\<lparr>s_world := w'\<rparr>)" using view assms(4) by (simp add: sys_ok_world)
    from sys_ok_failed [OF this, of t] settle(2) ended r show ?thesis unfolding settle(1) by simp
  qed
qed

lemma sys_ok_idle: "idle s s' \<Longrightarrow> sys_ok c s \<Longrightarrow> sys_ok c s'"
  by (auto simp: idle_def sys_ok_world mq_view_def)

lemma sys_ok_reachable:
  assumes "sys_config c" and "quiet (mq_env rand) mq_view c"
  shows "sys_reachable Error rand c s \<Longrightarrow> sys_ok c s"
proof (induction rule: sys_reachable.induct)
  case (init w)
  then show ?case by (rule sys_ok_init)
next
  case (produce s t ctx w')
  then show ?case using sys_ok_produce [OF assms(1)] by blast
next
  case (work s s')
  then show ?case using sys_ok_work [OF assms] by blast
next
  case (idle s s')
  then show ?case using sys_ok_idle by blast
qed

section \<open>Every task is settled after finitely many steps\<close>

text \<open>Deliveries and settlements still to come.\<close>

definition work_left :: "'x qworld workerConfig \<Rightarrow> 'x sys \<Rightarrow> nat" where
  "work_left c s =
     (\<Sum>t \<in># waiting c s. 2 * nat (wc_maxAttempts c - task_Attempt t)) +
     (\<Sum>t \<in># s_inflight s. Suc (2 * nat (wc_maxAttempts c - task_Attempt t)))"

lemma work_left_step:
  assumes "sys_config c" and "quiet (mq_env rand) mq_view c" and "work_step Error rand c s s'" and "sys_ok c s"
  shows "work_left c s' < work_left c s"
  using assms(3)
proof cases
  case (receive t notif wt w')
  obtain t0 where t: "t = t0\<lparr>task_Attempt := i64 (task_Attempt t0 + 1)\<rparr>"
    and v: "waiting c s = add_mset t0 (fst (mq_view w') (wc_queue c))"
    by (rule next_task_view [OF receive(2)]) (rule that)
  have "t0 \<in># waiting c s" by (simp add: v(1))
  note t0 = sys_okD(1) [OF assms(4) this]
  then have "i64 (task_Attempt t0 + 1) = task_Attempt t0 + 1"
    using assms(1) by (intro i64_id in_i64_nonneg) (auto simp: sys_config_def)
  then have "Suc (Suc (2 * nat (wc_maxAttempts c - task_Attempt t))) = 2 * nat (wc_maxAttempts c - task_Attempt t0)"
    using t0 by (simp add: t) linarith
  then show ?thesis unfolding receive(1) by (simp add: work_left_def v)
next
  case (settle t sm ctx res w')
  note t = sys_okD(2) [OF assms(4) settle(2)]
  have n: "wc_queue c \<noteq> []" using assms(1) by (simp add: sys_config_def)
  obtain fl where fl: "s_inflight s = add_mset t fl" using settle(2) by (rule mset_add)
  show ?thesis
  proof (cases "ctx (s_world s)")
    case live: None
    have res: "settle (mq_env rand) c ctx (delivery t) sm (s_world s) = (None, w')"
      using settle_live [OF assms(2) conjunct1 [OF t] n settle(4) live] settle(4) by simp
    obtain t' where "task_Attempt t' = task_Attempt t" and
      "fst (mq_view w') (wc_queue c) = (case sm of Retried d \<Rightarrow> add_mset t' (waiting c s) | _ \<Rightarrow> waiting c s)"
      by (rule settle_view [OF assms(2) conjunct1 [OF t] n res]) (rule that)
    then show ?thesis unfolding settle(1) by (cases sm) (simp_all add: work_left_def fl)
  next
    case ended: (Some err)
    have "mq_view w' = mq_view (s_world s)" by (rule settle_ended [OF assms(2) conjunct1 [OF t] n settle(4) ended])
    then show ?thesis unfolding settle(1) by (simp add: work_left_def fl)
  qed
qed

lemma work_left_idle: "idle s s' \<Longrightarrow> work_left c s' = work_left c s"
  by (auto simp: idle_def work_left_def mq_view_def)

lemma work_left_runs:
  assumes "sys_config c" and "quiet (mq_env rand) mq_view c"
  shows "runs Error rand c n s s' \<Longrightarrow> sys_ok c s \<Longrightarrow> sys_ok c s' \<and> n + work_left c s' \<le> work_left c s"
proof (induction rule: runs.induct)
  case (step n s s' s'')
  then show ?case using work_left_step [OF assms step(2)] sys_ok_work [OF assms step(2)] by auto
next
  case (pause n s s' s'')
  then show ?case using work_left_idle [OF pause(2), of c] sys_ok_idle [OF pause(2)] by auto
qed simp

lemma sum_mset_le_size: "(\<And>x. x \<in># M \<Longrightarrow> f x \<le> k) \<Longrightarrow> (\<Sum>x \<in># M. f x) \<le> k * size M" for k :: nat
  by (induction M) (auto simp: add_mono)

lemma work_left_bound:
  assumes "sys_ok c s"
  shows "work_left c s \<le> 2 * nat (wc_maxAttempts c) * size (s_produced s)"
proof -
  let ?k = "2 * nat (wc_maxAttempts c)"
  have "(\<Sum>t \<in># waiting c s. 2 * nat (wc_maxAttempts c - task_Attempt t)) \<le> ?k * size (waiting c s)"
    using sys_okD(1) [OF assms] by (intro sum_mset_le_size) fastforce
  moreover have "Suc (2 * nat (wc_maxAttempts c - task_Attempt t)) \<le> ?k" if "t \<in># s_inflight s" for t
    using sys_okD(2) [OF assms that] by linarith
  then have "(\<Sum>t \<in># s_inflight s. Suc (2 * nat (wc_maxAttempts c - task_Attempt t))) \<le> ?k * size (s_inflight s)"
    by (rule sum_mset_le_size)
  moreover have "size (image_mset core (s_produced s)) \<ge> size (waiting c s) + size (s_inflight s)"
    using assms by (simp add: sys_ok_def)
  then have "?k * size (waiting c s) + ?k * size (s_inflight s) \<le> ?k * size (s_produced s)"
    by (simp add: add_mult_distrib2 [symmetric])
  ultimately show ?thesis unfolding work_left_def by linarith
qed

lemma next_task_due:
  assumes "t \<in> set (queues (qw_queue w) n)" and "task_AvailableAt t \<le> qw_clock w"
  shows "\<exists>t' notif wt w'. next_task n w = ((Some t', notif, wt), w')"
proof (cases "next_loop (qw_clock w) [] (queues (qw_queue w) n) 0")
  case (Pair found wt)
  then have "found \<noteq> None" using next_loop_None [of "qw_clock w" "[]" "queues (qw_queue w) n" 0 wt] assms by force
  then show ?thesis using Pair by (auto simp: next_task_def Let_def)
qed

text \<open>A waiting task can be received once it is due. A task that is handled can be settled whatever its handler
  returned, and under a live context it is then acknowledged, waiting again or dead.\<close>

lemma receive_progress:
  assumes "waiting c s \<noteq> {#}"
  shows "\<exists>s1 s2. idle s s1 \<and> work_step Error rand c s1 s2"
proof -
  from assms obtain t where t: "t \<in> set (queues (qw_queue (s_world s)) (wc_queue c))" by (auto simp: mq_view_def) (metis all_not_in_conv set_empty)
  let ?w = "(s_world s)\<lparr>qw_clock := max (qw_clock (s_world s)) (task_AvailableAt t)\<rparr>"
  have "idle s (s\<lparr>s_world := ?w\<rparr>)" by (auto simp: idle_def)
  moreover obtain t' notif wt w' where "next_task (wc_queue c) ?w = ((Some t', notif, wt), w')"
    using next_task_due [of t ?w "wc_queue c"] t by auto
  then have "next_task (wc_queue c) (s_world (s\<lparr>s_world := ?w\<rparr>)) = ((Some t', notif, wt), w')" by simp
  from work_step.receive [OF this] have "\<exists>s2. work_step Error rand c (s\<lparr>s_world := ?w\<rparr>) s2" by blast
  ultimately show ?thesis by blast
qed

definition settled_as :: "'x qworld workerConfig \<Rightarrow> Task \<Rightarrow> settlement \<Rightarrow> 'x sys \<Rightarrow> 'x sys \<Rightarrow> bool" where
  "settled_as c t sm s s' \<longleftrightarrow> s_inflight s = add_mset t (s_inflight s') \<and> s_ended s' = s_ended s \<and>
     (\<exists>t'. core t' = core t \<and> task_Attempt t' = task_Attempt t \<and>
        s_acked s' = (case sm of Acked \<Rightarrow> add_mset t' (s_acked s) | _ \<Rightarrow> s_acked s) \<and>
        waiting c s' = (case sm of Retried d \<Rightarrow> add_mset t' (waiting c s) | _ \<Rightarrow> waiting c s) \<and>
        dead c s' = (case sm of DeadLettered d \<Rightarrow> add_mset t' (dead c s) | _ \<Rightarrow> dead c s))"

lemma settle_progress:
  assumes "sys_config c" and "quiet (mq_env rand) mq_view c" and "sys_ok c s"
    and "t \<in># s_inflight s" and "decided Error c t sm"
  shows "\<exists>s'. work_step Error rand c s s' \<and> settled_as c t sm s s'"
proof -
  obtain res w' where st: "settle (mq_env rand) c (\<lambda>_. None) (delivery t) sm (s_world s) = (res, w')" by fastforce
  have q: "task_Queue t = wc_queue c" using sys_okD(2) [OF assms(3,4)] by blast
  have n: "wc_queue c \<noteq> []" using assms(1) by (simp add: sys_config_def)
  have res: "settle (mq_env rand) c (\<lambda>_. None) (delivery t) sm (s_world s) = (None, w')"
    using settle_live [OF assms(2) q n st] st by simp
  obtain t' where t': "core t' = core t" "task_Attempt t' = task_Attempt t" and
    v: "fst (mq_view w') (wc_queue c) = (case sm of Retried d \<Rightarrow> add_mset t' (waiting c s) | _ \<Rightarrow> waiting c s)"
      "snd (mq_view w') (wc_queue c) = (case sm of DeadLettered d \<Rightarrow> add_mset t' (dead c s) | _ \<Rightarrow> dead c s)"
    by (rule settle_view [OF assms(2) q n res]) (rule that)
  let ?s = "s\<lparr>s_world := w', s_inflight := s_inflight s - {#t#},
      s_acked := (if sm = Acked then add_mset t (s_acked s) else s_acked s)\<rparr>"
  have "work_step Error rand c s ?s" using work_step.settle [OF assms(4,5) res] by simp
  moreover have "settled_as c t sm s ?s"
  proof (cases sm)
    case Acked
    then show ?thesis using assms(4) v unfolding settled_as_def by (intro conjI exI [of _ t]) simp_all
  qed (use assms(4) v t' in \<open>auto simp: settled_as_def intro!: exI [of _ t']\<close>)
  ultimately show ?thesis by blast
qed

text \<open>C2. A task is lost only by a settlement under an ended context, and none is delivered too often. At any time every
  task that was produced is, as often as it was produced, waiting in the queue, in the hands of a handler, acknowledged,
  in the dead-letter list, or was settled under a context that had ended by then; in particular no task is
  missing as long as no context of a settlement has ended. A waiting task has been delivered less often than the
  worker's limit, and no delivery's attempt exceeds it.\<close>

theorem lost_only_when_ended:
  assumes "sys_config c" and "quiet (mq_env rand) mq_view c" and "sys_reachable Error rand c s"
  shows "image_mset core (s_produced s) =
      image_mset core (waiting c s + s_inflight s + s_acked s + dead c s + s_ended s) \<and>
    (s_ended s = {#} \<longrightarrow> image_mset core (s_produced s) =
      image_mset core (waiting c s + s_inflight s + s_acked s + dead c s)) \<and>
    (\<forall>t \<in># waiting c s. 0 \<le> task_Attempt t \<and> task_Attempt t < wc_maxAttempts c) \<and>
    (\<forall>t \<in># s_inflight s + s_acked s + dead c s + s_ended s.
      1 \<le> task_Attempt t \<and> task_Attempt t \<le> wc_maxAttempts c)"
  using sys_ok_reachable [OF assms] by (auto simp: sys_ok_def tasks_in_def)

text \<open>C11. Every task is settled in the end. Without new tasks a system takes at most two steps per attempt and
  task, whatever the handlers return and the contexts do. A waiting task can be received once enough time has
  passed. A task in the hands of a handler can be settled whatever the handler returned, and under a live context this
  makes it acknowledged, waiting again or dead, as decided. When nothing is waiting or handled, every task
  produced is acknowledged or dead-lettered, except for those whose settlement came after the end of its context.\<close>

theorem tasks_settle:
  assumes "sys_config c" and "quiet (mq_env rand) mq_view c" and "sys_reachable Error rand c s"
  shows "(\<forall>n s'. runs Error rand c n s s' \<longrightarrow> n \<le> 2 * nat (wc_maxAttempts c) * size (s_produced s)) \<and>
    (waiting c s \<noteq> {#} \<longrightarrow> (\<exists>s1 s2. idle s s1 \<and> work_step Error rand c s1 s2)) \<and>
    (\<forall>t \<in># s_inflight s. \<forall>sm. decided Error c t sm \<longrightarrow>
      (\<exists>s'. work_step Error rand c s s' \<and> settled_as c t sm s s')) \<and>
    (waiting c s = {#} \<and> s_inflight s = {#} \<longrightarrow>
      image_mset core (s_produced s) = image_mset core (s_acked s + dead c s + s_ended s) \<and>
      (s_ended s = {#} \<longrightarrow> image_mset core (s_produced s) = image_mset core (s_acked s + dead c s)))"
proof (intro conjI allI ballI impI)
  note ok = sys_ok_reachable [OF assms]
  fix n s'
  assume "runs Error rand c n s s'"
  from work_left_runs [OF assms(1,2) this ok] work_left_bound [OF ok]
  show "n \<le> 2 * nat (wc_maxAttempts c) * size (s_produced s)" by linarith
next
  assume "waiting c s \<noteq> {#}"
  then show "\<exists>s1 s2. idle s s1 \<and> work_step Error rand c s1 s2" by (rule receive_progress)
next
  fix t sm
  assume "t \<in># s_inflight s" "decided Error c t sm"
  then show "\<exists>s'. work_step Error rand c s s' \<and> settled_as c t sm s s'"
    by (rule settle_progress [OF assms(1,2) sys_ok_reachable [OF assms]])
qed (use sys_ok_reachable [OF assms] in \<open>simp_all add: sys_ok_def\<close>)

text \<open>One task, produced and received.\<close>

lemma plain_config_ok:
  "sys_config plain_config" "quiet (mq_env rand) mq_view plain_config"
  by (simp_all add: sys_config_def quiet_def plain_config_def DefaultQueue_def MaxInt64_def)

lemma sample_reachable:
  "\<exists>w. sys_reachable Error rand plain_config \<lparr>s_world = w, s_produced = {#sample_task ''1'' 0#},
     s_inflight = {#(sample_task ''1'' 0)\<lparr>task_Attempt := 1\<rparr>#}, s_acked = {#}, s_ended = {#}\<rparr> \<and>
     mq_view (w :: unit qworld) = (\<lambda>_. {#}, \<lambda>_. {#})"
proof -
  let ?t = "sample_task ''1'' 0"
  let ?w = "\<lparr>qw_clock = 5, qw_queue = NewQueue, qw_consumers = 0, qw_closed = [], qw_rest = ()\<rparr>"
  obtain w1 where e: "Enqueue (\<lambda>_. None) (Some ?t) ?w = (None, w1)" and w1: "queues (qw_queue w1) = (\<lambda>_. [])(''default'' := [?t])"
    "qw_clock w1 = 5" "deadLetters (qw_queue w1) = (\<lambda>_. [])"
    by (simp add: Enqueue_def sample_task_def NewQueue_def signal_def Let_def)
  have "sys_reachable Error rand plain_config
    \<lparr>s_world = w1, s_produced = {#?t#}, s_inflight = {#}, s_acked = {#}, s_ended = {#}\<rparr>"
    using sys_reachable.produce [OF sys_reachable.init, of ?w ?t plain_config "\<lambda>_. None" w1 Error rand] e
    by (simp add: sample_task_def plain_config_def DefaultQueue_def)
  moreover have "next_task ''default'' w1 = ((Some (?t\<lparr>task_Attempt := 1\<rparr>), notify (qw_queue w1), 0),
    w1\<lparr>qw_queue := (qw_queue w1)\<lparr>queues := (queues (qw_queue w1))(''default'' := [])\<rparr>\<rparr>)"
    using next_task_single [of w1 "''default''" ?t] w1 by (simp add: sample_task_def i64_def)
  then have "work_step Error rand plain_config
    \<lparr>s_world = w1, s_produced = {#?t#}, s_inflight = {#}, s_acked = {#}, s_ended = {#}\<rparr>
    \<lparr>s_world = w1\<lparr>qw_queue := (qw_queue w1)\<lparr>queues := (queues (qw_queue w1))(''default'' := [])\<rparr>\<rparr>, s_produced = {#?t#},
     s_inflight = {#?t\<lparr>task_Attempt := 1\<rparr>#}, s_acked = {#}, s_ended = {#}\<rparr>"
    using work_step.receive [of plain_config "\<lparr>s_world = w1, s_produced = {#?t#}, s_inflight = {#}, s_acked = {#}, s_ended = {#}\<rparr>"]
    by (fastforce simp: plain_config_def DefaultQueue_def)
  ultimately show ?thesis using sys_reachable.work w1(1,3)
    by (intro exI [of _ "w1\<lparr>qw_queue := (qw_queue w1)\<lparr>queues := (queues (qw_queue w1))(''default'' := [])\<rparr>\<rparr>"] conjI)
      (blast, simp add: mq_view_def fun_eq_iff)
qed

theorem lost_only_when_ended_witness:
  "\<exists>s :: unit sys. sys_reachable (\<lambda>_. []) (\<lambda>x. (Inr [1], x)) plain_config s \<and> size (s_inflight s) = 1 \<and> s_ended s = {#} \<and>
    image_mset core (s_produced s) = image_mset core
      (waiting plain_config s + s_inflight s + s_acked s + dead plain_config s)"
proof -
  obtain w :: "unit qworld" where "sys_reachable (\<lambda>_. []) (\<lambda>x. (Inr [1], x)) plain_config
    \<lparr>s_world = w, s_produced = {#sample_task ''1'' 0#},
     s_inflight = {#(sample_task ''1'' 0)\<lparr>task_Attempt := 1\<rparr>#}, s_acked = {#}, s_ended = {#}\<rparr>"
    using sample_reachable by blast
  from this lost_only_when_ended [OF plain_config_ok this] show ?thesis by (intro exI) auto
qed

theorem tasks_settle_witness:
  "\<exists>(s :: unit sys) t. sys_reachable (\<lambda>_. []) (\<lambda>x. (Inr [1], x)) plain_config s \<and> t \<in># s_inflight s \<and>
    decided (\<lambda>_. []) plain_config t Acked \<and>
    (\<exists>s'. work_step (\<lambda>_. []) (\<lambda>x. (Inr [1], x)) plain_config s s' \<and> settled_as plain_config t Acked s s')"
proof -
  let ?t = "(sample_task ''1'' 0)\<lparr>task_Attempt := 1\<rparr>"
  obtain w :: "unit qworld" where r: "sys_reachable (\<lambda>_. []) (\<lambda>x. (Inr [1], x)) plain_config
    \<lparr>s_world = w, s_produced = {#sample_task ''1'' 0#}, s_inflight = {#?t#}, s_acked = {#}, s_ended = {#}\<rparr>" (is "sys_reachable _ _ _ ?s")
    using sample_reachable by blast
  have d: "decided (\<lambda>_. []) plain_config ?t Acked" by (auto simp: decided_def decision_def intro: exI [of _ None])
  have i: "?t \<in># s_inflight ?s" by simp
  have "\<exists>s'. work_step (\<lambda>_. []) (\<lambda>x. (Inr [1], x)) plain_config ?s s' \<and> settled_as plain_config ?t Acked ?s s'"
    using tasks_settle [OF plain_config_ok r, THEN conjunct2, THEN conjunct2, THEN conjunct1] i d by blast
  note step = this
  show ?thesis by (rule exI [of _ ?s], rule exI [of _ ?t], intro conjI, rule r, rule i, rule d, rule step)
qed

end
