(* ===== verification/Queue_Run.thy ===== *)
theory Queue_Run
  imports Queue_Worker
begin

text \<open>
  The goroutines of a worker (\<open>Run\<close>, \<open>Stop\<close>, \<open>start\<close>, \<open>finish\<close> and \<open>lifecycle\<close> of
  \<open>src/queue/worker.go\<close>): one goroutine runs \<open>Run\<close>, \<open>concurrency\<close> others run \<open>loop\<close>, and another one
  may call \<open>Stop\<close>. The cancellation of the two contexts, the buffered channel \<open>errs\<close> and the state of each
  goroutine are the state of a transition system in which a step of any of them may come next; what
  a loop returns is arbitrary (\<open>Queue_Worker\<close> has its behaviour).
\<close>

section \<open>The lifecycle of a worker\<close>

text \<open>The cancel functions and the channel of a run are known by the number of the run. \<open>lc_closed\<close> are the
  channels that are closed.\<close>

record life =
  lc_stop :: "nat option"
  lc_interrupt :: "nat option"
  lc_done :: "nat option"
  lc_closed :: "nat list"

definition lifecycle :: "life \<Rightarrow> nat option \<times> nat option \<times> nat option" where
  "lifecycle l = (lc_stop l, lc_interrupt l, lc_done l)"

definition start :: "nat \<Rightarrow> nat \<Rightarrow> nat \<Rightarrow> life \<Rightarrow> bool \<times> life" where
  "start stop interrupt done l =
     (if lc_done l \<noteq> None then (False, l)
      else (True, l\<lparr>lc_stop := Some stop, lc_interrupt := Some interrupt, lc_done := Some done\<rparr>))"

definition finish :: "nat \<Rightarrow> life \<Rightarrow> life" where
  "finish done l =
     (let l = (if lc_done l = Some done then l\<lparr>lc_stop := None, lc_interrupt := None, lc_done := None\<rparr> else l)
      in l\<lparr>lc_closed := done # lc_closed l\<rparr>)"

section \<open>Run and Stop\<close>

text \<open>A loop runs, has failed and is about to send its error, has sent it and is about to cancel, or has ended.\<close>

datatype loop_state = Looping | Sending go_error | Cancelling | Ended

text \<open>\<open>Run\<close> waits in its \<open>select\<close>, waits for the loops after the first error, or is about to return
  (its deferred functions still to come), or has returned.\<close>

datatype main_state = Selecting | Draining go_error | Returning "go_error option" | Done "go_error option"

datatype stop_state = NotCalled | Waiting | Stopped "go_error option"

record run_state =
  r_loops :: "loop_state list"
  r_errs :: "go_error list"
  r_poll :: bool
  r_handler :: bool
  r_main :: main_state
  r_life :: life
  r_stop :: stop_state
  r_failed :: "go_error list"

text \<open>The state in which \<open>Run\<close> enters its \<open>select\<close>: run number 0 has started and the loops are
  spawned. \<open>r_poll\<close> and \<open>r_handler\<close> say whether \<open>pollCtx\<close> and \<open>handlerCtx\<close> are cancelled; \<open>r_failed\<close> records
  the errors of the loops in the order in which they were sent.\<close>

definition run_init :: "nat \<Rightarrow> run_state" where
  "run_init n = \<lparr>r_loops = replicate n Looping, r_errs = [], r_poll = False, r_handler = False, r_main = Selecting,
     r_life = snd (start 0 0 0 \<lparr>lc_stop = None, lc_interrupt = None, lc_done = None, lc_closed = []\<rparr>),
     r_stop = NotCalled, r_failed = []\<rparr>"

inductive run_step :: "run_state \<Rightarrow> run_state \<Rightarrow> bool" where
  loop_ends: "i < length (r_loops s) \<Longrightarrow> r_loops s ! i = Looping \<Longrightarrow> run_step s (s\<lparr>r_loops := (r_loops s)[i := Ended]\<rparr>)"
| loop_fails: "i < length (r_loops s) \<Longrightarrow> r_loops s ! i = Looping \<Longrightarrow>
    run_step s (s\<lparr>r_loops := (r_loops s)[i := Sending err]\<rparr>)"
| loop_sends: "i < length (r_loops s) \<Longrightarrow> r_loops s ! i = Sending err \<Longrightarrow> length (r_errs s) < length (r_loops s) \<Longrightarrow>
    run_step s (s\<lparr>r_loops := (r_loops s)[i := Cancelling], r_errs := r_errs s @ [err],
      r_failed := r_failed s @ [err]\<rparr>)"
| loop_cancels: "i < length (r_loops s) \<Longrightarrow> r_loops s ! i = Cancelling \<Longrightarrow>
    run_step s (s\<lparr>r_loops := (r_loops s)[i := Ended], r_poll := True, r_handler := True\<rparr>)"
| parent_cancelled: "run_step s (s\<lparr>r_poll := True, r_handler := True\<rparr>)"
| main_workers_done: "r_main s = Selecting \<Longrightarrow> set (r_loops s) \<subseteq> {Ended} \<Longrightarrow>
    run_step s (case r_errs s of [] \<Rightarrow> s\<lparr>r_main := Returning None\<rparr>
      | err # errs \<Rightarrow> s\<lparr>r_main := Returning (Some err), r_errs := errs\<rparr>)"
| main_error: "r_main s = Selecting \<Longrightarrow> r_errs s = err # errs \<Longrightarrow>
    run_step s (s\<lparr>r_main := Draining err, r_errs := errs, r_poll := True, r_handler := True\<rparr>)"
| main_drained: "r_main s = Draining err \<Longrightarrow> set (r_loops s) \<subseteq> {Ended} \<Longrightarrow>
    run_step s (s\<lparr>r_main := Returning (Some err)\<rparr>)"
| main_returns: "r_main s = Returning r \<Longrightarrow>
    run_step s (s\<lparr>r_main := Done r, r_poll := True, r_handler := True, r_life := finish 0 (r_life s)\<rparr>)"
| stop_called: "r_stop s = NotCalled \<Longrightarrow>
    run_step s (case lifecycle (r_life s) of (None, _, _) \<Rightarrow> s\<lparr>r_stop := Stopped None\<rparr>
      | (Some _, _, _) \<Rightarrow> s\<lparr>r_stop := Waiting, r_poll := True\<rparr>)"
| stop_done: "r_stop s = Waiting \<Longrightarrow> 0 \<in> set (lc_closed (r_life s)) \<Longrightarrow> run_step s (s\<lparr>r_stop := Stopped None\<rparr>)"
| stop_interrupts: "r_stop s = Waiting \<Longrightarrow> run_step s (s\<lparr>r_stop := Stopped (Some err), r_handler := True\<rparr>)"

inductive run_reachable :: "nat \<Rightarrow> run_state \<Rightarrow> bool" for n where
  init: "run_reachable n (run_init n)"
| step: "run_reachable n s \<Longrightarrow> run_step s s' \<Longrightarrow> run_reachable n s'"

section \<open>Invariant\<close>

definition sent :: "loop_state list \<Rightarrow> nat" where
  "sent ls = length (filter (\<lambda>l. l = Cancelling \<or> l = Ended) ls)"

definition received :: "main_state \<Rightarrow> go_error option" where
  "received m = (case m of Selecting \<Rightarrow> None | Draining e \<Rightarrow> Some e | Returning r \<Rightarrow> r | Done r \<Rightarrow> r)"

text \<open>The errors sent are the one that \<open>Run\<close> received, the first, and those in the channel; a loop sends one
  at most.\<close>

definition chan_ok :: "nat \<Rightarrow> run_state \<Rightarrow> bool" where
  "chan_ok n s \<longleftrightarrow> length (r_loops s) = n \<and> length (r_failed s) \<le> sent (r_loops s) \<and>
     r_failed s = (case received (r_main s) of None \<Rightarrow> r_errs s | Some e \<Rightarrow> e # r_errs s)"

text \<open>\<open>Run\<close> is about to return only when every loop has ended, and returns nil only when none of them failed.\<close>

definition returning :: "main_state \<Rightarrow> bool" where
  "returning m = (case m of Returning _ \<Rightarrow> True | Done _ \<Rightarrow> True | _ \<Rightarrow> False)"

definition main_ok :: "run_state \<Rightarrow> bool" where
  "main_ok s \<longleftrightarrow> (returning (r_main s) \<longrightarrow>
     set (r_loops s) \<subseteq> {Ended} \<and> (received (r_main s) = None \<longrightarrow> r_failed s = []))"

text \<open>The fields of the worker are set while \<open>Run\<close> has not returned; a nil result of \<open>Stop\<close> means it has.\<close>

definition is_done :: "main_state \<Rightarrow> bool" where
  "is_done m = (case m of Done _ \<Rightarrow> True | _ \<Rightarrow> False)"

definition life_ok :: "run_state \<Rightarrow> bool" where
  "life_ok s \<longleftrightarrow>
     r_life s = (if is_done (r_main s)
       then \<lparr>lc_stop = None, lc_interrupt = None, lc_done = None, lc_closed = [0]\<rparr>
       else \<lparr>lc_stop = Some 0, lc_interrupt = Some 0, lc_done = Some 0, lc_closed = []\<rparr>) \<and>
     (r_stop s = Stopped None \<longrightarrow> is_done (r_main s))"

text \<open>A failure cancels both contexts.\<close>

definition cancel_ok :: "run_state \<Rightarrow> bool" where
  "cancel_ok s \<longleftrightarrow> (r_failed s \<noteq> [] \<longrightarrow> r_poll s \<and> r_handler s \<or> Cancelling \<in> set (r_loops s)) \<and>
     (is_done (r_main s) \<longrightarrow> r_poll s \<and> r_handler s)"

lemma sent_update:
  "i < length ls \<Longrightarrow> sent (ls[i := y]) + of_bool (ls ! i = Cancelling \<or> ls ! i = Ended) =
     sent ls + of_bool (y = Cancelling \<or> y = Ended)"
proof (induction ls arbitrary: i)
  case (Cons l ls)
  then show ?case by (cases i) (auto simp: sent_def)
qed simp

lemma set_update_keeps: "x \<in> set ls \<Longrightarrow> ls ! i \<noteq> x \<Longrightarrow> x \<in> set (ls[i := y])"
  by (metis in_set_conv_nth length_list_update nth_list_update_neq)

lemma not_ended: "i < length ls \<Longrightarrow> set ls \<subseteq> {Ended} \<Longrightarrow> ls ! i = Ended"
  using nth_mem by fastforce

lemma chan_okD:
  assumes "chan_ok n s"
  shows "length (r_loops s) = n" "length (r_failed s) \<le> sent (r_loops s)" "length (r_errs s) \<le> length (r_failed s)"
  using assms by (auto simp: chan_ok_def split: option.splits)

lemma send_has_room:
  assumes "chan_ok n s" and "i < length (r_loops s)" and "r_loops s ! i = Sending err"
  shows "length (r_errs s) < length (r_loops s)"
proof -
  have "sent (r_loops s) < length (r_loops s)"
    unfolding sent_def using nth_mem [OF assms(2)] assms(3) by (intro length_filter_less [of "r_loops s ! i"]) auto
  with chan_okD(2,3) [OF assms(1)] show ?thesis by linarith
qed

lemma chan_ok_step: "run_step s s' \<Longrightarrow> chan_ok n s \<Longrightarrow> chan_ok n s'"
proof (induction rule: run_step.induct)
  case (loop_ends i s)
  then show ?case using sent_update [of i "r_loops s" Ended] by (auto simp: chan_ok_def split: option.splits)
next
  case (loop_fails i s err)
  then show ?case using sent_update [of i "r_loops s" "Sending err"] by (auto simp: chan_ok_def split: option.splits)
next
  case (loop_sends i s err)
  then show ?case using sent_update [of i "r_loops s" Cancelling] by (auto simp: chan_ok_def split: option.splits)
next
  case (loop_cancels i s)
  then show ?case using sent_update [of i "r_loops s" Ended] by (auto simp: chan_ok_def split: option.splits)
qed (auto simp: chan_ok_def received_def split: list.splits prod.splits option.splits)

lemma main_ok_step: "run_step s s' \<Longrightarrow> chan_ok n s \<Longrightarrow> main_ok s \<Longrightarrow> main_ok s'"
  by (induction rule: run_step.induct)
    (auto simp: main_ok_def chan_ok_def received_def returning_def dest: not_ended
      split: list.splits prod.splits option.splits)

lemma life_ok_step: "run_step s s' \<Longrightarrow> life_ok s \<Longrightarrow> life_ok s'"
  by (induction rule: run_step.induct)
    (auto simp: life_ok_def is_done_def lifecycle_def finish_def
      split: list.splits prod.splits option.splits if_splits)

lemma cancel_ok_step: "run_step s s' \<Longrightarrow> main_ok s \<Longrightarrow> cancel_ok s \<Longrightarrow> cancel_ok s'"
proof (induction rule: run_step.induct)
  case (loop_ends i s)
  then show ?case using set_update_keeps [of Cancelling "r_loops s" i] by (auto simp: cancel_ok_def)
next
  case (loop_fails i s err)
  then show ?case using set_update_keeps [of Cancelling "r_loops s" i] by (auto simp: cancel_ok_def)
next
  case (loop_sends i s err)
  then have "Cancelling \<in> set ((r_loops s)[i := Cancelling])" by (simp add: set_update_memI)
  then show ?case using loop_sends by (simp add: cancel_ok_def)
qed (auto simp: cancel_ok_def is_done_def split: list.splits prod.splits option.splits)

lemma run_invariants:
  "run_reachable n s \<Longrightarrow> chan_ok n s \<and> main_ok s \<and> life_ok s \<and> cancel_ok s"
proof (induction rule: run_reachable.induct)
  case init
  then show ?case
    by (simp add: chan_ok_def main_ok_def life_ok_def cancel_ok_def run_init_def start_def received_def
        returning_def is_done_def)
next
  case (step s s')
  then show ?case using chan_ok_step main_ok_step life_ok_step cancel_ok_step by blast
qed

section \<open>Run joins its loops\<close>

text \<open>C14. When \<open>Run\<close> returns, every loop has ended and both contexts are cancelled; it returns the first
  error that a loop sent, and nil exactly when no loop failed. A failed loop never blocks on the error
  channel. While \<open>Run\<close> is active another \<open>Run\<close> of the same worker is refused, afterwards one may start;
  \<open>Stop\<close> returns nil only when \<open>Run\<close> has returned.\<close>

theorem Run_joins:
  assumes "run_reachable n s"
  shows "(r_main s = Done r \<longrightarrow> set (r_loops s) \<subseteq> {Ended} \<and> r_poll s \<and> r_handler s \<and>
      r = (case r_failed s of [] \<Rightarrow> None | err # _ \<Rightarrow> Some err)) \<and>
    (i < n \<and> r_loops s ! i = Sending err \<longrightarrow> length (r_errs s) < length (r_loops s)) \<and>
    (fst (start a b d (r_life s)) \<longleftrightarrow> (\<exists>r. r_main s = Done r)) \<and>
    (r_stop s = Stopped None \<longrightarrow> (\<exists>r. r_main s = Done r))"
proof -
  note inv = run_invariants [OF assms]
  have dn: "is_done (r_main s) \<longleftrightarrow> (\<exists>r. r_main s = Done r)" by (auto simp: is_done_def split: main_state.splits)
  have "r_main s = Done r \<longrightarrow> set (r_loops s) \<subseteq> {Ended} \<and> r_poll s \<and> r_handler s \<and>
      r = (case r_failed s of [] \<Rightarrow> None | err # _ \<Rightarrow> Some err)"
    using inv by (auto simp: chan_ok_def main_ok_def cancel_ok_def is_done_def returning_def received_def
        split: list.splits option.splits)
  moreover have "length (r_errs s) < length (r_loops s)" if "i < n" "r_loops s ! i = Sending err"
    using send_has_room that chan_okD(1) inv by blast
  moreover have "fst (start a b d (r_life s)) \<longleftrightarrow> (\<exists>r. r_main s = Done r)"
    using conjunct1 [OF conjunct2 [OF conjunct2 [OF inv]]] dn by (auto simp: life_ok_def start_def)
  moreover have "r_stop s = Stopped None \<longrightarrow> (\<exists>r. r_main s = Done r)" using inv dn by (simp add: life_ok_def)
  ultimately show ?thesis by blast
qed

text \<open>Two loops of which one fails, while \<open>Run\<close> waits.\<close>

lemma sample_run:
  assumes "n = 2"
  shows "run_reachable n ((run_init n)\<lparr>r_loops := [Sending Canceled, Looping]\<rparr>)"
  using run_reachable.step [OF run_reachable.init [of n] run_step.loop_fails [of 0 "run_init n" Canceled]] assms
  by (simp add: run_init_def numeral_2_eq_2)

theorem Run_joins_witness:
  "\<exists>s. run_reachable 2 s \<and> r_loops s ! 0 = Sending Canceled \<and> length (r_errs s) < length (r_loops s) \<and>
     \<not> fst (start 1 1 1 (r_life s))"
proof -
  let ?s = "(run_init 2)\<lparr>r_loops := [Sending Canceled, Looping]\<rparr>"
  have r: "run_reachable 2 ?s" by (rule sample_run) simp
  have "r_main ?s = Selecting" by (simp add: run_init_def)
  with Run_joins [OF r, of None 0 Canceled 1 1 1] r show ?thesis by (intro exI [of _ ?s]) simp
qed

section \<open>Run returns\<close>

text \<open>Steps that the loops and \<open>Run\<close> still have to take.\<close>

fun loop_left :: "loop_state \<Rightarrow> nat" where
  "loop_left Looping = 3" | "loop_left (Sending _) = 2" | "loop_left Cancelling = 1" | "loop_left Ended = 0"

fun main_left :: "main_state \<Rightarrow> nat" where
  "main_left Selecting = 3" | "main_left (Draining _) = 2" | "main_left (Returning _) = 1" | "main_left (Done _) = 0"

definition run_left :: "run_state \<Rightarrow> nat" where
  "run_left s = sum_list (map loop_left (r_loops s)) + main_left (r_main s)"

lemma run_left_bound: "chan_ok n s \<Longrightarrow> run_left s \<le> 3 * n + 3"
proof -
  assume "chan_ok n s"
  moreover have "loop_left l \<le> 3" for l by (cases l) auto
  then have "sum_list (map loop_left ls) \<le> 3 * length ls" for ls by (induction ls) (auto simp: add_mono)
  moreover have "main_left m \<le> 3" for m by (cases m) auto
  ultimately show ?thesis unfolding run_left_def chan_okD(1) [OF \<open>chan_ok n s\<close>, symmetric]
    by (intro add_mono)
qed

lemma sum_list_update_less:
  fixes f :: "'a \<Rightarrow> nat"
  shows "i < length ls \<Longrightarrow> f y < f (ls ! i) \<Longrightarrow> sum_list (map f (ls[i := y])) < sum_list (map f ls)"
proof (induction ls arbitrary: i)
  case (Cons l ls)
  then show ?case by (cases i) auto
qed simp

text \<open>The steps of the loops and of \<open>Run\<close>, as opposed to those of the callers.\<close>

inductive own_step :: "run_state \<Rightarrow> run_state \<Rightarrow> bool" where
  own: "run_step s s' \<Longrightarrow> run_left s' < run_left s \<Longrightarrow> own_step s s'"

lemma run_left_step: "run_step s s' \<Longrightarrow> run_left s' \<le> run_left s"
proof (induction rule: run_step.induct)
  case (loop_ends i s)
  then show ?case using sum_list_update_less [OF loop_ends(1)] by (simp add: run_left_def less_imp_le)
next
  case (loop_fails i s err)
  then show ?case using sum_list_update_less [OF loop_fails(1)] by (simp add: run_left_def less_imp_le)
next
  case (loop_sends i s err)
  then show ?case using sum_list_update_less [OF loop_sends(1)] by (simp add: run_left_def less_imp_le)
next
  case (loop_cancels i s)
  then show ?case using sum_list_update_less [OF loop_cancels(1)] by (simp add: run_left_def less_imp_le)
qed (simp_all add: run_left_def split: list.split prod.split option.split)

lemma own_stepI: "run_step s s' \<Longrightarrow> run_left s' < run_left s \<Longrightarrow> \<exists>s'. own_step s s'"
  by (blast intro: own_step.own)

lemma own_step_exists:
  assumes "run_reachable n s" and "\<nexists>r. r_main s = Done r" and "Looping \<notin> set (r_loops s)"
  shows "\<exists>s'. own_step s s'"
proof (cases "set (r_loops s) \<subseteq> {Ended}")
  case False
  then obtain i where i: "i < length (r_loops s)" "r_loops s ! i \<noteq> Ended" by (metis in_set_conv_nth insertI1 subsetI)
  have "r_loops s ! i \<noteq> Looping" using i(1) assms(3) by (metis nth_mem)
  then consider err where "r_loops s ! i = Sending err" | "r_loops s ! i = Cancelling"
    using i(2) by (cases "r_loops s ! i") auto
  then show ?thesis
  proof cases
    case 1
    have "length (r_errs s) < length (r_loops s)"
      using send_has_room [OF _ i(1) 1] run_invariants [OF assms(1)] by blast
    from run_step.loop_sends [OF i(1) 1 this] show ?thesis
      by (rule own_stepI) (simp add: run_left_def sum_list_update_less i 1)
  next
    case 2
    from run_step.loop_cancels [OF i(1) 2] show ?thesis
      by (rule own_stepI) (simp add: run_left_def sum_list_update_less i 2)
  qed
next
  case True
  show ?thesis
  proof (cases "r_main s")
    case Selecting
    from run_step.main_workers_done [OF this True] show ?thesis
      by (rule own_stepI) (simp add: run_left_def Selecting split: list.split)
  next
    case (Draining err)
    from run_step.main_drained [OF this True] show ?thesis
      by (rule own_stepI) (simp add: run_left_def Draining)
  next
    case (Returning r)
    from run_step.main_returns [OF this] show ?thesis
      by (rule own_stepI) (simp add: run_left_def Returning)
  qed (use assms(2) in blast)
qed

text \<open>C39. \<open>Run\<close> returns once its loops have: as long as it has not returned and no loop is still running, the
  loops or \<open>Run\<close> itself can take a step, each such step brings the end closer, and no step of anyone takes it
  further away; so after at most \<open>3 * n + 3\<close> of them \<open>Run\<close> has returned.\<close>

theorem Run_returns:
  assumes "run_reachable n s" and "Looping \<notin> set (r_loops s)"
  shows "((\<exists>r. r_main s = Done r) \<or> (\<exists>s'. run_step s s' \<and> run_left s' < run_left s)) \<and>
    (\<forall>s'. run_step s s' \<longrightarrow> run_left s' \<le> run_left s) \<and> run_left s \<le> 3 * n + 3"
proof (intro conjI allI impI)
  show "(\<exists>r. r_main s = Done r) \<or> (\<exists>s'. run_step s s' \<and> run_left s' < run_left s)"
    using own_step_exists [OF assms(1) _ assms(2)] by (blast elim: own_step.cases)
  show "run_step s s' \<Longrightarrow> run_left s' \<le> run_left s" for s' by (rule run_left_step)
  show "run_left s \<le> 3 * n + 3" using run_left_bound run_invariants [OF assms(1)] by blast
qed

theorem Run_returns_witness:
  "\<exists>s. run_reachable 1 s \<and> r_main s = Selecting \<and> (\<exists>s'. run_step s s' \<and> run_left s' < run_left s)"
proof -
  let ?s = "(run_init 1)\<lparr>r_loops := [Ended]\<rparr>"
  have r: "run_reachable 1 ?s"
    using run_reachable.step [OF run_reachable.init [of 1] run_step.loop_ends [of 0 "run_init 1"]]
    by (simp add: run_init_def)
  moreover have m: "r_main ?s = Selecting" by (simp add: run_init_def)
  moreover have "\<exists>s'. run_step ?s s' \<and> run_left s' < run_left ?s"
    using Run_returns [OF r] m by simp
  ultimately show ?thesis by blast
qed

end
