(* ===== verification/Batcher.thy ===== *)
theory Batcher
  imports Prelude "HOL-Library.Sublist" "HOL-Library.Multiset"
begin

text \<open>
  Package \<open>batcher\<close> (\<open>src/batcher\<close>): configuration, the worker that collects items into batches, and the
  batcher's admission of items, barriers and shutdown. The worker is a record with the operations
  \<open>accept\<close> and \<open>flush\<close>; the goroutines (callers in \<open>submit\<close>, the worker, the closer that \<open>stop\<close> starts)
  and the cancellation of the processing context are a transition system over the buffered channel of requests. The handler's world is a parameter, and a
  call of the handler belongs to the step of the worker that makes it.
\<close>

section \<open>Configuration\<close>

definition ErrInvalidOption :: go_error where
  "ErrInvalidOption = Sentinel ''batcher: invalid option''"
definition ErrNilHandler :: go_error where
  "ErrNilHandler = Sentinel ''batcher: handler must not be nil''"
definition ErrInvalidContext :: go_error where
  "ErrInvalidContext = Sentinel ''batcher: context must not be nil''"
definition ErrClosed :: go_error where
  "ErrClosed = Sentinel ''batcher: closed''"
definition ErrFull :: go_error where
  "ErrFull = Sentinel ''batcher: queue is full''"

record Result =
  Size :: int
  Err :: "go_error option"

record 'w config =
  batchSize :: int
  flushInterval :: int
  queueSize :: int
  onResult :: "(Result \<Rightarrow> 'w \<Rightarrow> 'w) option"

datatype 'w Option =
    WithBatchSize int
  | WithFlushInterval int
  | WithQueueSize int
  | WithOnResult "(Result \<Rightarrow> 'w \<Rightarrow> 'w) option"

fun apply_option :: "'w Option \<Rightarrow> 'w config \<Rightarrow> 'w config" where
  "apply_option (WithBatchSize n) c = c\<lparr>batchSize := n\<rparr>"
| "apply_option (WithFlushInterval interval) c = c\<lparr>flushInterval := interval\<rparr>"
| "apply_option (WithQueueSize n) c = c\<lparr>queueSize := n\<rparr>"
| "apply_option (WithOnResult fn) c = c\<lparr>onResult := fn\<rparr>"

definition newConfig :: "'w Option option list \<Rightarrow> go_error + 'w config" where
  "newConfig options =
     (let c = fold (\<lambda>opt c. case opt of Some x \<Rightarrow> apply_option x c | None \<Rightarrow> c) options
                \<lparr>batchSize = 100, flushInterval = 1000000000, queueSize = 1000, onResult = None\<rparr>
      in if batchSize c \<le> 0 then Inl (Wrapped ''batch size must be positive'' ErrInvalidOption)
         else if flushInterval c \<le> 0 then Inl (Wrapped ''flush interval must be positive'' ErrInvalidOption)
         else if queueSize c < 0 then Inl (Wrapped ''queue size must not be negative'' ErrInvalidOption)
         else Inr c)"

section \<open>The worker\<close>

text \<open>A request is an item or a flush with the number of its completion. Of the timer the worker knows
  whether it is armed (\<open>tick\<close> is not nil). \<open>calls\<close> records the handler's calls and what they returned.\<close>

datatype 'a request = Item 'a | FlushBarrier nat

type_synonym ('a, 'w) Handler = "'a list \<Rightarrow> 'w \<Rightarrow> go_error option \<times> 'w"

record 'a worker =
  batch :: "'a list"
  tick :: bool
  firstErr :: "go_error option"
  calls :: "('a list \<times> go_error option) list"

definition flush :: "('a, 'w) Handler \<Rightarrow> 'w config \<Rightarrow> 'a worker \<Rightarrow> 'w \<Rightarrow> 'a worker \<times> 'w" where
  "flush handler c k w =
     (if length (batch k) = 0 then (k, w)
      else
        let (err, w1) = handler (batch k) w;
            w2 = (case onResult c of Some fn \<Rightarrow> fn \<lparr>Size = int (length (batch k)), Err = err\<rparr> w1 | None \<Rightarrow> w1)
        in (k\<lparr>tick := False, batch := [], firstErr := (if err \<noteq> None \<and> firstErr k = None then err else firstErr k),
              calls := calls k @ [(batch k, err)]\<rparr>, w2))"

text \<open>The result is the completion of a barrier, if the request was one, with the error it gets.\<close>

definition accept :: "('a, 'w) Handler \<Rightarrow> 'w config \<Rightarrow> 'a request \<Rightarrow> 'a worker \<Rightarrow> 'w \<Rightarrow>
    'a worker \<times> 'w \<times> (nat \<times> go_error option) option" where
  "accept handler c req k w =
     (case req of
        FlushBarrier i \<Rightarrow> (let (k1, w1) = flush handler c k w in (k1, w1, Some (i, firstErr k1)))
      | Item item \<Rightarrow>
          let k1 = (if length (batch k) = 0 then k\<lparr>batch := [], tick := True\<rparr> else k);
              k2 = k1\<lparr>batch := batch k1 @ [item]\<rparr>
          in if int (length (batch k2)) = batchSize c
             then (let (k3, w3) = flush handler c k2 w in (k3, w3, None))
             else (k2, w, None))"

section \<open>The batcher\<close>

text \<open>
  \<open>requests\<close> is the content of the channel and \<open>requests_closed\<close> whether it is closed; \<open>submitting\<close> are the calls of
  \<open>submit\<close> that wait in their \<open>select\<close>, each with the cause of its context; \<open>b_ctx\<close> is that of the processing
  context, which the worker holds; \<open>completions\<close> are the barriers that are done and \<open>finished\<close> the result of the
  worker. \<open>accepted\<close> records the requests in the order in which the channel took them.
\<close>

record ('a, 'w) Batcher =
  requests :: "'a request list"
  requests_closed :: bool
  closed :: bool
  submitting :: "(('w \<Rightarrow> go_error option) \<times> 'a request) list"
  next_flush :: nat
  b_ctx :: "'w \<Rightarrow> go_error option"
  b_worker :: "'a worker"
  b_world :: 'w
  completions :: "nat \<rightharpoonup> go_error option"
  finished :: "go_error option option"
  accepted :: "'a request list"

definition validateContext :: "'w wctx \<Rightarrow> 'w \<Rightarrow> go_error option" where
  "validateContext ctx w = (case ctx of None \<Rightarrow> Some ErrInvalidContext | Some cause \<Rightarrow> cause w)"

definition New :: "'w wctx \<Rightarrow> ('a, 'w) Handler option \<Rightarrow> 'w Option option list \<Rightarrow> 'w \<Rightarrow>
    go_error + ('a, 'w) Batcher \<times> 'w config" where
  "New ctx handler options w =
     (case validateContext ctx w of Some err \<Rightarrow> Inl err
      | None \<Rightarrow>
     (case handler of None \<Rightarrow> Inl ErrNilHandler
      | Some _ \<Rightarrow>
     (case newConfig options of Inl err \<Rightarrow> Inl err
      | Inr c \<Rightarrow> Inr
          (\<lparr>requests = [], requests_closed = False, closed = False, submitting = [], next_flush = 0,
            b_ctx = the ctx, b_worker = \<lparr>batch = [], tick = False, firstErr = None, calls = []\<rparr>, b_world = w,
            completions = Map.empty, finished = None, accepted = []\<rparr>, c))))"

text \<open>The part of \<open>submit\<close> before its \<open>select\<close>: a refusal, or the call joins the submitters.\<close>

definition submit :: "'w wctx \<Rightarrow> 'a request \<Rightarrow> ('a, 'w) Batcher \<Rightarrow> go_error option \<times> ('a, 'w) Batcher" where
  "submit ctx req b =
     (case validateContext ctx (b_world b) of Some err \<Rightarrow> (Some err, b)
      | None \<Rightarrow> if closed b then (Some ErrClosed, b) else (None, b\<lparr>submitting := submitting b @ [(the ctx, req)]\<rparr>))"

definition Add :: "'w wctx \<Rightarrow> 'a \<Rightarrow> ('a, 'w) Batcher \<Rightarrow> go_error option \<times> ('a, 'w) Batcher" where
  "Add ctx item b = submit ctx (Item item) b"

definition Flush :: "'w wctx \<Rightarrow> ('a, 'w) Batcher \<Rightarrow> go_error option \<times> ('a, 'w) Batcher" where
  "Flush ctx b =
     (let result = next_flush b in submit ctx (FlushBarrier result) (b\<lparr>next_flush := result + 1\<rparr>))"

text \<open>A channel takes a value when its buffer has room, or (\<open>ready\<close>) when the worker is about to receive.\<close>

definition room :: "'w config \<Rightarrow> bool \<Rightarrow> ('a, 'w) Batcher \<Rightarrow> bool" where
  "room c ready b \<longleftrightarrow> int (length (requests b)) < queueSize c \<or> (ready \<and> requests b = [] \<and> finished b = None)"

definition send :: "'a request \<Rightarrow> ('a, 'w) Batcher \<Rightarrow> ('a, 'w) Batcher" where
  "send req b = b\<lparr>requests := requests b @ [req], accepted := accepted b @ [req]\<rparr>"

definition TryAdd :: "'w config \<Rightarrow> bool \<Rightarrow> 'a \<Rightarrow> ('a, 'w) Batcher \<Rightarrow> go_error option \<times> ('a, 'w) Batcher" where
  "TryAdd c ready item b =
     (if closed b then (Some ErrClosed, b)
      else if room c ready b then (None, send (Item item) b)
      else (Some ErrFull, b))"

definition stop :: "('a, 'w) Batcher \<Rightarrow> ('a, 'w) Batcher" where
  "stop b = (if closed b then b else b\<lparr>closed := True\<rparr>)"

text \<open>\<open>Shutdown\<close> and \<open>Flush\<close> then wait for a completion: its result if it is done, else the cause of the caller's
  context.\<close>

definition wait_completion :: "go_error option option \<Rightarrow> go_error option \<Rightarrow> go_error option option" where
  "wait_completion done cause =
     (case done of Some err \<Rightarrow> Some err | None \<Rightarrow> (case cause of Some err \<Rightarrow> Some (Some err) | None \<Rightarrow> None))"

definition Shutdown :: "'w wctx \<Rightarrow> ('a, 'w) Batcher \<Rightarrow> go_error option \<times> ('a, 'w) Batcher" where
  "Shutdown ctx b = (case ctx of None \<Rightarrow> (Some ErrInvalidContext, b) | Some _ \<Rightarrow> (None, stop b))"

section \<open>The goroutines\<close>

definition remove_at :: "nat \<Rightarrow> 'b list \<Rightarrow> 'b list" where
  "remove_at i xs = take i xs @ drop (Suc i) xs"

text \<open>The loop of the worker: it takes a request, its timer fires, or the channel is closed and drained.\<close>

inductive worker_run :: "('a, 'w) Handler \<Rightarrow> 'w config \<Rightarrow> ('a, 'w) Batcher \<Rightarrow> ('a, 'w) Batcher \<Rightarrow> bool"
  for handler c where
  receive: "finished b = None \<Longrightarrow> requests b = req # reqs \<Longrightarrow> accept handler c req (b_worker b) (b_world b) = (k, w, compl) \<Longrightarrow>
    worker_run handler c b (b\<lparr>requests := reqs, b_worker := k, b_world := w,
      completions := (case compl of None \<Rightarrow> completions b | Some (i, err) \<Rightarrow> (completions b)(i \<mapsto> err))\<rparr>)"
| timer: "finished b = None \<Longrightarrow> tick (b_worker b) \<Longrightarrow> flush handler c (b_worker b) (b_world b) = (k, w) \<Longrightarrow>
    worker_run handler c b (b\<lparr>b_worker := k, b_world := w\<rparr>)"
| finish: "finished b = None \<Longrightarrow> requests b = [] \<Longrightarrow> requests_closed b \<Longrightarrow>
    flush handler c (b_worker b) (b_world b) = (k, w) \<Longrightarrow>
    worker_run handler c b (b\<lparr>b_worker := k, b_world := w, finished := Some (firstErr k)\<rparr>)"

text \<open>A call in the \<open>select\<close> of \<open>submit\<close> leaves it without sending when its own context is done or the batcher
  is closing. The goroutine that \<open>stop\<close> starts closes the channel, once.\<close>

inductive batcher_step :: "('a, 'w) Handler \<Rightarrow> 'w config \<Rightarrow> ('a, 'w) Batcher \<Rightarrow> ('a, 'w) Batcher \<Rightarrow> bool"
  for handler c where
  add: "Add ctx item b = (None, b') \<Longrightarrow> batcher_step handler c b b'"
| flush: "Flush ctx b = (None, b') \<Longrightarrow> batcher_step handler c b b'"
| try_add: "TryAdd c ready item b = (r, b') \<Longrightarrow> batcher_step handler c b b'"
| shutdown: "Shutdown ctx b = (r, b') \<Longrightarrow> batcher_step handler c b b'"
| expired: "b_ctx b (b_world b) \<noteq> None \<Longrightarrow> batcher_step handler c b (stop b)"
| sent: "i < length (submitting b) \<Longrightarrow> room c ready b \<Longrightarrow>
    batcher_step handler c b (send (snd (submitting b ! i)) (b\<lparr>submitting := remove_at i (submitting b)\<rparr>))"
| canceled: "i < length (submitting b) \<Longrightarrow> fst (submitting b ! i) (b_world b) \<noteq> None \<or> closed b \<Longrightarrow>
    batcher_step handler c b (b\<lparr>submitting := remove_at i (submitting b)\<rparr>)"
| close_requests: "closed b \<Longrightarrow> submitting b = [] \<Longrightarrow> \<not> requests_closed b \<Longrightarrow>
    batcher_step handler c b (b\<lparr>requests_closed := True\<rparr>)"
| worker: "worker_run handler c b b' \<Longrightarrow> batcher_step handler c b b'"
| outside: "batcher_step handler c b (b\<lparr>b_world := w\<rparr>)"

inductive batcher_reachable :: "('a, 'w) Handler \<Rightarrow> 'w config \<Rightarrow> ('a, 'w) Batcher \<Rightarrow> bool" for handler c where
  init: "New ctx (Some handler) options w = Inr (b, c) \<Longrightarrow> batcher_reachable handler c b"
| step: "batcher_reachable handler c b \<Longrightarrow> batcher_step handler c b b' \<Longrightarrow> batcher_reachable handler c b'"

section \<open>What the configuration guarantees\<close>

definition config_ok :: "'w config \<Rightarrow> bool" where
  "config_ok c \<longleftrightarrow> 0 < batchSize c \<and> 0 < flushInterval c \<and> 0 \<le> queueSize c"

lemma newConfig_ok: "newConfig options = Inr c \<Longrightarrow> config_ok c"
  by (auto simp: newConfig_def config_ok_def Let_def split: if_splits)

lemma newConfig_error: "newConfig options = Inl err \<Longrightarrow> errors_Is err ErrInvalidOption"
  by (auto simp: newConfig_def Let_def split: if_splits)

section \<open>The worker keeps every item, in order\<close>

definition items :: "'a request list \<Rightarrow> 'a list" where
  "items reqs = List.map_filter (\<lambda>r. case r of Item x \<Rightarrow> Some x | FlushBarrier _ \<Rightarrow> None) reqs"

lemma items_simps [simp]:
  "items [] = []" "items (Item x # reqs) = x # items reqs" "items (FlushBarrier i # reqs) = items reqs"
  "items (reqs @ reqs') = items reqs @ items reqs'"
  by (simp_all add: items_def map_filter_def)

definition first_error :: "('a list \<times> go_error option) list \<Rightarrow> go_error option" where
  "first_error cs = (case List.map_filter snd cs of [] \<Rightarrow> None | err # _ \<Rightarrow> Some err)"

lemma first_error_simps [simp]:
  "first_error [] = None"
  "first_error (cs @ [(xs, err)]) = (if first_error cs = None then err else first_error cs)"
  by (auto simp: first_error_def map_filter_def split: list.splits)

definition handled :: "'a worker \<Rightarrow> 'a list" where
  "handled k = concat (map fst (calls k))"

text \<open>\<open>lim\<close> bounds the current batch: below the batch size, or equal to it just before a flush.\<close>

definition worker_ok :: "'w config \<Rightarrow> int \<Rightarrow> 'a worker \<Rightarrow> bool" where
  "worker_ok c lim k \<longleftrightarrow> int (length (batch k)) \<le> lim \<and> (tick k \<longleftrightarrow> batch k \<noteq> []) \<and> firstErr k = first_error (calls k) \<and>
     (\<forall>call \<in> set (calls k). fst call \<noteq> [] \<and> int (length (fst call)) \<le> batchSize c)"

lemma flush_ok:
  assumes "worker_ok c (batchSize c) k" and "0 < batchSize c" and "flush handler c k w = (k', w')"
  shows "worker_ok c (batchSize c - 1) k' \<and> batch k' = [] \<and> handled k' = handled k @ batch k \<and> prefix (calls k) (calls k')"
  using assms by (auto simp: flush_def worker_ok_def handled_def Let_def split: if_splits prod.splits)

lemma accept_ok:
  assumes "worker_ok c (batchSize c - 1) k" and "0 < batchSize c" and "accept handler c req k w = (k', w', compl)"
  shows "worker_ok c (batchSize c - 1) k' \<and> handled k' @ batch k' = handled k @ batch k @ items [req] \<and>
    prefix (calls k) (calls k') \<and>
    (case req of Item _ \<Rightarrow> compl = None
     | FlushBarrier i \<Rightarrow> compl = Some (i, first_error (calls k')) \<and> handled k' = handled k @ batch k)"
proof (cases req)
  case (FlushBarrier i)
  obtain k1 w1 where f: "flush handler c k w = (k1, w1)" by fastforce
  have "worker_ok c (batchSize c) k" using assms(1) by (simp add: worker_ok_def)
  from flush_ok [OF this assms(2) f] assms(3) f FlushBarrier show ?thesis
    by (auto simp: accept_def worker_ok_def)
next
  case (Item x)
  define k2 where "k2 = (if length (batch k) = 0 then k\<lparr>batch := [], tick := True\<rparr> else k)\<lparr>batch := batch k @ [x]\<rparr>"
  have k2: "worker_ok c (batchSize c) k2" "handled k2 = handled k" "calls k2 = calls k"
    using assms(1) by (auto simp: k2_def worker_ok_def handled_def)
  have eq: "accept handler c req k w = (if int (length (batch k2)) = batchSize c
      then (let (k3, w3) = flush handler c k2 w in (k3, w3, None)) else (k2, w, None))"
    using Item by (simp add: accept_def k2_def Let_def)
  show ?thesis
  proof (cases "int (length (batch k2)) = batchSize c")
    case True
    obtain k3 w3 where f: "flush handler c k2 w = (k3, w3)" by fastforce
    from flush_ok [OF k2(1) assms(2) f] assms(3) eq f True Item k2 show ?thesis by (auto simp: k2_def)
  next
    case False
    then show ?thesis using assms(3) eq Item k2 by (auto simp: worker_ok_def k2_def)
  qed
qed

section \<open>The batcher keeps every item, in order\<close>

definition barrier_ok :: "('a, 'w) Batcher \<Rightarrow> nat \<Rightarrow> go_error option \<Rightarrow> bool" where
  "barrier_ok b i err \<longleftrightarrow> (\<exists>before after n. accepted b = before @ FlushBarrier i # after \<and>
     concat (map fst (take n (calls (b_worker b)))) = items before \<and> err = first_error (take n (calls (b_worker b))))"

definition batcher_ok :: "'w config \<Rightarrow> ('a, 'w) Batcher \<Rightarrow> bool" where
  "batcher_ok c b \<longleftrightarrow> worker_ok c (batchSize c - 1) (b_worker b) \<and>
     (\<exists>received. accepted b = received @ requests b \<and>
        items received = handled (b_worker b) @ batch (b_worker b)) \<and>
     (\<forall>i err. completions b i = Some err \<longrightarrow> barrier_ok b i err) \<and>
     (requests_closed b \<longrightarrow> closed b \<and> submitting b = []) \<and>
     (\<forall>err. finished b = Some err \<longrightarrow> requests_closed b \<and> requests b = [] \<and> batch (b_worker b) = [] \<and>
        err = first_error (calls (b_worker b)))"

text \<open>What was completed stays true as more is accepted and handled.\<close>

lemma barrier_ok_mono:
  assumes "barrier_ok b i err" and "prefix (accepted b) (accepted b')" and "prefix (calls (b_worker b)) (calls (b_worker b'))"
  shows "barrier_ok b' i err"
proof -
  from assms(1) obtain before after n where a: "accepted b = before @ FlushBarrier i # after"
    "concat (map fst (take n (calls (b_worker b)))) = items before" "err = first_error (take n (calls (b_worker b)))"
    by (auto simp: barrier_ok_def)
  obtain cs where cs: "calls (b_worker b') = calls (b_worker b) @ cs" using assms(3) by (auto elim: prefixE)
  obtain reqs where "accepted b' = accepted b @ reqs" using assms(2) by (auto elim: prefixE)
  moreover have "take (min n (length (calls (b_worker b)))) (calls (b_worker b')) = take n (calls (b_worker b))"
    by (simp add: cs min_def)
  ultimately show ?thesis using a unfolding barrier_ok_def
    by (intro exI [of _ before] exI [of _ "after @ reqs"] exI [of _ "min n (length (calls (b_worker b)))"]) simp
qed

lemma batcher_ok_send:
  assumes "batcher_ok c b" and "\<not> requests_closed b"
  shows "batcher_ok c (send req b)"
proof -
  have "barrier_ok (send req b) i err" if "barrier_ok b i err" for i err
    using that by (rule barrier_ok_mono) (simp_all add: send_def)
  then show ?thesis using assms by (auto simp: batcher_ok_def send_def)
qed

text \<open>Steps that change nothing the invariant speaks of, or only the calls that wait to submit.\<close>

lemma batcher_ok_cong:
  assumes "batcher_ok c b" and "requests b' = requests b" "requests_closed b' = requests_closed b" "closed b' = closed b"
    and "b_worker b' = b_worker b" "completions b' = completions b" "finished b' = finished b" "accepted b' = accepted b"
    and "requests_closed b \<Longrightarrow> submitting b' = []"
  shows "batcher_ok c b'"
  using assms(1,9) unfolding batcher_ok_def barrier_ok_def assms(2-8) by simp

lemma completions_ok: "batcher_ok c b \<Longrightarrow> completions b i = Some err \<Longrightarrow> barrier_ok b i err"
  by (simp add: batcher_ok_def)

lemma batcher_ok_receive:
  assumes "batcher_ok c b" and "0 < batchSize c" and "finished b = None" and "requests b = req # reqs"
    and "accept handler c req (b_worker b) (b_world b) = (k, w, compl)"
  shows "batcher_ok c (b\<lparr>requests := reqs, b_worker := k, b_world := w,
      completions := (case compl of None \<Rightarrow> completions b | Some (i, err) \<Rightarrow> (completions b)(i \<mapsto> err))\<rparr>)"
    (is "batcher_ok c ?b")
proof -
  obtain received where r: "accepted b = received @ requests b" "items received = handled (b_worker b) @ batch (b_worker b)"
    using assms(1) by (auto simp: batcher_ok_def)
  have "worker_ok c (batchSize c - 1) (b_worker b)" using assms(1) by (simp add: batcher_ok_def)
  note acc = accept_ok [OF this assms(2,5)]
  have k: "worker_ok c (batchSize c - 1) k" "prefix (calls (b_worker b)) (calls k)"
    using acc by blast+
  have h: "handled k @ batch k = items (received @ [req])" using acc r(2) by simp
  have old: "barrier_ok ?b i err" if "completions b i = Some err" for i err
    using completions_ok [OF assms(1) that] by (rule barrier_ok_mono) (simp_all add: k(2))
  have "barrier_ok ?b i err" if "completions ?b i = Some err" for i err
  proof (cases req)
    case (Item x)
    then show ?thesis using that old acc by simp
  next
    case (FlushBarrier j)
    have "barrier_ok ?b j (first_error (calls k))"
      unfolding barrier_ok_def using r assms(4) acc FlushBarrier
      by (intro exI [of _ received] exI [of _ reqs] exI [of _ "length (calls k)"]) (simp add: handled_def)
    then show ?thesis using that old acc FlushBarrier by (cases "i = j") simp_all
  qed
  moreover have "\<exists>received. accepted ?b = received @ requests ?b \<and> items received = handled k @ batch k"
    using r(1) assms(4) h by (intro exI [of _ "received @ [req]"]) simp
  ultimately show ?thesis using assms(1,3) k(1) by (simp add: batcher_ok_def)
qed

lemma batcher_ok_flush:
  assumes "batcher_ok c b" and "0 < batchSize c" and "flush handler c (b_worker b) (b_world b) = (k, w)"
    and "finished b = None" and "fin = None \<or> fin = Some (firstErr k) \<and> requests_closed b \<and> requests b = []"
  shows "batcher_ok c (b\<lparr>b_worker := k, b_world := w, finished := fin\<rparr>)" (is "batcher_ok c ?b")
proof -
  have "worker_ok c (batchSize c) (b_worker b)" using assms(1) by (auto simp: batcher_ok_def worker_ok_def)
  note k = flush_ok [OF this assms(2,3)]
  have "barrier_ok ?b i err" if "completions b i = Some err" for i err
    using completions_ok [OF assms(1) that] by (rule barrier_ok_mono) (simp_all add: k)
  then show ?thesis using assms(1,5) k by (auto simp: batcher_ok_def worker_ok_def)
qed

lemma batcher_ok_stop: "batcher_ok c b \<Longrightarrow> batcher_ok c (stop b)"
  by (simp add: stop_def batcher_ok_def barrier_ok_def)

lemma batcher_ok_worker:
  assumes "worker_run handler c b b'" and "batcher_ok c b" and "0 < batchSize c"
  shows "batcher_ok c b'"
  using assms(1)
proof cases
  case (receive req reqs k w compl)
  then show ?thesis using batcher_ok_receive [OF assms(2,3)] by blast
next
  case (timer k w)
  have "b\<lparr>b_worker := k, b_world := w, finished := None\<rparr> = b\<lparr>b_worker := k, b_world := w\<rparr>"
    using timer(2) by (cases b) simp
  then show ?thesis using batcher_ok_flush [OF assms(2,3) timer(4) timer(2), of None] timer(1) by simp
next
  case (finish k w)
  then show ?thesis using batcher_ok_flush [OF assms(2,3) finish(5) finish(2), of "Some (firstErr k)"] by simp
qed

lemma batcher_ok_step:
  assumes "batcher_step handler c b b'" and "batcher_ok c b" and "0 < batchSize c"
  shows "batcher_ok c b'"
  using assms(1)
proof cases
  case (add ctx item)
  then have "\<not> closed b" "b' = b\<lparr>submitting := submitting b @ [(the ctx, Item item)]\<rparr>"
    by (auto simp: Add_def submit_def split: option.splits if_splits)
  then show ?thesis using assms(2) by (intro batcher_ok_cong [OF assms(2)]) (auto simp: batcher_ok_def)
next
  case (flush ctx)
  then have "\<not> closed b" "b' = b\<lparr>next_flush := Suc (next_flush b), submitting := submitting b @ [(the ctx, FlushBarrier (next_flush b))]\<rparr>"
    by (auto simp: Flush_def submit_def Let_def split: option.splits if_splits)
  then show ?thesis using assms(2) by (intro batcher_ok_cong [OF assms(2)]) (auto simp: batcher_ok_def)
next
  case (try_add ready item r)
  then consider "b' = b" | "\<not> closed b" "b' = send (Item item) b" by (auto simp: TryAdd_def split: if_splits)
  then show ?thesis
  proof cases
    case 2
    then have "\<not> requests_closed b" using assms(2) by (auto simp: batcher_ok_def)
    then show ?thesis using batcher_ok_send [OF assms(2)] 2 by simp
  qed (use assms(2) in simp)
next
  case (shutdown ctx r)
  then show ?thesis using assms(2) batcher_ok_stop [OF assms(2)] by (auto simp: Shutdown_def split: option.splits)
next
  case expired
  then show ?thesis using batcher_ok_stop [OF assms(2)] by simp
next
  case (sent i ready)
  then have nc: "\<not> requests_closed b" using assms(2) by (auto simp: batcher_ok_def)
  then have "batcher_ok c (b\<lparr>submitting := remove_at i (submitting b)\<rparr>)"
    by (intro batcher_ok_cong [OF assms(2)]) auto
  then show ?thesis unfolding sent(1) using nc by (intro batcher_ok_send) auto
next
  case (canceled i)
  then have "\<not> requests_closed b" using assms(2) by (auto simp: batcher_ok_def)
  then show ?thesis unfolding canceled(1) by (intro batcher_ok_cong [OF assms(2)]) auto
next
  case close_requests
  then show ?thesis using assms(2) by (simp add: batcher_ok_def barrier_ok_def)
next
  case worker
  then show ?thesis using batcher_ok_worker assms(2,3) by blast
next
  case (outside w)
  then show ?thesis using assms(2) by (intro batcher_ok_cong [OF assms(2)]) (auto simp: batcher_ok_def)
qed

lemma batcher_ok_reachable: "batcher_reachable handler c b \<Longrightarrow> batcher_ok c b \<and> config_ok c"
proof (induction rule: batcher_reachable.induct)
  case (init ctx options w b)
  then show ?case
    by (auto simp: New_def newConfig_ok config_ok_def batcher_ok_def worker_ok_def handled_def
        dest: newConfig_ok split: option.splits sum.splits)
next
  case (step b b')
  then show ?case using batcher_ok_step by (auto simp: config_ok_def)
qed

text \<open>C6. Nothing accepted is lost, duplicated or reordered: the batches given to the handler, one after the
  other, are the accepted items in their order up to those still in the current batch and the queue;
  every batch is non-empty and no larger than the batch size. A completed flush has the first error of the
  batches that hold exactly the items accepted before its barrier; when the worker has finished, every accepted item
  was handled and the result is the first error of all. The request channel is closed only when no call can still
  send on it.\<close>

theorem batches_in_order:
  assumes "batcher_reachable handler c b"
  defines "cs \<equiv> calls (b_worker b)"
  shows "items (accepted b) = concat (map fst cs) @ batch (b_worker b) @ items (requests b) \<and>
    (\<forall>call \<in> set cs. fst call \<noteq> [] \<and> int (length (fst call)) \<le> batchSize c) \<and>
    (completions b i = Some err \<longrightarrow> (\<exists>before after n. accepted b = before @ FlushBarrier i # after \<and>
       concat (map fst (take n cs)) = items before \<and> err = first_error (take n cs))) \<and>
    (finished b = Some err \<longrightarrow> concat (map fst cs) = items (accepted b) \<and> err = first_error cs) \<and>
    (requests_closed b \<longrightarrow> closed b \<and> submitting b = [])"
proof -
  have ok: "batcher_ok c b" using batcher_ok_reachable [OF assms(1)] by blast
  have "\<forall>call \<in> set cs. fst call \<noteq> [] \<and> int (length (fst call)) \<le> batchSize c"
    using ok by (simp add: batcher_ok_def worker_ok_def cs_def)
  moreover have "items (accepted b) = concat (map fst cs) @ batch (b_worker b) @ items (requests b)"
    using ok by (auto simp: batcher_ok_def handled_def cs_def)
  moreover have "finished b = Some err \<Longrightarrow> requests b = [] \<and> batch (b_worker b) = [] \<and> err = first_error cs"
    using ok by (auto simp: batcher_ok_def cs_def)
  moreover have "requests_closed b \<longrightarrow> closed b \<and> submitting b = []" using ok by (simp add: batcher_ok_def)
  ultimately show ?thesis using completions_ok [OF ok, of i err] unfolding barrier_ok_def cs_def by simp
qed

section \<open>Shutdown drains\<close>

text \<open>Steps left to the callers, the closer and the worker once admission is closed.\<close>

definition batcher_left :: "('a, 'w) Batcher \<Rightarrow> nat" where
  "batcher_left b = 3 * length (submitting b) + 2 * length (requests b) + of_bool (\<not> requests_closed b) +
     of_bool (finished b = None)"

lemma length_remove_at: "i < length xs \<Longrightarrow> Suc (length (remove_at i xs)) = length xs"
  by (simp add: remove_at_def)

lemma mset_remove_at: "i < length xs \<Longrightarrow> mset xs = add_mset (xs ! i) (mset (remove_at i xs))"
  by (subst (1) id_take_nth_drop [of i xs]) (simp_all add: remove_at_def)

text \<open>Once admission is closed, only calls that already wait can have something accepted.\<close>

definition closing_step :: "('a, 'w) Batcher \<Rightarrow> ('a, 'w) Batcher \<Rightarrow> bool" where
  "closing_step b b' \<longleftrightarrow> closed b' \<and> batcher_left b' \<le> batcher_left b \<and>
     (\<exists>more. accepted b' = accepted b @ more \<and>
        mset more + image_mset snd (mset (submitting b')) \<subseteq># image_mset snd (mset (submitting b)))"

lemma closing_step_trans:
  assumes "closing_step a b" and "closing_step b d"
  shows "closing_step a d"
proof -
  obtain m where m: "accepted b = accepted a @ m"
    "mset m + image_mset snd (mset (submitting b)) \<subseteq># image_mset snd (mset (submitting a))"
    using assms(1) by (auto simp: closing_step_def)
  obtain n where n: "accepted d = accepted b @ n"
    "mset n + image_mset snd (mset (submitting d)) \<subseteq># image_mset snd (mset (submitting b))"
    using assms(2) by (auto simp: closing_step_def)
  have "mset (m @ n) + image_mset snd (mset (submitting d)) \<subseteq># mset m + image_mset snd (mset (submitting b))"
    using n(2) by (simp add: add.assoc)
  then have "mset (m @ n) + image_mset snd (mset (submitting d)) \<subseteq># image_mset snd (mset (submitting a))"
    using m(2) by (rule subset_mset.order_trans)
  then show ?thesis using assms m(1) n(1) unfolding closing_step_def
    by (intro conjI exI [of _ "m @ n"]) auto
qed

lemma closing_step_refl: "closed b \<Longrightarrow> closing_step b b"
  by (simp add: closing_step_def)

lemma closing_step_same:
  assumes "closed b'" and "accepted b' = accepted b" and "submitting b' = submitting b" and "batcher_left b' \<le> batcher_left b"
  shows "closing_step b b'"
  using assms by (simp add: closing_step_def)

lemma closing_step_worker:
  assumes "worker_run handler c b b'" and "closed b"
  shows "closing_step b b'"
  using assms
proof cases
  case (receive req reqs k w compl)
  then show ?thesis using assms(2) by (intro closing_step_same) (simp_all add: batcher_left_def)
next
  case (timer k w)
  then show ?thesis using assms(2) by (intro closing_step_same) (simp_all add: batcher_left_def)
next
  case (finish k w)
  then show ?thesis using assms(2) by (intro closing_step_same) (simp_all add: batcher_left_def)
qed

lemma batcher_closing_step:
  assumes "batcher_step handler c b b'" and "closed b"
  shows "closing_step b b'"
  using assms(1)
proof cases
  case (add ctx item)
  then show ?thesis using assms(2) by (simp add: Add_def submit_def split: option.splits)
next
  case (flush ctx)
  then show ?thesis using assms(2) by (simp add: Flush_def submit_def Let_def split: option.splits)
next
  case (try_add ready item r)
  then show ?thesis using assms(2) closing_step_refl by (simp add: TryAdd_def)
next
  case (shutdown ctx r)
  then show ?thesis using assms(2) closing_step_refl by (auto simp: Shutdown_def stop_def split: option.splits)
next
  case expired
  then show ?thesis using assms(2) closing_step_refl by (simp add: stop_def)
next
  case (sent i ready)
  have "batcher_left b' \<le> batcher_left b"
    unfolding sent(1) using length_remove_at [OF sent(2)] by (simp add: send_def batcher_left_def)
  then show ?thesis using assms(2) unfolding closing_step_def sent(1)
    by (intro conjI exI [of _ "[snd (submitting b ! i)]"]) (simp_all add: send_def mset_remove_at [OF sent(2)])
next
  case (canceled i)
  have "batcher_left b' \<le> batcher_left b"
    unfolding canceled(1) using length_remove_at [OF canceled(2)] by (simp add: batcher_left_def)
  then show ?thesis using assms(2) unfolding closing_step_def canceled(1)
    by (intro conjI exI [of _ "[]"]) (simp_all add: mset_remove_at [OF canceled(2)])
next
  case close_requests
  then show ?thesis using assms(2) by (intro closing_step_same) (simp_all add: batcher_left_def)
next
  case worker
  then show ?thesis using closing_step_worker assms(2) by blast
next
  case (outside w)
  then show ?thesis using assms(2) by (intro closing_step_same) (simp_all add: batcher_left_def)
qed

lemma batcher_closing_steps: "(batcher_step handler c)\<^sup>*\<^sup>* b b' \<Longrightarrow> closed b \<Longrightarrow> closing_step b b'"
proof (induction rule: rtranclp_induct)
  case (step b1 b2)
  then have "closing_step b b1" "closing_step b1 b2"
    using batcher_closing_step [OF step(2)] by (simp_all add: closing_step_def)
  then show ?case by (rule closing_step_trans)
qed (rule closing_step_refl)

lemma batcher_progress:
  assumes "closed b" and "finished b = None"
  shows "\<exists>b'. batcher_step handler c b b' \<and> batcher_left b' < batcher_left b"
proof (cases "submitting b")
  case (Cons req reqs)
  then have i: "0 < length (submitting b)" by simp
  have "batcher_step handler c b (b\<lparr>submitting := remove_at 0 (submitting b)\<rparr>)"
    using assms(1) i by (intro batcher_step.canceled) simp_all
  then show ?thesis using length_remove_at [OF i]
    by (intro exI [of _ "b\<lparr>submitting := remove_at 0 (submitting b)\<rparr>"]) (simp add: batcher_left_def)
next
  case Nil
  show ?thesis
  proof (cases "requests b")
    case (Cons req reqs)
    obtain k w compl where "accept handler c req (b_worker b) (b_world b) = (k, w, compl)" by (metis prod_cases3)
    from batcher_step.worker [OF worker_run.receive [OF assms(2) Cons this]] Cons show ?thesis
      by (fastforce simp: batcher_left_def)
  next
    case no_requests: Nil
    show ?thesis
    proof (cases "requests_closed b")
      case True
      obtain k w where "flush handler c (b_worker b) (b_world b) = (k, w)" by fastforce
      from batcher_step.worker [OF worker_run.finish [OF assms(2) no_requests True this]] assms(2) show ?thesis
        by (fastforce simp: batcher_left_def)
    next
      case False
      with batcher_step.close_requests [OF assms(1) Nil False, of handler c] show ?thesis
        by (fastforce simp: batcher_left_def)
    qed
  qed
qed

lemma batcher_finishes: "closed b \<Longrightarrow> \<exists>b'. (batcher_step handler c)\<^sup>*\<^sup>* b b' \<and> finished b' \<noteq> None"
proof (induction "batcher_left b" arbitrary: b rule: less_induct)
  case less
  show ?case
  proof (cases "finished b")
    case None
    obtain b1 where b1: "batcher_step handler c b b1" "batcher_left b1 < batcher_left b"
      using batcher_progress [OF less.prems None] by blast
    moreover have "closed b1" using batcher_closing_step [OF b1(1) less.prems] by (simp add: closing_step_def)
    ultimately show ?thesis using less.hyps [of b1] by (meson converse_rtranclp_into_rtranclp)
  qed auto
qed

lemma batcher_reachable_steps:
  "(batcher_step handler c)\<^sup>*\<^sup>* b b' \<Longrightarrow> batcher_reachable handler c b \<Longrightarrow> batcher_reachable handler c b'"
  by (induction rule: rtranclp_induct) (auto intro: batcher_reachable.step)

lemma finished_handled:
  assumes "batcher_reachable handler c b" and "finished b = Some err"
  shows "concat (map fst (calls (b_worker b))) = items (accepted b) \<and> err = first_error (calls (b_worker b))"
proof -
  have "batcher_ok c b" using batcher_ok_reachable [OF assms(1)] by blast
  then show ?thesis using assms(2) by (auto simp: batcher_ok_def handled_def)
qed

text \<open>C13. Shutdown drains. A call without a context changes nothing. After any other call of \<open>Shutdown\<close> admission is
  closed for good: what is accepted later comes from calls that were already submitting, and no step of anyone adds
  work. As long as the worker has not finished, a waiting call, the closer or the worker can take a step that
  leaves less to do, so that the worker can finish from every state; when it has finished, every accepted item was handled, in order,
  and whoever waits gets the first error of all batches, also if their own context is cancelled.\<close>

theorem shutdown_drains:
  assumes "batcher_reachable handler c b" and "Shutdown ctx b = (None, b1)"
  shows "Shutdown None b = (Some ErrInvalidContext, b) \<and> ctx \<noteq> None \<and> closed b1 \<and> accepted b1 = accepted b \<and>
    (\<forall>b'. (batcher_step handler c)\<^sup>*\<^sup>* b1 b' \<longrightarrow>
      closed b' \<and> batcher_left b' \<le> batcher_left b1 \<and>
      (\<exists>more. accepted b' = accepted b @ more \<and> mset more \<subseteq># image_mset snd (mset (submitting b))) \<and>
      (finished b' = None \<longrightarrow> (\<exists>b2. batcher_step handler c b' b2 \<and> batcher_left b2 < batcher_left b')) \<and>
      (\<exists>b2. (batcher_step handler c)\<^sup>*\<^sup>* b' b2 \<and> finished b2 \<noteq> None) \<and>
      (\<forall>err. finished b' = Some err \<longrightarrow>
        concat (map fst (calls (b_worker b'))) = items (accepted b') \<and> err = first_error (calls (b_worker b')) \<and>
        (\<forall>cause. wait_completion (finished b') cause = Some err)))"
proof (intro conjI allI impI)
  have b1: "b1 = stop b" "ctx \<noteq> None" using assms(2) by (auto simp: Shutdown_def split: option.splits)
  then show "ctx \<noteq> None" "closed b1" and acc: "accepted b1 = accepted b" by (simp_all add: stop_def)
  have sub: "submitting b1 = submitting b" by (simp add: b1 stop_def)
  have reach: "batcher_reachable handler c b1"
    using assms by (blast intro: batcher_reachable.step batcher_step.shutdown)
  fix b'
  assume steps: "(batcher_step handler c)\<^sup>*\<^sup>* b1 b'"
  have cl: "closing_step b1 b'" using batcher_closing_steps [OF steps] by (simp add: b1 stop_def)
  then show closed: "closed b'" and "batcher_left b' \<le> batcher_left b1" by (simp_all add: closing_step_def)
  show "\<exists>more. accepted b' = accepted b @ more \<and> mset more \<subseteq># image_mset snd (mset (submitting b))"
    using cl unfolding closing_step_def acc sub by (metis mset_subset_eq_add_left subset_mset.order_trans)
  show "\<exists>b2. (batcher_step handler c)\<^sup>*\<^sup>* b' b2 \<and> finished b2 \<noteq> None" by (rule batcher_finishes [OF closed])
  note rb = batcher_reachable_steps [OF steps reach]
  {
    assume "finished b' = None"
    then show "\<exists>b2. batcher_step handler c b' b2 \<and> batcher_left b2 < batcher_left b'" by (rule batcher_progress [OF closed])
  next
    fix err
    assume "finished b' = Some err"
    then show "concat (map fst (calls (b_worker b'))) = items (accepted b')" "err = first_error (calls (b_worker b'))"
      "\<And>cause. wait_completion (finished b') cause = Some err"
      using finished_handled [OF rb] by (simp_all add: wait_completion_def)
  }
qed (simp add: Shutdown_def)

section \<open>Construction\<close>

text \<open>What the options choose: for each field the last option that sets it, or its default.\<close>

definition last_batchSize :: "'w Option option list \<Rightarrow> int" where
  "last_batchSize = last_choice (\<lambda>opt. case opt of Some (WithBatchSize n) \<Rightarrow> Some n | _ \<Rightarrow> None) 100"

definition last_flushInterval :: "'w Option option list \<Rightarrow> int" where
  "last_flushInterval = last_choice (\<lambda>opt. case opt of Some (WithFlushInterval d) \<Rightarrow> Some d | _ \<Rightarrow> None) 1000000000"

definition last_queueSize :: "'w Option option list \<Rightarrow> int" where
  "last_queueSize = last_choice (\<lambda>opt. case opt of Some (WithQueueSize n) \<Rightarrow> Some n | _ \<Rightarrow> None) 1000"

definition last_onResult :: "'w Option option list \<Rightarrow> (Result \<Rightarrow> 'w \<Rightarrow> 'w) option" where
  "last_onResult = last_choice (\<lambda>opt. case opt of Some (WithOnResult fn) \<Rightarrow> Some fn | _ \<Rightarrow> None) None"

lemmas last_defs = last_batchSize_def last_flushInterval_def last_queueSize_def last_onResult_def

lemma folded_fields:
  fixes options :: "'w Option option list"
  defines "c \<equiv> fold (\<lambda>opt c. case opt of Some x \<Rightarrow> apply_option x c | None \<Rightarrow> c) options
     \<lparr>batchSize = 100, flushInterval = 1000000000, queueSize = 1000, onResult = None\<rparr>"
  shows "batchSize c = last_batchSize options" "flushInterval c = last_flushInterval options"
    "queueSize c = last_queueSize options" "onResult c = last_onResult options"
proof -
  show "batchSize c = last_batchSize options" unfolding c_def last_defs
    by (subst fold_last_choice [where field = batchSize]) (simp_all split: option.split Option.split)
  show "flushInterval c = last_flushInterval options" unfolding c_def last_defs
    by (subst fold_last_choice [where field = flushInterval]) (simp_all split: option.split Option.split)
  show "queueSize c = last_queueSize options" unfolding c_def last_defs
    by (subst fold_last_choice [where field = queueSize]) (simp_all split: option.split Option.split)
  show "onResult c = last_onResult options" unfolding c_def last_defs
    by (subst fold_last_choice [where field = onResult]) (simp_all split: option.split Option.split)
qed

lemma newConfig_exact:
  "newConfig options =
     (if last_batchSize options \<le> 0 then Inl (Wrapped ''batch size must be positive'' ErrInvalidOption)
      else if last_flushInterval options \<le> 0 then Inl (Wrapped ''flush interval must be positive'' ErrInvalidOption)
      else if last_queueSize options < 0 then Inl (Wrapped ''queue size must not be negative'' ErrInvalidOption)
      else Inr \<lparr>batchSize = last_batchSize options, flushInterval = last_flushInterval options,
        queueSize = last_queueSize options, onResult = last_onResult options\<rparr>)"
  unfolding newConfig_def Let_def folded_fields by (simp add: folded_fields)

lemma New_ok: "New ctx (Some handler) options w = Inr (b, c) \<Longrightarrow> batcher_ok c b \<and> config_ok c"
  by (rule batcher_ok_reachable, rule batcher_reachable.init)

text \<open>C40. \<open>New\<close> succeeds exactly with a context that is not cancelled, a handler, a positive batch size, a positive
  flush interval and a queue size that is not negative, each chosen by the last option that sets it or its default; an
  unbuffered queue is allowed. Otherwise it refuses a nil context, then a cancelled one with its cause, then a nil
  handler, then the first invalid field, with an error that names the field and is \<open>ErrInvalidOption\<close>. On
  success the configuration holds the chosen values, and the batcher is open and empty and satisfies its
  invariant.\<close>

theorem New_well_formed:
  "((\<exists>b c. New ctx handler options w = Inr (b, c)) \<longleftrightarrow>
      (\<exists>cause. ctx = Some cause \<and> cause w = None) \<and> handler \<noteq> None \<and>
      0 < last_batchSize options \<and> 0 < last_flushInterval options \<and> 0 \<le> last_queueSize options) \<and>
   (case New ctx handler options w of
     Inl err \<Rightarrow>
       (case ctx of None \<Rightarrow> err = ErrInvalidContext
        | Some cause \<Rightarrow>
            if cause w \<noteq> None then cause w = Some err
            else if handler = None then err = ErrNilHandler
            else newConfig options = Inl err \<and> errors_Is err ErrInvalidOption \<and>
              err = Wrapped (if last_batchSize options \<le> 0 then ''batch size must be positive''
                else if last_flushInterval options \<le> 0 then ''flush interval must be positive''
                else ''queue size must not be negative'') ErrInvalidOption)
   | Inr (b, c) \<Rightarrow>
       batchSize c = last_batchSize options \<and> flushInterval c = last_flushInterval options \<and>
       queueSize c = last_queueSize options \<and> onResult c = last_onResult options \<and>
       0 < batchSize c \<and> 0 < flushInterval c \<and> 0 \<le> queueSize c \<and>
       batcher_ok c b \<and> accepted b = [] \<and> \<not> closed b)"
proof (intro conjI)
  show "(\<exists>b c. New ctx handler options w = Inr (b, c)) \<longleftrightarrow>
      (\<exists>cause. ctx = Some cause \<and> cause w = None) \<and> handler \<noteq> None \<and>
      0 < last_batchSize options \<and> 0 < last_flushInterval options \<and> 0 \<le> last_queueSize options"
    by (auto simp: New_def validateContext_def newConfig_exact split: option.splits)
  show "case New ctx handler options w of
     Inl err \<Rightarrow>
       (case ctx of None \<Rightarrow> err = ErrInvalidContext
        | Some cause \<Rightarrow>
            if cause w \<noteq> None then cause w = Some err
            else if handler = None then err = ErrNilHandler
            else newConfig options = Inl err \<and> errors_Is err ErrInvalidOption \<and>
              err = Wrapped (if last_batchSize options \<le> 0 then ''batch size must be positive''
                else if last_flushInterval options \<le> 0 then ''flush interval must be positive''
                else ''queue size must not be negative'') ErrInvalidOption)
   | Inr (b, c) \<Rightarrow>
       batchSize c = last_batchSize options \<and> flushInterval c = last_flushInterval options \<and>
       queueSize c = last_queueSize options \<and> onResult c = last_onResult options \<and>
       0 < batchSize c \<and> 0 < flushInterval c \<and> 0 \<le> queueSize c \<and>
       batcher_ok c b \<and> accepted b = [] \<and> \<not> closed b"
  proof (cases "New ctx handler options w")
    case (Inl err)
    then show ?thesis
      by (auto simp: New_def validateContext_def newConfig_exact split: option.splits if_splits)
  next
    case (Inr bc)
    obtain b c where bc: "bc = (b, c)" by fastforce
    from Inr bc have n: "newConfig options = Inr c" "handler \<noteq> None" "accepted b = []" "\<not> closed b"
      by (auto simp: New_def validateContext_def split: option.splits sum.splits)
    moreover have "batcher_ok c b" using New_ok [of ctx _ options w b c] Inr bc n(2) by auto
    ultimately show ?thesis using Inr bc by (auto simp: newConfig_exact split: if_splits)
  qed
qed

theorem New_well_formed_witness:
  "\<exists>b c. New (Some (\<lambda>_. None)) (Some (\<lambda>(xs :: nat list) w. (None, w))) [Some (WithQueueSize 0), None] (0 :: nat) = Inr (b, c) \<and>
    queueSize c = 0 \<and> \<not> closed b"
proof -
  let ?new = "New (Some (\<lambda>_. None)) (Some (\<lambda>(xs :: nat list) w. (None, w))) [Some (WithQueueSize 0), None] (0 :: nat)"
  note wf = New_well_formed [of "Some (\<lambda>_. None)" "Some (\<lambda>(xs :: nat list) w. (None, w))" "[Some (WithQueueSize 0), None]" "0 :: nat"]
  have "\<exists>b c. ?new = Inr (b, c)" using wf by (simp add: last_defs last_choice_def)
  then obtain b c where bc: "?new = Inr (b, c)" by blast
  with wf show ?thesis by (intro exI [of _ b] exI [of _ c]) (simp add: last_defs last_choice_def)
qed

text \<open>One item, accepted by a batcher with the given batch size, and handled when that is one.\<close>

lemma sample_accepted:
  defines "h \<equiv> \<lambda>xs w. (Some Canceled, w + length xs)"
  assumes "0 < n"
  shows "\<exists>c b. batcher_reachable h c b \<and> requests b = [Item (7 :: nat)] \<and> accepted b = [Item 7] \<and> submitting b = [] \<and>
    batch (b_worker b) = [] \<and> calls (b_worker b) = [] \<and> finished b = None \<and> batchSize c = n \<and> onResult c = None"
proof -
  obtain b0 c where new: "New (Some (\<lambda>_. None)) (Some h) [Some (WithBatchSize n)] (0 :: nat) = Inr (b0, c)"
    and b0: "requests b0 = []" "closed b0 = False" "finished b0 = None" "accepted b0 = []" "batch (b_worker b0) = []"
      "calls (b_worker b0) = []" "submitting b0 = []" and c: "batchSize c = n" "queueSize c = 1000" "onResult c = None"
    using assms(2) by (simp add: New_def validateContext_def newConfig_def)
  have "batcher_step h c b0 (send (Item 7) b0)"
    using b0 c by (intro batcher_step.try_add [of c False 7]) (simp add: TryAdd_def room_def)
  with new have "batcher_reachable h c (send (Item 7) b0)" by (blast intro: batcher_reachable.intros)
  then show ?thesis using b0 c by (intro exI [of _ c] exI [of _ "send (Item 7) b0"]) (simp add: send_def)
qed

lemma sample_batcher:
  defines "h \<equiv> \<lambda>xs w. (Some Canceled, w + length xs)"
  shows "\<exists>c b. batcher_reachable h c b \<and> calls (b_worker b) = [([7 :: nat], Some Canceled)] \<and> accepted b = [Item 7]"
proof -
  obtain c b1 where b1: "batcher_reachable h c b1" "requests b1 = [Item 7]" "accepted b1 = [Item 7]"
      "batch (b_worker b1) = []" "calls (b_worker b1) = []" "finished b1 = None" and c: "batchSize c = 1" "onResult c = None"
    using sample_accepted [of 1] unfolding h_def by auto
  obtain k w compl where a: "accept h c (Item 7) (b_worker b1) (b_world b1) = (k, w, compl)" by (metis prod_cases3)
  define b2 where "b2 = b1\<lparr>requests := [], b_worker := k, b_world := w,
      completions := (case compl of None \<Rightarrow> completions b1 | Some (i, err) \<Rightarrow> (completions b1)(i \<mapsto> err))\<rparr>"
  have "batcher_step h c b1 b2"
    unfolding b2_def by (rule batcher_step.worker, rule worker_run.receive [OF b1(6,2) a])
  with b1(1) have "batcher_reachable h c b2" by (rule batcher_reachable.step)
  moreover have "calls k = [([7], Some Canceled)]"
    using a b1 c by (auto simp: accept_def flush_def h_def Let_def split: if_splits)
  ultimately show ?thesis using b1(3) by (intro exI [of _ c] exI [of _ b2]) (simp add: b2_def)
qed

theorem batches_in_order_witness:
  "\<exists>c b. batcher_reachable (\<lambda>xs w. (Some Canceled, w + length xs)) c b \<and>
     items (accepted b) = [7 :: nat] \<and> concat (map fst (calls (b_worker b))) = [7] \<and> batch (b_worker b) @ items (requests b) = []"
proof -
  obtain c b where r: "batcher_reachable (\<lambda>xs w. (Some Canceled, w + length xs)) c b"
    and b: "calls (b_worker b) = [([7 :: nat], Some Canceled)]" "accepted b = [Item 7]"
    using sample_batcher by blast
  from batches_in_order [OF r] b r show ?thesis by (intro exI [of _ c] exI [of _ b]) simp
qed

theorem shutdown_drains_witness:
  "\<exists>c b b1 b2. batcher_reachable (\<lambda>(xs :: nat list) w. (Some Canceled, w + length xs)) c b \<and>
     calls (b_worker b) = [] \<and> Shutdown (Some (\<lambda>_. None)) b = (None, b1) \<and>
     (batcher_step (\<lambda>xs w. (Some Canceled, w + length xs)) c)\<^sup>*\<^sup>* b1 b2 \<and> finished b2 \<noteq> None \<and>
     concat (map fst (calls (b_worker b2))) = [7]"
proof -
  let ?h = "\<lambda>(xs :: nat list) w. (Some Canceled, w + length xs)"
  obtain c b where r: "batcher_reachable ?h c b"
    and b: "accepted b = [Item 7]" "submitting b = []" "calls (b_worker b) = []"
    using sample_accepted [of 5] by auto
  have s: "Shutdown (Some (\<lambda>_. None)) b = (None, stop b)" by (simp add: Shutdown_def)
  note drains = shutdown_drains [OF r s, THEN conjunct2, THEN conjunct2, THEN conjunct2, THEN conjunct2, rule_format]
  obtain b2 err where b2: "(batcher_step ?h c)\<^sup>*\<^sup>* (stop b) b2" "finished b2 = Some err"
    using drains [OF rtranclp.rtrancl_refl] by blast
  have "accepted b2 = [Item 7]" using drains [OF b2(1)] b by auto
  moreover have "concat (map fst (calls (b_worker b2))) = items (accepted b2)" using drains [OF b2(1)] b2(2) by blast
  ultimately show ?thesis using r b(3) s b2
    by (intro exI [of _ c] exI [of _ b] exI [of _ "stop b"] exI [of _ b2]) simp
qed

end
