(* ===== verification/Strings.thy ===== *)
theory Strings
  imports Codec "HOL-Library.Sublist"
begin

text \<open>
  Package \<open>strings\<close> (\<open>src/strings/strings.go\<close>). A Go string is a sequence of bytes, here a list of (8-bit)
  characters; functions that work on code points decode UTF-8 as package \<open>unicode/utf8\<close> does. Hash functions and
  random numbers are parameters. The wildcard matcher \<open>Is\<close> is a loop over four indices, a
  \<open>partial_function\<close>; its termination and its agreement with the meaning of a pattern are proved.
\<close>

section \<open>Functions of the standard library\<close>

text \<open>Package \<open>strings\<close> of Go: the first and the last occurrence of a substring.\<close>

fun Index_from :: "nat \<Rightarrow> string \<Rightarrow> string \<Rightarrow> nat option" where
  "Index_from i [] sub = (if sub = [] then Some i else None)"
| "Index_from i (c # s) sub = (if prefix sub (c # s) then Some i else Index_from (Suc i) s sub)"

definition str_Index :: "string \<Rightarrow> string \<Rightarrow> nat option" where
  "str_Index s sub = Index_from 0 s sub"

fun LastIndex_from :: "nat \<Rightarrow> string \<Rightarrow> string \<Rightarrow> nat option" where
  "LastIndex_from i [] sub = (if sub = [] then Some i else None)"
| "LastIndex_from i (c # s) sub =
     (case LastIndex_from (Suc i) s sub of Some j \<Rightarrow> Some j
      | None \<Rightarrow> if prefix sub (c # s) then Some i else None)"

definition str_LastIndex :: "string \<Rightarrow> string \<Rightarrow> nat option" where
  "str_LastIndex s sub = LastIndex_from 0 s sub"

definition str_Cut :: "string \<Rightarrow> string \<Rightarrow> (string \<times> string) option" where
  "str_Cut s sep =
     (case str_Index s sep of Some i \<Rightarrow> Some (take i s, drop (i + length sep) s) | None \<Rightarrow> None)"

text \<open>Decoding of one code point: its value and width, \<open>U+FFFD\<close> of width 1 for a byte that starts no valid
  encoding. \<open>lo\<close> and \<open>hi\<close> bound the second byte.\<close>

definition cont :: "nat \<Rightarrow> bool" where
  "cont b \<longleftrightarrow> 128 \<le> b \<and> b \<le> 191"

definition decode_rune :: "nat list \<Rightarrow> nat \<times> nat" where
  "decode_rune bs =
     (case bs of
        [] \<Rightarrow> (65533, 0)
      | b0 # r \<Rightarrow>
          if b0 < 128 then (b0, 1)
          else if 194 \<le> b0 \<and> b0 \<le> 223 then
            (case r of b1 # _ \<Rightarrow> if cont b1 then ((b0 - 192) * 64 + (b1 - 128), 2) else (65533, 1) | _ \<Rightarrow> (65533, 1))
          else if 224 \<le> b0 \<and> b0 \<le> 239 then
            (let lo = (if b0 = 224 then 160 else 128); hi = (if b0 = 237 then 159 else 191) in
             case r of b1 # b2 # _ \<Rightarrow>
               if lo \<le> b1 \<and> b1 \<le> hi \<and> cont b2 then ((b0 - 224) * 4096 + (b1 - 128) * 64 + (b2 - 128), 3)
               else (65533, 1)
             | _ \<Rightarrow> (65533, 1))
          else if 240 \<le> b0 \<and> b0 \<le> 244 then
            (let lo = (if b0 = 240 then 144 else 128); hi = (if b0 = 244 then 143 else 191) in
             case r of b1 # b2 # b3 # _ \<Rightarrow>
               if lo \<le> b1 \<and> b1 \<le> hi \<and> cont b2 \<and> cont b3
               then ((b0 - 240) * 262144 + (b1 - 128) * 4096 + (b2 - 128) * 64 + (b3 - 128), 4)
               else (65533, 1)
             | _ \<Rightarrow> (65533, 1))
          else (65533, 1))"

lemma decode_rune_width: "bs \<noteq> [] \<Longrightarrow> 0 < snd (decode_rune bs) \<and> snd (decode_rune bs) \<le> length bs"
  by (auto simp: decode_rune_def Let_def split: list.splits)

function decode_all :: "nat list \<Rightarrow> nat list" where
  "decode_all bs = (if bs = [] then [] else fst (decode_rune bs) # decode_all (drop (snd (decode_rune bs)) bs))"
  by pat_completeness auto
termination by (relation "measure length") (auto dest: decode_rune_width)

declare decode_all.simps [simp del]

definition encode_rune :: "nat \<Rightarrow> nat list" where
  "encode_rune r =
     (if r < 128 then [r]
      else if r < 2048 then [192 + r div 64, 128 + r mod 64]
      else if r \<ge> 1114112 \<or> (55296 \<le> r \<and> r < 57344) then [239, 191, 189]
      else if r < 65536 then [224 + r div 4096, 128 + r div 64 mod 64, 128 + r mod 64]
      else [240 + r div 262144, 128 + r div 4096 mod 64, 128 + r div 64 mod 64, 128 + r mod 64])"

definition runes :: "string \<Rightarrow> nat list" where
  "runes s = decode_all (map of_char s)"

definition string_of_runes :: "nat list \<Rightarrow> string" where
  "string_of_runes rs = map char_of (concat (map encode_rune rs))"

section \<open>Pattern matching\<close>

function skip_stars :: "string \<Rightarrow> nat \<Rightarrow> nat" where
  "skip_stars pattern patternIndex =
     (if patternIndex < length pattern \<and> pattern ! patternIndex = CHR ''*''
      then skip_stars pattern (patternIndex + 1) else patternIndex)"
  by pat_completeness auto
termination by (relation "measure (\<lambda>(p, i). length p - i)") auto

declare skip_stars.simps [simp del]

partial_function (option) is_loop :: "string \<Rightarrow> string \<Rightarrow> nat \<Rightarrow> nat \<Rightarrow> int \<Rightarrow> nat \<Rightarrow> bool option" where
  "is_loop pattern val patternIndex valueIndex starIndex matchIndex =
     (if valueIndex < length val then
        if patternIndex < length pattern \<and> pattern ! patternIndex = CHR ''*''
        then is_loop pattern val (patternIndex + 1) valueIndex (int patternIndex) valueIndex
        else if patternIndex < length pattern \<and> pattern ! patternIndex = val ! valueIndex
        then is_loop pattern val (patternIndex + 1) (valueIndex + 1) starIndex matchIndex
        else if starIndex = -1 then Some False
        else is_loop pattern val (nat (starIndex + 1)) (matchIndex + 1) starIndex (matchIndex + 1)
      else Some (skip_stars pattern patternIndex = length pattern))"

declare is_loop.simps [code]

definition Is :: "string \<Rightarrow> string \<Rightarrow> bool option" where
  "Is pattern val = (if pattern = val then Some True else is_loop pattern val 0 0 (-1) 0)"

section \<open>The other functions\<close>

definition MD5 :: "(bytes \<Rightarrow> bytes) \<Rightarrow> string \<Rightarrow> string" where
  "MD5 md5_Sum s = hex_EncodeToString (md5_Sum (map (\<lambda>c. word_of_nat (of_char c)) s))"

definition SHA1 :: "(bytes \<Rightarrow> bytes) \<Rightarrow> string \<Rightarrow> string" where
  "SHA1 sha1_Sum s = hex_EncodeToString (sha1_Sum (map (\<lambda>c. word_of_nat (of_char c)) s))"

text \<open>The loop of \<open>Reverse\<close> swaps the ends and moves inwards.\<close>

function reverse_loop :: "'r list \<Rightarrow> nat \<Rightarrow> int \<Rightarrow> 'r list" where
  "reverse_loop rs i j =
     (if int i < j then reverse_loop (rs[i := rs ! nat j, nat j := rs ! i]) (i + 1) (j - 1) else rs)"
  by pat_completeness auto
termination by (relation "measure (\<lambda>(rs, i, j). nat (j - int i))") auto

declare reverse_loop.simps [simp del]

definition Reverse :: "string \<Rightarrow> string" where
  "Reverse s = (let rs = runes s in string_of_runes (reverse_loop rs 0 (int (length rs) - 1)))"

text \<open>\<open>strings.Replacer\<close> with one pair: matches from the left that do not overlap; an empty pattern matches
  before every byte and at the end.\<close>

function replace_loop :: "string \<Rightarrow> string \<Rightarrow> string \<Rightarrow> string" where
  "replace_loop s from to =
     (if s = [] then []
      else if from \<noteq> [] \<and> prefix from s then to @ replace_loop (drop (length from) s) from to
      else hd s # replace_loop (tl s) from to)"
  by pat_completeness auto
termination by (relation "measure (\<lambda>(s, from, to). length s)") auto

declare replace_loop.simps [simp del]

definition Replace :: "string \<Rightarrow> string \<Rightarrow> string \<Rightarrow> string" where
  "Replace s from to =
     (if from = [] then concat (map (\<lambda>c. to @ [c]) s) @ to else replace_loop s from to)"

definition ReplaceFirst :: "string \<Rightarrow> string \<Rightarrow> string \<Rightarrow> string" where
  "ReplaceFirst s from to =
     (if from = [] then s
      else case str_Index s from of None \<Rightarrow> s | Some i \<Rightarrow> take i s @ to @ drop (i + length from) s)"

definition ReplaceLast :: "string \<Rightarrow> string \<Rightarrow> string \<Rightarrow> string" where
  "ReplaceLast s from to =
     (if from = [] then s
      else case str_LastIndex s from of None \<Rightarrow> s | Some i \<Rightarrow> take i s @ to @ drop (i + length from) s)"

text \<open>\<open>strings.Split\<close> with an empty separator: the encodings of the code points, an invalid byte being one of
  them.\<close>

function explode :: "string \<Rightarrow> string list" where
  "explode s =
     (if s = [] then []
      else let n = snd (decode_rune (map of_char s)) in take n s # explode (drop n s))"
  by pat_completeness auto
termination
proof (relation "measure length", simp)
  fix s :: string and n
  assume "s \<noteq> []" "n = snd (decode_rune (map of_char s))"
  then show "(drop n s, s) \<in> measure length" using decode_rune_width [of "map of_char s"] by auto
qed

declare explode.simps [simp del]

text \<open>\<open>rand.Shuffle\<close> swaps the elements at \<open>i\<close> and at a random index up to \<open>i\<close>, from the last \<open>i\<close> down to 1.
  \<open>rand_IntN\<close>, on a world, draws the random numbers.\<close>

fun shuffle_loop :: "(int \<Rightarrow> 'w \<Rightarrow> nat \<times> 'w) \<Rightarrow> nat \<Rightarrow> 'a list \<Rightarrow> 'w \<Rightarrow> 'a list \<times> 'w" where
  "shuffle_loop rand_IntN 0 ss w = (ss, w)"
| "shuffle_loop rand_IntN (Suc i) ss w =
     (let (j, w1) = rand_IntN (int (Suc i) + 1) w
      in shuffle_loop rand_IntN i (ss[Suc i := ss ! j, j := ss ! Suc i]) w1)"

definition Shuffle :: "(int \<Rightarrow> 'w \<Rightarrow> nat \<times> 'w) \<Rightarrow> string \<Rightarrow> 'w \<Rightarrow> string \<times> 'w" where
  "Shuffle rand_IntN s w =
     (let (ss, w1) = shuffle_loop rand_IntN (length (explode s) - 1) (explode s) w in (concat ss, w1))"

text \<open>The letters of \<open>Random\<close> are ASCII, so that a code point is a byte.\<close>

fun random_loop :: "(int \<Rightarrow> 'w \<Rightarrow> nat \<times> 'w) \<Rightarrow> string \<Rightarrow> nat \<Rightarrow> 'w \<Rightarrow> string \<times> 'w" where
  "random_loop rand_IntN letters 0 w = ([], w)"
| "random_loop rand_IntN letters (Suc n) w =
     (let (k, w1) = rand_IntN (int (length letters)) w; (b, w2) = random_loop rand_IntN letters n w1
      in (letters ! k # b, w2))"

definition randomLetters :: string where
  "randomLetters = ''abcdefghijklmnopqrstuvwxyzABCDEFGHIJKLMNOPQRSTUVWXYZ''"

definition Random :: "(int \<Rightarrow> 'w \<Rightarrow> nat \<times> 'w) \<Rightarrow> int \<Rightarrow> 'w \<Rightarrow> string \<times> 'w" where
  "Random rand_IntN n w = (if n \<le> 0 then ([], w) else random_loop rand_IntN randomLetters (nat n) w)"

definition Len :: "string \<Rightarrow> nat" where
  "Len s = length (runes s)"

text \<open>The regular expression of \<open>IsUUID\<close>: five groups of hexadecimal digits.\<close>

definition hex_char :: "char \<Rightarrow> bool" where
  "hex_char c \<longleftrightarrow> c \<in> set ''0123456789abcdefABCDEF''"

definition IsUUID :: "string \<Rightarrow> bool" where
  "IsUUID str \<longleftrightarrow> length str = 36 \<and>
     (\<forall>i < 36. if i \<in> {8, 13, 18, 23} then str ! i = CHR ''-'' else hex_char (str ! i))"

definition EnsurePrefix :: "string \<Rightarrow> string \<Rightarrow> string" where
  "EnsurePrefix s pre = (if pre = [] \<or> prefix pre s then s else pre @ s)"

definition EnsureSuffix :: "string \<Rightarrow> string \<Rightarrow> string" where
  "EnsureSuffix s suf = (if suf = [] \<or> suffix suf s then s else s @ suf)"

definition After :: "string \<Rightarrow> string \<Rightarrow> string" where
  "After subject search =
     (if search = [] then subject
      else case str_Cut subject search of None \<Rightarrow> subject | Some (_, after) \<Rightarrow> after)"

definition AfterLast :: "string \<Rightarrow> string \<Rightarrow> string" where
  "AfterLast subject search =
     (if search = [] then subject
      else case str_LastIndex subject search of None \<Rightarrow> subject | Some i \<Rightarrow> drop (i + length search) subject)"

definition Before :: "string \<Rightarrow> string \<Rightarrow> string" where
  "Before subject search =
     (if search = [] then subject
      else case str_Cut subject search of None \<Rightarrow> subject | Some (before, _) \<Rightarrow> before)"

definition BeforeLast :: "string \<Rightarrow> string \<Rightarrow> string" where
  "BeforeLast subject search =
     (if search = [] then subject
      else case str_LastIndex subject search of None \<Rightarrow> subject | Some i \<Rightarrow> take i subject)"

definition between :: "string \<Rightarrow> string \<Rightarrow> string \<Rightarrow> bool \<Rightarrow> string" where
  "between subject from to lst =
     (if from = [] \<or> to = [] then subject
      else case str_Index subject from of None \<Rightarrow> subject
      | Some start \<Rightarrow>
          let after = drop (start + length from) subject
          in case (if lst then str_LastIndex after to else str_Index after to) of
               None \<Rightarrow> subject | Some e \<Rightarrow> take e after)"

definition Between :: "string \<Rightarrow> string \<Rightarrow> string \<Rightarrow> string" where
  "Between subject from to = between subject from to True"

definition BetweenFirst :: "string \<Rightarrow> string \<Rightarrow> string \<Rightarrow> string" where
  "BetweenFirst subject from to = between subject from to False"

text \<open>\<open>strings.Fields\<close>: the maximal runs without a space of \<open>unicode.IsSpace\<close>.\<close>

definition IsSpace :: "nat \<Rightarrow> bool" where
  "IsSpace r \<longleftrightarrow> r \<in> {9, 10, 11, 12, 13, 32, 133, 160, 5760, 8232, 8233, 8239, 8287, 12288} \<or> (8192 \<le> r \<and> r \<le> 8202)"

fun fields_loop :: "string list \<Rightarrow> string \<Rightarrow> string list" where
  "fields_loop [] cur = (if cur = [] then [] else [cur])"
| "fields_loop (u # us) cur =
     (if IsSpace (fst (decode_rune (map of_char u)))
      then (if cur = [] then [] else [cur]) @ fields_loop us []
      else fields_loop us (cur @ u))"

fun str_Join :: "string list \<Rightarrow> string \<Rightarrow> string" where
  "str_Join [] sep = []"
| "str_Join [x] sep = x"
| "str_Join (x # y # xs) sep = x @ sep @ str_Join (y # xs) sep"

definition NormalizeSpace :: "string \<Rightarrow> string" where
  "NormalizeSpace s = str_Join (fields_loop (explode s) []) '' ''"

lemma Index_from_bound: "Index_from i s sub = Some j \<Longrightarrow> i \<le> j \<and> j + length sub \<le> i + length s"
proof (induction i s sub rule: Index_from.induct)
  case (2 i c s sub)
  then show ?case by (fastforce split: if_splits dest: prefix_length_le)
qed (auto split: if_splits)

text \<open>\<open>strings.Count\<close> counts the non-overlapping occurrences from the left, and for an empty substring the code
  points plus one.\<close>

function count_loop :: "string \<Rightarrow> string \<Rightarrow> nat \<Rightarrow> nat" where
  "count_loop s sub n =
     (case str_Index s sub of None \<Rightarrow> n
      | Some i \<Rightarrow> if sub = [] then n else count_loop (drop (i + length sub) s) sub (n + 1))"
  by pat_completeness auto
termination
proof (relation "measure (\<lambda>(s, sub, n). length s)", simp)
  fix s sub :: string and n i
  assume "str_Index s sub = Some i" "sub \<noteq> []"
  then show "((drop (i + length sub) s, sub, n + 1), s, sub, n) \<in> measure (\<lambda>(s, sub, n). length s)"
    using Index_from_bound [of 0 s sub i] by (cases sub) (auto simp: str_Index_def)
qed

declare count_loop.simps [simp del]

definition str_Count :: "string \<Rightarrow> string \<Rightarrow> nat" where
  "str_Count s sub = (if sub = [] then length (runes s) + 1 else count_loop s sub 0)"

text \<open>The sum of the offset and the length wraps around; a slice whose end is then below its start panics.\<close>

definition SubstrCount :: "string \<Rightarrow> string \<Rightarrow> int \<Rightarrow> int list \<Rightarrow> int outcome" where
  "SubstrCount haystack needle offset lengths =
     (if offset < 0 \<or> offset \<ge> int (length haystack) then Return 0
      else if lengths \<noteq> [] \<and> hd lengths < 0 then Return 0
      else let e = (if lengths \<noteq> [] then min (i64 (offset + hd lengths)) (int (length haystack))
                    else int (length haystack))
           in if e < offset then Panic
              else Return (int (str_Count (take (nat (e - offset)) (drop (nat offset) haystack)) needle)))"

section \<open>The meaning of a pattern\<close>

text \<open>A star stands for any sequence of bytes, every other byte for itself.\<close>

primrec glob :: "string \<Rightarrow> string \<Rightarrow> bool" where
  "glob [] v \<longleftrightarrow> v = []"
| "glob (c # ps) v \<longleftrightarrow>
     (if c = CHR ''*'' then \<exists>k. glob ps (drop k v) else v \<noteq> [] \<and> hd v = c \<and> glob ps (tl v))"

lemma glob_refl: "glob p p"
proof (induction p)
  case (Cons c p)
  have "\<exists>k. glob p (drop k (c # p))" by (rule exI [of _ 1]) (simp add: Cons)
  with Cons show ?case by (cases "c = CHR ''*''") auto
qed simp

lemma glob_literal:
  "CHR ''*'' \<notin> set L \<Longrightarrow> glob (L @ R) v \<longleftrightarrow> take (length L) v = L \<and> glob R (drop (length L) v)"
proof (induction L arbitrary: v)
  case (Cons c L)
  then show ?case by (cases v) auto
qed simp

lemma glob_star_mono: "glob (CHR ''*'' # R) (drop j v) \<Longrightarrow> i \<le> j \<Longrightarrow> glob (CHR ''*'' # R) (drop i v)"
proof -
  assume "glob (CHR ''*'' # R) (drop j v)" "i \<le> j"
  then obtain k where "glob R (drop (k + j) v)" by auto
  moreover have "k + j = (k + (j - i)) + i" using \<open>i \<le> j\<close> by simp
  ultimately have "glob R (drop (k + (j - i)) (drop i v))" by (simp only: drop_drop)
  then show ?thesis by (simp only: glob.simps if_True simp_thms) (rule exI)
qed

lemma glob_empty: "glob R [] \<longleftrightarrow> set R \<subseteq> {CHR ''*''}"
  by (induction R) auto

lemma skip_stars_end: "i \<le> length p \<Longrightarrow> skip_stars p i = length p \<longleftrightarrow> set (drop i p) \<subseteq> {CHR ''*''}"
proof (induction p i rule: skip_stars.induct)
  case (1 p i)
  show ?case
  proof (cases "i < length p")
    case True
    then have d: "drop i p = p ! i # drop (Suc i) p" by (simp add: Cons_nth_drop_Suc)
    show ?thesis
    proof (cases "p ! i = CHR ''*''")
      case True
      with 1 \<open>i < length p\<close> d show ?thesis by (subst skip_stars.simps) simp
    next
      case False
      with \<open>i < length p\<close> d show ?thesis by (subst skip_stars.simps) simp
    qed
  next
    case False
    with 1 show ?thesis by (subst skip_stars.simps) simp
  qed
qed

text \<open>What holds at the head of the loop. Since the last star, at \<open>s\<close>, the bytes \<open>L\<close> of the pattern have been
  matched with the value from \<open>matchIndex\<close>; what the star stands for ends there or later.\<close>

definition since_star :: "string \<Rightarrow> string \<Rightarrow> nat \<Rightarrow> nat \<Rightarrow> nat \<Rightarrow> nat \<Rightarrow> string \<Rightarrow> bool" where
  "since_star p v pi vi s mi L \<longleftrightarrow>
     drop (s + 1) p = L @ drop pi p \<and> CHR ''*'' \<notin> set L \<and> take (length L) (drop mi v) = L \<and>
     vi = mi + length L \<and> s < pi \<and> (glob p v \<longleftrightarrow> (\<exists>k \<ge> mi. glob (L @ drop pi p) (drop k v)))"

definition loop_inv :: "string \<Rightarrow> string \<Rightarrow> nat \<Rightarrow> nat \<Rightarrow> int \<Rightarrow> nat \<Rightarrow> bool" where
  "loop_inv p v pi vi si mi \<longleftrightarrow> pi \<le> length p \<and> vi \<le> length v \<and>
     (if si = -1 then glob p v = glob (drop pi p) (drop vi v)
      else \<exists>s L. si = int s \<and> since_star p v pi vi s mi L)"

lemma since_star_rest:
  assumes "since_star p v pi vi s mi L" shows "glob (drop pi p) (drop vi v) \<Longrightarrow> glob p v"
    and "\<not> glob (drop pi p) (drop vi v) \<Longrightarrow> glob p v \<longleftrightarrow> (\<exists>k \<ge> mi + 1. glob (drop (s + 1) p) (drop k v))"
proof -
  from assms have a: "glob (L @ drop pi p) (drop mi v) \<longleftrightarrow> glob (drop pi p) (drop vi v)"
    by (auto simp: since_star_def glob_literal add.commute)
  from assms have g: "glob p v \<longleftrightarrow> (\<exists>k \<ge> mi. glob (L @ drop pi p) (drop k v))"
    and d: "drop (s + 1) p = L @ drop pi p" by (auto simp: since_star_def)
  show "glob (drop pi p) (drop vi v) \<Longrightarrow> glob p v" using a g by blast
  show "\<not> glob (drop pi p) (drop vi v) \<Longrightarrow> glob p v \<longleftrightarrow> (\<exists>k \<ge> mi + 1. glob (drop (s + 1) p) (drop k v))"
    unfolding g d using a by (metis Suc_eq_plus1 le_Suc_eq le_antisym not_less_eq_eq)
qed

lemma inv_star:
  assumes "loop_inv p v pi vi si mi" "pi < length p" "p ! pi = CHR ''*''"
  shows "loop_inv p v (pi + 1) vi (int pi) vi"
proof -
  have d: "drop pi p = CHR ''*'' # drop (pi + 1) p" using assms(2,3) by (metis Cons_nth_drop_Suc Suc_eq_plus1)
  have g: "glob p v \<longleftrightarrow> glob (drop pi p) (drop vi v)"
  proof (cases "si = -1")
    case False
    with assms(1) obtain s L where st: "since_star p v pi vi s mi L" by (auto simp: loop_inv_def)
    have "glob (drop pi p) (drop vi v)" if k: "k \<ge> mi" "glob (L @ drop pi p) (drop k v)" for k
    proof -
      from st k have "glob (drop pi p) (drop (length L + k) v)" by (auto simp: since_star_def glob_literal)
      with st k(1) show ?thesis unfolding d by (auto simp: since_star_def intro: glob_star_mono simp del: glob.simps)
    qed
    with since_star_rest(1) [OF st] st show ?thesis by (auto simp: since_star_def)
  qed (use assms(1) in \<open>simp add: loop_inv_def\<close>)
  have "glob (drop pi p) (drop vi v) \<longleftrightarrow> (\<exists>k \<ge> vi. glob (drop (pi + 1) p) (drop k v))"
  proof
    assume "glob (drop pi p) (drop vi v)"
    then obtain k where "glob (drop (pi + 1) p) (drop (k + vi) v)" unfolding d by auto
    then show "\<exists>k \<ge> vi. glob (drop (pi + 1) p) (drop k v)" by (intro exI [of _ "k + vi"]) simp
  next
    assume "\<exists>k \<ge> vi. glob (drop (pi + 1) p) (drop k v)"
    then obtain k where "k \<ge> vi" "glob (drop (pi + 1) p) (drop k v)" by blast
    then show "glob (drop pi p) (drop vi v)" unfolding d by (auto intro: exI [of _ "k - vi"])
  qed
  with g have "since_star p v (pi + 1) vi pi vi []" by (simp add: since_star_def)
  with assms show ?thesis by (auto simp: loop_inv_def)
qed

lemma inv_match:
  assumes "loop_inv p v pi vi si mi" "pi < length p" "vi < length v" "p ! pi = v ! vi" "p ! pi \<noteq> CHR ''*''"
  shows "loop_inv p v (pi + 1) (vi + 1) si mi"
proof -
  have d: "drop pi p = p ! pi # drop (pi + 1) p" "drop vi v = v ! vi # drop (vi + 1) v"
    using assms(2,3) by (simp_all add: Cons_nth_drop_Suc)
  show ?thesis
  proof (cases "si = -1")
    case True
    with assms d show ?thesis by (simp add: loop_inv_def)
  next
    case False
    with assms(1) obtain s L where st: "si = int s" "since_star p v pi vi s mi L" by (auto simp: loop_inv_def)
    have "take (Suc (length L)) (drop mi v) = L @ [v ! vi]"
      using st assms(3) by (simp add: since_star_def take_Suc_conv_app_nth)
    with st assms d have "since_star p v (pi + 1) (vi + 1) s mi (L @ [p ! pi])"
      by (simp add: since_star_def)
    with st assms show ?thesis by (auto simp: loop_inv_def)
  qed
qed

lemma inv_mismatch:
  assumes "loop_inv p v pi vi si mi" "vi < length v" "\<not> (pi < length p \<and> p ! pi = CHR ''*'')"
    "\<not> (pi < length p \<and> p ! pi = v ! vi)"
  shows "si = -1 \<Longrightarrow> \<not> glob p v" and "si \<noteq> -1 \<Longrightarrow> loop_inv p v (nat (si + 1)) (mi + 1) si (mi + 1)"
    and "si \<noteq> -1 \<Longrightarrow> mi \<le> vi"
proof -
  have n: "\<not> glob (drop pi p) (drop vi v)"
  proof (cases "pi < length p")
    case True
    then have "drop pi p = p ! pi # drop (pi + 1) p" by (simp add: Cons_nth_drop_Suc)
    with True assms(2-4) show ?thesis by (auto simp: hd_drop_conv_nth)
  qed (use assms(2) in simp)
  with assms(1) show "si = -1 \<Longrightarrow> \<not> glob p v" by (simp add: loop_inv_def)
  assume "si \<noteq> -1"
  with assms(1) obtain s L where st: "si = int s" "since_star p v pi vi s mi L" by (auto simp: loop_inv_def)
  then show "mi \<le> vi" by (simp add: since_star_def)
  have "since_star p v (s + 1) (mi + 1) s (mi + 1) []"
    using since_star_rest(2) [OF st(2) n] by (simp add: since_star_def)
  moreover have "s + 1 \<le> length p" "mi + 1 \<le> length v" "nat (si + 1) = s + 1"
    using st assms(1,2) by (auto simp: since_star_def loop_inv_def)
  ultimately show "loop_inv p v (nat (si + 1)) (mi + 1) si (mi + 1)" using st(1) by (auto simp: loop_inv_def)
qed

lemma inv_end:
  assumes "loop_inv p v pi vi si mi" "\<not> vi < length v"
  shows "glob p v \<longleftrightarrow> skip_stars p pi = length p"
proof -
  have e: "skip_stars p pi = length p \<longleftrightarrow> glob (drop pi p) (drop vi v)"
    using assms by (simp add: loop_inv_def skip_stars_end glob_empty)
  show ?thesis
  proof (cases "si = -1")
    case False
    with assms(1) obtain s L where st: "since_star p v pi vi s mi L" by (auto simp: loop_inv_def)
    have "glob (drop pi p) (drop vi v)" if k: "k \<ge> mi" "glob (L @ drop pi p) (drop k v)" for k
    proof -
      from k(2) st have "take (length L) (drop k v) = L" and r: "glob (drop pi p) (drop (length L + k) v)"
        by (auto simp: since_star_def glob_literal)
      moreover have "drop (length L + k) v = []" "drop vi v = []"
        using k(1) st assms(2) by (auto simp: since_star_def)
      ultimately show ?thesis by simp
    qed
    with since_star_rest(1) [OF st] st e show ?thesis by (auto simp: since_star_def)
  qed (use assms(1) e in \<open>simp add: loop_inv_def\<close>)
qed

lemma is_loop_glob: "loop_inv p v pi vi si mi \<Longrightarrow> is_loop p v pi vi si mi = Some (glob p v)"
proof (induction "(nat (int (length p) - si), length v - mi, length v - vi)" arbitrary: pi vi si mi
    rule: wf_induct_rule [OF wf_lex_prod [OF wf_less_than wf_lex_prod [OF wf_less_than wf_less_than]]])
  case 1
  note IH = 1(1) and inv = 1(2)
  have lt: "si < int pi" "pi \<le> length p"
    using inv by (auto simp: loop_inv_def since_star_def split: if_splits)
  show ?case
  proof (cases "vi < length v")
    case vl: True
    consider (star) "pi < length p" "p ! pi = CHR ''*''"
      | (same) "pi < length p" "p ! pi = v ! vi" "p ! pi \<noteq> CHR ''*''"
      | (diff) "\<not> (pi < length p \<and> p ! pi = CHR ''*'')" "\<not> (pi < length p \<and> p ! pi = v ! vi)" by blast
    then show ?thesis
    proof cases
      case star
      have "is_loop p v (pi + 1) vi (int pi) vi = Some (glob p v)"
        using lt star by (intro IH inv_star [OF inv]) auto
      with star vl show ?thesis by (subst is_loop.simps) simp
    next
      case same
      have "is_loop p v (pi + 1) (vi + 1) si mi = Some (glob p v)"
        using vl same by (intro IH inv_match [OF inv]) auto
      with same vl show ?thesis by (subst is_loop.simps) simp
    next
      case diff
      note mm = inv_mismatch [OF inv vl diff]
      show ?thesis
      proof (cases "si = -1")
        case True
        with mm(1) diff vl show ?thesis by (subst is_loop.simps) auto
      next
        case False
        have "is_loop p v (nat (si + 1)) (mi + 1) si (mi + 1) = Some (glob p v)"
          using vl mm(3) [OF False] by (intro IH mm(2) [OF False]) auto
        with diff vl False show ?thesis by (subst is_loop.simps) auto
      qed
    qed
  next
    case False
    with inv_end [OF inv] show ?thesis by (subst is_loop.simps) simp
  qed
qed

text \<open>C9. \<open>Is\<close> returns for every pattern and value, and answers whether the value matches the pattern, a star
  standing for any sequence of bytes. The loop never goes back further than the last star; this is enough.\<close>

theorem Is_matches: "Is p v = Some (glob p v)"
proof -
  have "loop_inv p v 0 0 (-1) 0" by (simp add: loop_inv_def)
  then show ?thesis by (auto simp: Is_def is_loop_glob glob_refl)
qed

section \<open>Further lemmas\<close>

text \<open>\<open>SubstrCount\<close> panics exactly when the sum of a valid offset and a length leaves the range of an
  \<open>int\<close>.\<close>

lemma i64_above: "2 ^ 63 \<le> x \<Longrightarrow> x < 2 ^ 64 \<Longrightarrow> i64 x = x - 2 ^ 64"
proof -
  assume x: "2 ^ 63 \<le> x" "x < 2 ^ 64"
  have "(x + 9223372036854775808) mod 18446744073709551616 = (x - 9223372036854775808) mod 18446744073709551616"
    using minus_mod_self2 [of "x + 9223372036854775808" 18446744073709551616] by simp
  with x show ?thesis by (simp add: i64_def)
qed

lemma SubstrCount_panics:
  assumes "int (length haystack) < 2 ^ 63" "n < 2 ^ 63"
  shows "SubstrCount haystack needle offset [n] = Panic \<longleftrightarrow>
    0 \<le> offset \<and> offset < int (length haystack) \<and> 0 \<le> n \<and> offset + n \<ge> 2 ^ 63"
proof (cases "0 \<le> offset \<and> offset < int (length haystack) \<and> 0 \<le> n")
  case True
  let ?e = "min (i64 (offset + n)) (int (length haystack))"
  have p: "SubstrCount haystack needle offset [n] = Panic \<longleftrightarrow> ?e < offset"
    using True by (simp add: SubstrCount_def Let_def)
  show ?thesis
  proof (cases "offset + n \<ge> 2 ^ 63")
    case big: True
    have "i64 (offset + n) = offset + n - 2 ^ 64" using True assms big by (intro i64_above) auto
    with True assms big show ?thesis unfolding p by simp
  next
    case False
    then have "i64 (offset + n) = offset + n" using True by (simp add: i64_def)
    with True False show ?thesis unfolding p by (simp add: not_less)
  qed
qed (auto simp: SubstrCount_def)

lemma EnsurePrefix_prefix: "prefix pre (EnsurePrefix s pre)"
  by (simp add: EnsurePrefix_def)

lemma EnsurePrefix_idem: "EnsurePrefix (EnsurePrefix s pre) pre = EnsurePrefix s pre"
  by (simp add: EnsurePrefix_def)

lemma EnsureSuffix_idem: "EnsureSuffix (EnsureSuffix s suf) suf = EnsureSuffix s suf"
  by (simp add: EnsureSuffix_def suffix_def)

lemma Index_from_split:
  "Index_from i s sub = Some j \<Longrightarrow> s = take (j - i) s @ sub @ drop (j - i + length sub) s"
proof (induction i s sub rule: Index_from.induct)
  case (2 i c s sub)
  show ?case
  proof (cases "prefix sub (c # s)")
    case True
    with 2 show ?thesis by (auto simp: prefix_def)
  next
    case False
    with 2 have "Index_from (Suc i) s sub = Some j" by simp
    with 2(1) [OF False] have "s = take (j - Suc i) s @ sub @ drop (j - Suc i + length sub) s" by simp
    moreover have "j - i = Suc (j - Suc i)"
      using Index_from_bound [OF \<open>Index_from (Suc i) s sub = Some j\<close>] by arith
    ultimately show ?thesis by simp
  qed
qed (auto split: if_splits)

text \<open>What is found splits the subject: the parts before and after it put it together again.\<close>

lemma Before_After: "search \<noteq> [] \<Longrightarrow> str_Index subject search = Some i \<Longrightarrow>
  Before subject search @ search @ After subject search = subject"
  using Index_from_split [of 0 subject search i] by (simp add: Before_def After_def str_Cut_def str_Index_def)

lemma reverse_loop_length [simp]: "length (reverse_loop rs i j) = length rs"
  by (induction rs i j rule: reverse_loop.induct) (subst reverse_loop.simps, simp)

lemma reverse_loop_nth:
  "j < int (length rs) \<Longrightarrow> k < length rs \<Longrightarrow>
   reverse_loop rs i j ! k = (if int i \<le> int k \<and> int k \<le> j then rs ! nat (int i + j - int k) else rs ! k)"
proof (induction rs i j arbitrary: k rule: reverse_loop.induct)
  case (1 rs i j)
  show ?case
  proof (cases "int i < j")
    case True
    then have "reverse_loop rs i j = reverse_loop (rs[i := rs ! nat j, nat j := rs ! i]) (i + 1) (j - 1)"
      by (subst reverse_loop.simps) simp
    with 1(1) [OF True, of k] 1(2,3) True show ?thesis by (auto simp: nth_list_update)
  next
    case False
    with 1(2,3) show ?thesis by (subst reverse_loop.simps) (auto simp: le_less)
  qed
qed

text \<open>The loop that swaps in place reverses the code points.\<close>

lemma Reverse_runes: "Reverse s = string_of_runes (rev (runes s))"
proof -
  have "reverse_loop (runes s) 0 (int (length (runes s)) - 1) = rev (runes s)"
  proof (rule nth_equalityI)
    fix k assume k: "k < length (reverse_loop (runes s) 0 (int (length (runes s)) - 1))"
    then have "nat (int (length (runes s)) - 1 - int k) = length (runes s) - Suc k" by simp
    with k show "reverse_loop (runes s) 0 (int (length (runes s)) - 1) ! k = rev (runes s) ! k"
      by (simp add: reverse_loop_nth rev_nth)
  qed simp
  then show ?thesis by (simp add: Reverse_def Let_def)
qed

end
