(* ===== verification/Lifecycle.thy ===== *)
theory Lifecycle
  imports Prelude
begin

text \<open>
  Package \<open>lifecycle\<close> (\<open>src/lifecycle\<close>): a runner that starts providers in order, runs the application and stops
  the started providers in reverse order. Providers and the application are parameters on a world \<open>'w\<close>; they may
  fail or panic. A context is a value of a type \<open>'c\<close> that the package only passes on, with the operations of package
  \<open>context\<close> it uses. The calls of one goroutine are modelled: a call that waits for another goroutine
  (\<open>Shutdown\<close> of a runner that is starting or stopping) is the result \<open>None\<close>.
\<close>

section \<open>Providers and options\<close>

definition ErrAlreadyStarted :: go_error where
  "ErrAlreadyStarted = Sentinel ''lifecycle: runner already started''"

text \<open>What a call of a provider returns: a context, which may be nil, and an error.\<close>

type_synonym ('c, 'w) phase = "'c \<Rightarrow> 'w \<Rightarrow> ('c option \<times> go_error option) outcome \<times> 'w"

record ('c, 'w) Provider =
  type_name :: string
  Provider_Bootstrap :: "('c, 'w) phase"
  Provider_Shutdown :: "('c, 'w) phase"

definition BootstrapFunc :: "('c, 'w) phase \<Rightarrow> ('c, 'w) Provider" where
  "BootstrapFunc f = \<lparr>type_name = ''lifecycle.BootstrapFunc'', Provider_Bootstrap = f,
     Provider_Shutdown = (\<lambda>ctx w. (Return (Some ctx, None), w))\<rparr>"

definition ShutdownFunc :: "('c, 'w) phase \<Rightarrow> ('c, 'w) Provider" where
  "ShutdownFunc f = \<lparr>type_name = ''lifecycle.ShutdownFunc'',
     Provider_Bootstrap = (\<lambda>ctx w. (Return (Some ctx, None), w)), Provider_Shutdown = f\<rparr>"

definition defaultShutdownTimeout :: int where
  "defaultShutdownTimeout = 5 * 1000000000"

record ('c, 'w) config =
  config_providers :: "('c, 'w) Provider list"
  config_shutdownTimeout :: int

datatype ('c, 'w) Option =
    WithProviders "('c, 'w) Provider option list"
  | WithShutdownTimeout int

fun apply_option :: "('c, 'w) Option \<Rightarrow> ('c, 'w) config \<Rightarrow> ('c, 'w) config" where
  "apply_option (WithProviders ps) c = c\<lparr>config_providers := config_providers c @ List.map_filter (\<lambda>p. p) ps\<rparr>"
| "apply_option (WithShutdownTimeout timeout) c =
     (if timeout > 0 then c\<lparr>config_shutdownTimeout := timeout\<rparr> else c)"

definition newConfig :: "('c, 'w) Option option list \<Rightarrow> ('c, 'w) config" where
  "newConfig options =
     fold (\<lambda>opt c. case opt of None \<Rightarrow> c | Some opt \<Rightarrow> apply_option opt c) options
       \<lparr>config_providers = [], config_shutdownTimeout = defaultShutdownTimeout\<rparr>"

section \<open>The runner\<close>

datatype runnerState = StateNew | StateStarting | StateStarted | StateStopping | StateStopped

record ('c, 'w) Runner =
  providers :: "('c, 'w) Provider list"
  shutdownTimeout :: int
  state :: runnerState
  started :: "('c, 'w) Provider list"
  shutdownErr :: "go_error option"

definition New :: "('c, 'w) Option option list \<Rightarrow> ('c, 'w) Runner" where
  "New options =
     (let c = newConfig options
      in \<lparr>providers = config_providers c, shutdownTimeout = config_shutdownTimeout c, state = StateNew,
          started = [], shutdownErr = None\<rparr>)"

text \<open>The operations of package \<open>context\<close>: \<open>ctx_cancel\<close> is the function that \<open>context.WithTimeout\<close> returns
  with the context.\<close>

record ('c, 'w) context_ops =
  Background :: 'c
  WithoutCancel :: "'c \<Rightarrow> 'c"
  WithTimeout :: "'c \<Rightarrow> int \<Rightarrow> 'w \<Rightarrow> 'c \<times> 'w"
  ctx_cancel :: "'c \<Rightarrow> 'w \<Rightarrow> 'w"

definition normalizeContext :: "('c, 'w) context_ops \<Rightarrow> 'c option \<Rightarrow> 'c" where
  "normalizeContext ops ctx = (case ctx of None \<Rightarrow> Background ops | Some c \<Rightarrow> c)"

definition providerError :: "string \<Rightarrow> ('c, 'w) Provider \<Rightarrow> go_error \<Rightarrow> go_error" where
  "providerError phase p err = Wrapped (''lifecycle: '' @ phase @ '' provider '' @ type_name p @ '': '') err"

definition nilContextError :: "string \<Rightarrow> ('c, 'w) Provider \<Rightarrow> go_error" where
  "nilContextError phase p = Sentinel (''lifecycle: '' @ phase @ '' provider '' @ type_name p @ '' returned a nil context'')"

fun bootstrap_loop :: "('c, 'w) Provider list \<Rightarrow> 'c \<Rightarrow> ('c, 'w) Provider list \<Rightarrow> 'w
    \<Rightarrow> ('c \<times> ('c, 'w) Provider list \<times> go_error option) outcome \<times> 'w" where
  "bootstrap_loop [] ctx st w = (Return (ctx, st, None), w)"
| "bootstrap_loop (p # ps) ctx st w =
     (case Provider_Bootstrap p ctx w of
        (Panic, w1) \<Rightarrow> (Panic, w1)
      | (Return (_, Some err), w1) \<Rightarrow> (Return (ctx, st, Some (providerError ''bootstrap'' p err)), w1)
      | (Return (None, None), w1) \<Rightarrow> (Return (ctx, st, Some (nilContextError ''bootstrap'' p)), w1)
      | (Return (Some nxt, None), w1) \<Rightarrow> bootstrap_loop ps nxt (st @ [p]) w1)"

definition bootstrap :: "('c, 'w) Runner \<Rightarrow> 'c \<Rightarrow> 'w
    \<Rightarrow> ('c \<times> ('c, 'w) Provider list \<times> go_error option) outcome \<times> 'w" where
  "bootstrap r ctx w = bootstrap_loop (providers r) ctx [] w"

fun shutdown_loop :: "('c, 'w) Provider list \<Rightarrow> 'c \<Rightarrow> go_error list \<Rightarrow> 'w
    \<Rightarrow> ('c \<times> go_error option) outcome \<times> 'w" where
  "shutdown_loop [] ctx errs w = (Return (ctx, errors_Join (map Some errs)), w)"
| "shutdown_loop (p # ps) ctx errs w =
     (case Provider_Shutdown p ctx w of
        (Panic, w1) \<Rightarrow> (Panic, w1)
      | (Return (_, Some err), w1) \<Rightarrow> shutdown_loop ps ctx (errs @ [providerError ''shutdown'' p err]) w1
      | (Return (None, None), w1) \<Rightarrow> shutdown_loop ps ctx (errs @ [nilContextError ''shutdown'' p]) w1
      | (Return (Some nxt, None), w1) \<Rightarrow> shutdown_loop ps nxt errs w1)"

definition shutdown :: "'c \<Rightarrow> ('c, 'w) Provider list \<Rightarrow> 'w \<Rightarrow> ('c \<times> go_error option) outcome \<times> 'w" where
  "shutdown ctx ps w = shutdown_loop (rev ps) ctx [] w"

text \<open>The deferred \<open>cancel\<close> runs also when the function given panics. What that function acts on is a state
  \<open>'s\<close> that contains the world.\<close>

definition withShutdownTimeout :: "('c, 'w) context_ops \<Rightarrow> int \<Rightarrow> 'c \<Rightarrow> ('c \<Rightarrow> 's \<times> 'w \<Rightarrow> 'r \<times> 's \<times> 'w)
    \<Rightarrow> 's \<times> 'w \<Rightarrow> 'r \<times> 's \<times> 'w" where
  "withShutdownTimeout ops timeout ctx f sw =
     (let (s, w) = sw;
          (tctx, w1) = WithTimeout ops (WithoutCancel ops ctx) timeout w;
          (res, s2, w2) = f tctx (s, w1)
      in (res, s2, ctx_cancel ops tctx w2))"

text \<open>A provider that panics leaves the runner in the state it had when the provider was called.\<close>

definition Bootstrap :: "('c, 'w) context_ops \<Rightarrow> 'c option \<Rightarrow> ('c, 'w) Runner \<times> 'w
    \<Rightarrow> ('c \<times> go_error option) outcome \<times> ('c, 'w) Runner \<times> 'w" where
  "Bootstrap ops nctx rw =
     (let (r, w) = rw; ctx = normalizeContext ops nctx in
      if state r \<noteq> StateNew then (Return (ctx, Some ErrAlreadyStarted), r, w)
      else let r1 = r\<lparr>state := StateStarting\<rparr> in
        case bootstrap r1 ctx w of
          (Panic, w1) \<Rightarrow> (Panic, r1, w1)
        | (Return (runtimeCtx, st, Some err), w1) \<Rightarrow>
            (case withShutdownTimeout ops (shutdownTimeout r1) runtimeCtx
                    (\<lambda>c (s, w). let (res, w2) = shutdown c st w in (res, s, w2)) (r1, w1) of
               (Panic, r2, w2) \<Rightarrow> (Panic, r2, w2)
             | (Return (rollbackCtx, rollbackErr), r2, w2) \<Rightarrow>
                 (Return (rollbackCtx, errors_Join [Some err, rollbackErr]),
                  r2\<lparr>state := StateStopped, shutdownErr := rollbackErr\<rparr>, w2))
        | (Return (runtimeCtx, st, None), w1) \<Rightarrow>
            (Return (runtimeCtx, None), r1\<lparr>started := st, state := StateStarted\<rparr>, w1))"

definition Shutdown :: "('c, 'w) context_ops \<Rightarrow> 'c option \<Rightarrow> ('c, 'w) Runner \<times> 'w
    \<Rightarrow> ('c \<times> go_error option) outcome option \<times> ('c, 'w) Runner \<times> 'w" where
  "Shutdown ops nctx rw =
     (let (r, w) = rw; ctx = normalizeContext ops nctx in
      case state r of
        StateNew \<Rightarrow> (Some (Return (ctx, None)), r, w)
      | StateStarting \<Rightarrow> (None, r, w)
      | StateStarted \<Rightarrow>
          (let r1 = r\<lparr>state := StateStopping\<rparr> in
           case shutdown ctx (started r) w of
             (Panic, w1) \<Rightarrow> (Some Panic, r1, w1)
           | (Return (shutdownCtx, err), w1) \<Rightarrow>
               (Some (Return (shutdownCtx, err)), r1\<lparr>started := [], shutdownErr := err, state := StateStopped\<rparr>, w1))
      | StateStopping \<Rightarrow> (None, r, w)
      | StateStopped \<Rightarrow> (Some (Return (ctx, shutdownErr r)), r, w))"

text \<open>The application may use the runner, so it acts on the runner too. The shutdown is deferred: it runs when the
  application returns and when it panics.\<close>

type_synonym ('c, 'w) Handler = "'c \<Rightarrow> ('c, 'w) Runner \<times> 'w \<Rightarrow> go_error option outcome \<times> ('c, 'w) Runner \<times> 'w"

definition Run :: "('c, 'w) context_ops \<Rightarrow> 'c option \<Rightarrow> ('c, 'w) Handler option \<Rightarrow> ('c, 'w) Runner \<times> 'w
    \<Rightarrow> go_error option outcome option \<times> ('c, 'w) Runner \<times> 'w" where
  "Run ops nctx handler rw =
     (case Bootstrap ops nctx rw of
        (Panic, rw1) \<Rightarrow> (Some Panic, rw1)
      | (Return (_, Some err), rw1) \<Rightarrow> (Some (Return (Some err)), rw1)
      | (Return (runtimeCtx, None), rw1) \<Rightarrow>
          (let (hres, rw2) = (case handler of None \<Rightarrow> (Return None, rw1) | Some h \<Rightarrow> h runtimeCtx rw1)
           in case withShutdownTimeout ops (shutdownTimeout (fst rw2)) runtimeCtx (\<lambda>c. Shutdown ops (Some c)) rw2 of
                (None, rw3) \<Rightarrow> (None, rw3)
              | (Some Panic, rw3) \<Rightarrow> (Some Panic, rw3)
              | (Some (Return (_, sErr)), rw3) \<Rightarrow>
                  (Some (case hres of Panic \<Rightarrow> Panic | Return err \<Rightarrow> Return (errors_Join [err, sErr])), rw3)))"

section \<open>The calls that a runner makes\<close>

text \<open>To speak of the calls, a provider is run on a world with a log: the \<open>i\<close>-th provider behaves as it does on its
  own and appends its calls, each with the error that the runner has to report for what the call returned. A call
  without error has returned a context and no error.\<close>

datatype call = Boot nat "go_error option" | Handled "go_error option outcome" | Shut nat "go_error option"

definition phase_error :: "string \<Rightarrow> ('c, 'w) Provider \<Rightarrow> ('c option \<times> go_error option) outcome \<Rightarrow> go_error option" where
  "phase_error phase p res =
     (case res of
        Panic \<Rightarrow> None
      | Return (_, Some err) \<Rightarrow> Some (providerError phase p err)
      | Return (None, None) \<Rightarrow> Some (nilContextError phase p)
      | Return (Some _, None) \<Rightarrow> None)"

definition traced_phase :: "(('c option \<times> go_error option) outcome \<Rightarrow> call) \<Rightarrow> ('c, 'w) phase \<Rightarrow> ('c, 'w \<times> call list) phase" where
  "traced_phase e f ctx wl = (let (res, w) = f ctx (fst wl) in (res, w, snd wl @ [e res]))"

definition traced :: "nat \<Rightarrow> ('c, 'w) Provider \<Rightarrow> ('c, 'w \<times> call list) Provider" where
  "traced i p = \<lparr>type_name = type_name p,
     Provider_Bootstrap = traced_phase (\<lambda>res. Boot i (phase_error ''bootstrap'' p res)) (Provider_Bootstrap p),
     Provider_Shutdown = traced_phase (\<lambda>res. Shut i (phase_error ''shutdown'' p res)) (Provider_Shutdown p)\<rparr>"

definition traced_from :: "nat \<Rightarrow> ('c, 'w) Provider list \<Rightarrow> ('c, 'w \<times> call list) Provider list" where
  "traced_from i ps = map (\<lambda>(j, p). traced j p) (enumerate i ps)"

definition traced_ops :: "('c, 'w) context_ops \<Rightarrow> ('c, 'w \<times> call list) context_ops" where
  "traced_ops ops = \<lparr>Background = Background ops, WithoutCancel = WithoutCancel ops,
     WithTimeout = (\<lambda>c d (w, l). let (c1, w1) = WithTimeout ops c d w in (c1, w1, l)),
     ctx_cancel = (\<lambda>c (w, l). (ctx_cancel ops c w, l))\<rparr>"

definition traced_handler :: "('c \<Rightarrow> 'w \<Rightarrow> go_error option outcome \<times> 'w) \<Rightarrow> ('c, 'w \<times> call list) Handler" where
  "traced_handler h ctx = (\<lambda>(r, w, l). let (res, w1) = h ctx w in (res, r, w1, l @ [Handled res]))"

text \<open>A provider that does not panic.\<close>

definition no_panic :: "('c, 'w) Provider \<Rightarrow> bool" where
  "no_panic p \<longleftrightarrow> (\<forall>ctx w. fst (Provider_Bootstrap p ctx w) \<noteq> Panic \<and> fst (Provider_Shutdown p ctx w) \<noteq> Panic)"

lemma traced_from_simps [simp]:
  "traced_from i [] = []" "traced_from i (p # ps) = traced i p # traced_from (Suc i) ps"
  "length (traced_from i ps) = length ps"
  by (simp_all add: traced_from_def)

lemma traced_from_take: "take k (traced_from i ps) = traced_from i (take k ps)"
proof (induction ps arbitrary: i k)
  case (Cons p ps)
  then show ?case by (cases k) simp_all
qed simp

text \<open>The log of the calls that start providers \<open>i\<close> to \<open>i + k - 1\<close>, and of those that stop them, in reverse order and
  with their errors.\<close>

definition boots :: "nat \<Rightarrow> nat \<Rightarrow> call list" where
  "boots i k = map (\<lambda>j. Boot j None) [i..<i + k]"

definition shuts :: "nat \<Rightarrow> go_error option list \<Rightarrow> call list" where
  "shuts i errs = rev (map2 Shut [i..<i + length errs] errs)"

lemma boots_simps [simp]:
  "boots i 0 = []" "boots i (Suc k) = Boot i None # boots (Suc i) k"
  by (simp_all add: boots_def upt_conv_Cons del: upt_Suc)

lemma shuts_simps [simp]:
  "shuts i [] = []" "shuts i (errs @ [e]) = Shut (i + length errs) e # shuts i errs"
  by (simp_all add: shuts_def)

lemma traced_error [simp]:
  "providerError phase (traced i p) err = providerError phase p err"
  "nilContextError phase (traced i p) = nilContextError phase p"
  by (simp_all add: providerError_def nilContextError_def traced_def)

lemma errors_Join_None [simp]: "errors_Join (xs @ None # ys) = errors_Join (xs @ ys)"
  by (simp add: errors_Join_def map_filter_def)

lemma bootstrap_traced:
  assumes "\<forall>p \<in> set ps. no_panic p"
  shows "(\<exists>c' w'. bootstrap_loop (traced_from i ps) c st (w, l) =
      (Return (c', st @ traced_from i ps, None), w', l @ boots i (length ps))) \<or>
    (\<exists>k < length ps. \<exists>c' e w'. bootstrap_loop (traced_from i ps) c st (w, l) =
      (Return (c', st @ traced_from i (take k ps), Some e), w', l @ boots i k @ [Boot (i + k) (Some e)]))"
  using assms
proof (induction ps arbitrary: i c st w l)
  case (Cons p ps)
  obtain res w1 where b: "Provider_Bootstrap p c w = (res, w1)" by (cases "Provider_Bootstrap p c w")
  with Cons.prems have "res \<noteq> Panic" unfolding no_panic_def by (metis fst_conv list.set_intros(1))
  then obtain nxt e where res: "res = Return (nxt, e)" by (cases res) auto
  have tb: "Provider_Bootstrap (traced i p) c (w, l) = (res, w1, l @ [Boot i (phase_error ''bootstrap'' p res)])"
    by (simp add: traced_def traced_phase_def b)
  show ?case
  proof (cases "e = None \<and> nxt \<noteq> None")
    case True
    then obtain n where n: "nxt = Some n" "e = None" by auto
    have l: "bootstrap_loop (traced_from i (p # ps)) c st (w, l) =
        bootstrap_loop (traced_from (Suc i) ps) n (st @ [traced i p]) (w1, l @ [Boot i None])"
      using tb res n by (simp add: phase_error_def)
    have "\<forall>p \<in> set ps. no_panic p" using Cons.prems by simp
    from Cons.IH [OF this, of "Suc i" n "st @ [traced i p]" w1 "l @ [Boot i None]"] show ?thesis
    proof (elim disjE exE conjE)
      fix k c' e' w'
      assume "k < length ps" "bootstrap_loop (traced_from (Suc i) ps) n (st @ [traced i p]) (w1, l @ [Boot i None]) =
        (Return (c', (st @ [traced i p]) @ traced_from (Suc i) (take k ps), Some e'), w',
         (l @ [Boot i None]) @ boots (Suc i) k @ [Boot (Suc i + k) (Some e')])"
      then show ?thesis unfolding l by (intro disjI2 exI [of _ "Suc k"]) simp
    next
      fix c' w'
      assume "bootstrap_loop (traced_from (Suc i) ps) n (st @ [traced i p]) (w1, l @ [Boot i None]) =
        (Return (c', (st @ [traced i p]) @ traced_from (Suc i) ps, None), w', (l @ [Boot i None]) @ boots (Suc i) (length ps))"
      then show ?thesis unfolding l by (intro disjI1 exI [of _ c'] exI [of _ w']) simp
    qed
  next
    case False
    with tb res show ?thesis
      by (intro disjI2 exI [of _ 0]) (cases e; cases nxt; simp add: phase_error_def)
  qed
qed simp

lemma shutdown_traced:
  assumes "\<forall>p \<in> set ps. no_panic p"
  shows "\<exists>c' es w'. length es = length ps \<and> shutdown_loop (rev (traced_from i ps)) c errs (w, l) =
    (Return (c', errors_Join (map Some errs @ rev es)), w', l @ shuts i es)"
  using assms
proof (induction ps arbitrary: c errs w l rule: rev_induct)
  case (snoc p ps)
  have t: "rev (traced_from i (ps @ [p])) = traced (i + length ps) p # rev (traced_from i ps)"
    by (simp add: traced_from_def enumerate_append_eq)
  obtain res w1 where b: "Provider_Shutdown p c w = (res, w1)" by (cases "Provider_Shutdown p c w")
  with snoc.prems have "res \<noteq> Panic" unfolding no_panic_def by (metis fst_conv in_set_conv_decomp)
  then obtain nxt e where res: "res = Return (nxt, e)" by (cases res) auto
  let ?e = "phase_error ''shutdown'' p res"
  let ?l = "l @ [Shut (i + length ps) ?e]"
  have tb: "Provider_Shutdown (traced (i + length ps) p) c (w, l) = (res, w1, ?l)"
    by (simp add: traced_def traced_phase_def b)
  have l: "\<exists>c0. shutdown_loop (rev (traced_from i (ps @ [p]))) c errs (w, l) =
      shutdown_loop (rev (traced_from i ps)) c0 (errs @ (case ?e of None \<Rightarrow> [] | Some x \<Rightarrow> [x])) (w1, ?l)"
    unfolding t using tb res by (cases e; cases nxt) (auto simp: phase_error_def)
  then obtain c0 where l: "shutdown_loop (rev (traced_from i (ps @ [p]))) c errs (w, l) =
      shutdown_loop (rev (traced_from i ps)) c0 (errs @ (case ?e of None \<Rightarrow> [] | Some x \<Rightarrow> [x])) (w1, ?l)" by blast
  obtain c' es w' where IH: "length es = length ps"
    "shutdown_loop (rev (traced_from i ps)) c0 (errs @ (case ?e of None \<Rightarrow> [] | Some x \<Rightarrow> [x])) (w1, ?l) =
      (Return (c', errors_Join (map Some (errs @ (case ?e of None \<Rightarrow> [] | Some x \<Rightarrow> [x])) @ rev es)), w', ?l @ shuts i es)"
    using snoc.IH [of c0 "errs @ (case ?e of None \<Rightarrow> [] | Some x \<Rightarrow> [x])" w1 ?l] snoc.prems by auto
  show ?case unfolding l using IH
    by (intro exI [of _ c'] exI [of _ "es @ [?e]"] exI [of _ w']) (simp split: option.split)
qed simp

lemma set_take_no_panic: "\<forall>p \<in> set ps. no_panic p \<Longrightarrow> \<forall>p \<in> set (take k ps). no_panic p"
  by (meson in_set_takeD)

lemma traced_WithTimeout:
  "\<exists>c1 w1. WithTimeout (traced_ops ops) c d (w, l) = (c1, w1, l)"
  by (cases "WithTimeout ops c d w") (simp add: traced_ops_def)

lemma traced_cancel: "ctx_cancel (traced_ops ops) c (w, l) = (ctx_cancel ops c w, l)"
  by (simp add: traced_ops_def)

lemma Bootstrap_traced:
  assumes "\<forall>p \<in> set ps. no_panic p" "providers r = traced_from 0 ps" "state r = StateNew"
  shows "(\<exists>c w'. Bootstrap (traced_ops ops) ctx (r, w, l) = (Return (c, None),
            r\<lparr>state := StateStarted, started := traced_from 0 ps\<rparr>, w', l @ boots 0 (length ps))) \<or>
         (\<exists>k < length ps. \<exists>c e es r' w'. length es = k \<and> state r' = StateStopped \<and>
            Bootstrap (traced_ops ops) ctx (r, w, l) = (Return (c, errors_Join [Some e, errors_Join (rev es)]), r', w',
              l @ boots 0 k @ [Boot k (Some e)] @ shuts 0 es))"
proof -
  let ?c = "normalizeContext (traced_ops ops) ctx"
  show ?thesis using bootstrap_traced [OF assms(1), of 0 ?c "[]" w l]
  proof (elim disjE exE conjE)
    fix c' w'
    assume "bootstrap_loop (traced_from 0 ps) ?c [] (w, l) =
      (Return (c', [] @ traced_from 0 ps, None), w', l @ boots 0 (length ps))"
    with assms show ?thesis by (intro disjI1) (simp add: Bootstrap_def bootstrap_def)
  next
    fix k c' e w1
    let ?l = "l @ boots 0 k @ [Boot k (Some e)]"
    assume k: "k < length ps" and b: "bootstrap_loop (traced_from 0 ps) ?c [] (w, l) =
      (Return (c', [] @ traced_from 0 (take k ps), Some e), w1, l @ boots 0 k @ [Boot (0 + k) (Some e)])"
    obtain tc w2 where t: "WithTimeout (traced_ops ops) (WithoutCancel (traced_ops ops) c') (shutdownTimeout r) (w1, ?l) =
        (tc, w2, ?l)"
      using traced_WithTimeout [of ops "WithoutCancel (traced_ops ops) c'" "shutdownTimeout r" w1 ?l] by blast
    obtain c2 es w3 where s: "length es = length (take k ps)"
      "shutdown_loop (rev (traced_from 0 (take k ps))) tc [] (w2, ?l) =
        (Return (c2, errors_Join (map Some [] @ rev es)), w3, ?l @ shuts 0 es)"
      using shutdown_traced [OF set_take_no_panic [OF assms(1)], of k 0 tc "[]" w2 ?l] by blast
    have "length es = k" using s(1) k by simp
    moreover have "Bootstrap (traced_ops ops) ctx (r, w, l) = (Return (c2, errors_Join [Some e, errors_Join (rev es)]),
        r\<lparr>state := StateStopped, shutdownErr := errors_Join (rev es)\<rparr>, ctx_cancel ops tc w3, ?l @ shuts 0 es)"
      using b t s(2) assms(2,3)
      by (simp add: Bootstrap_def bootstrap_def withShutdownTimeout_def shutdown_def traced_cancel)
    ultimately show ?thesis using k by (intro disjI2 exI [of _ k]) auto
  qed
qed

text \<open>What \<open>Run\<close> may log and return for \<open>n\<close> providers. Either every provider starts without error, the application runs
  and every provider is stopped; or the start of provider \<open>k\<close> has an error.\<close>

definition balanced :: "nat \<Rightarrow> call list \<Rightarrow> go_error option outcome \<Rightarrow> bool" where
  "balanced n log res \<longleftrightarrow>
     (\<exists>hres errs. length errs = n \<and> log = boots 0 n @ [Handled hres] @ shuts 0 errs \<and>
        res = (case hres of Panic \<Rightarrow> Panic | Return err \<Rightarrow> Return (errors_Join [err, errors_Join (rev errs)]))) \<or>
     (\<exists>k < n. \<exists>e errs. length errs = k \<and> log = boots 0 k @ [Boot k (Some e)] @ shuts 0 errs \<and>
        res = Return (errors_Join [Some e, errors_Join (rev errs)]))"

lemma errors_Join_Some: "\<exists>j. errors_Join [Some e, e2] = Some j"
  by (cases e2) (simp_all add: errors_Join_def map_filter_def)

text \<open>C8. A run calls its providers in balance and reports their errors. For providers that do not panic, whatever
  else they do, and any application, \<open>Run\<close> of a new runner returns, with the runner stopped. Either every provider
  is started in order and each start returns a context and no error; then the application runs; then every provider
  is stopped in reverse order, whatever the other stops return and also when the application panics; and \<open>Run\<close>
  returns the error of the application joined with all errors of the stops, or panics as the application did. Or
  providers before some \<open>k\<close> start and provider \<open>k\<close> returns an error or no context; then the application does
  not run, exactly the providers before \<open>k\<close> are stopped in reverse order, and \<open>Run\<close> returns the error of the start joined
  with all errors of the stops.\<close>

theorem Run_balanced:
  assumes "\<forall>p \<in> set ps. no_panic p" "providers r = traced_from 0 ps" "state r = StateNew"
  shows "\<exists>res r' w' log. Run (traced_ops ops) ctx (Some (traced_handler h)) (r, w, []) = (Some res, r', w', log) \<and>
    state r' = StateStopped \<and> balanced (length ps) log res"
  using Bootstrap_traced [OF assms, of ops ctx w "[]"]
proof (elim disjE exE conjE)
  fix c w1
  let ?r = "r\<lparr>state := StateStarted, started := traced_from 0 ps\<rparr>"
  assume b: "Bootstrap (traced_ops ops) ctx (r, w, []) = (Return (c, None), ?r, w1, [] @ boots 0 (length ps))"
  obtain hres w2 where h: "h c w1 = (hres, w2)" by (cases "h c w1")
  let ?l = "boots 0 (length ps) @ [Handled hres]"
  obtain tc w3 where t: "WithTimeout (traced_ops ops) (WithoutCancel (traced_ops ops) c) (shutdownTimeout r) (w2, ?l) = (tc, w3, ?l)"
    using traced_WithTimeout [of ops "WithoutCancel (traced_ops ops) c" "shutdownTimeout r" w2 ?l] by blast
  obtain c2 es w4 where es: "length es = length ps" and s: "shutdown_loop (rev (traced_from 0 ps)) tc [] (w3, ?l) =
      (Return (c2, errors_Join (map Some [] @ rev es)), w4, ?l @ shuts 0 es)"
    using shutdown_traced [OF assms(1), of 0 tc "[]" w3 ?l] by blast
  let ?res = "case hres of Panic \<Rightarrow> Panic | Return err \<Rightarrow> Return (errors_Join [err, errors_Join (rev es)])"
  have "\<exists>r'. Run (traced_ops ops) ctx (Some (traced_handler h)) (r, w, []) =
      (Some ?res, r', ctx_cancel ops tc w4, ?l @ shuts 0 es) \<and> state r' = StateStopped"
    using b h t s
    by (simp add: Run_def traced_handler_def withShutdownTimeout_def Shutdown_def shutdown_def normalizeContext_def
        traced_cancel)
  moreover have "balanced (length ps) (?l @ shuts 0 es) ?res"
    unfolding balanced_def using es by (intro disjI1 exI [of _ hres] exI [of _ es]) simp
  ultimately show ?thesis by blast
next
  fix k c e es r' w'
  assume k: "k < length ps" "length es = k" and b: "state r' = StateStopped"
    "Bootstrap (traced_ops ops) ctx (r, w, []) = (Return (c, errors_Join [Some e, errors_Join (rev es)]), r', w',
      [] @ boots 0 k @ [Boot k (Some e)] @ shuts 0 es)"
  have "balanced (length ps) (boots 0 k @ [Boot k (Some e)] @ shuts 0 es) (Return (errors_Join [Some e, errors_Join (rev es)]))"
    unfolding balanced_def using k by (intro disjI2 exI [of _ k] exI [of _ e] exI [of _ es] conjI refl) simp_all
  then show ?thesis using b errors_Join_Some [of e "errors_Join (rev es)"] by (auto simp: Run_def)
qed

text \<open>Three providers of which the last fails to start, with a context, and the first fails to stop.\<close>

definition example_providers :: "(nat, nat) Provider list" where
  "example_providers = [ShutdownFunc (\<lambda>c w. (Return (None, Some (Sentinel ''stuck'')), w)),
     BootstrapFunc (\<lambda>c w. (Return (Some (c + 1), None), w)),
     BootstrapFunc (\<lambda>c w. (Return (Some c, Some (Sentinel ''down'')), w + 1))]"

definition example_ops :: "(nat, nat) context_ops" where
  "example_ops = \<lparr>Background = 0, WithoutCancel = (\<lambda>c. c), WithTimeout = (\<lambda>c d w. (c, w)), ctx_cancel = (\<lambda>c w. w)\<rparr>"

theorem Run_balanced_witness:
  "\<exists>res r' w' log. Run (traced_ops example_ops) None (Some (traced_handler (\<lambda>c w. (Return None, w))))
      (New [Some (WithProviders (map Some (traced_from 0 example_providers)))], 0, []) = (Some res, r', w', log) \<and>
    state r' = StateStopped \<and> balanced (length example_providers) log res"
proof (rule Run_balanced)
  show "\<forall>p \<in> set example_providers. no_panic p"
    by (simp add: example_providers_def no_panic_def BootstrapFunc_def ShutdownFunc_def)
  show "providers (New [Some (WithProviders (map Some (traced_from 0 example_providers)))]) = traced_from 0 example_providers"
    by (simp add: New_def newConfig_def Let_def map_filter_def comp_def)
  show "state (New [Some (WithProviders (map Some (traced_from 0 example_providers)))]) = StateNew"
    by (simp add: New_def Let_def)
qed

section \<open>Further lemmas\<close>

text \<open>A runner starts only once, and stopping it again returns the error of the first time and calls no
  provider.\<close>

lemma Bootstrap_once:
  "state r \<noteq> StateNew \<Longrightarrow> Bootstrap ops ctx (r, w) = (Return (normalizeContext ops ctx, Some ErrAlreadyStarted), r, w)"
  by (simp add: Bootstrap_def)

lemma Shutdown_again:
  "Shutdown ops ctx (r, w) = (Some (Return (c, err)), r1, w1) \<Longrightarrow> state r \<noteq> StateNew \<Longrightarrow>
   Shutdown ops ctx' (r1, w2) = (Some (Return (normalizeContext ops ctx', err)), r1, w2)"
  by (auto simp: Shutdown_def Let_def split: runnerState.splits prod.splits outcome.splits)

text \<open>A provider that panics while it starts leaves the runner starting: providers started before are not stopped,
  and a later \<open>Shutdown\<close> waits forever.\<close>

lemma Bootstrap_panic_blocks:
  assumes "state r = StateNew" "bootstrap (r\<lparr>state := StateStarting\<rparr>) (normalizeContext ops ctx) w = (Panic, w1)"
  shows "Run ops ctx h (r, w) = (Some Panic, r\<lparr>state := StateStarting\<rparr>, w1)"
    and "Shutdown ops ctx' (r\<lparr>state := StateStarting\<rparr>, w2) = (None, r\<lparr>state := StateStarting\<rparr>, w2)"
  using assms by (simp_all add: Run_def Bootstrap_def Shutdown_def Let_def)

end
