(* ===== verification/Event.thy ===== *)
theory Event
  imports Prelude
begin

text \<open>
  Package \<open>event\<close> (\<open>src/event\<close>): a dispatcher calls the handlers registered for the exact type of an event. An event
  is a pair of its dynamic type and its value. Handlers and middleware are parameters on a world \<open>'w\<close> and may fail or
  panic. Serial dispatch is a function; concurrent dispatch is a step relation of its worker goroutines, in which one
  call of a handler is one step.
\<close>

section \<open>Options\<close>

type_synonym ('t, 'v, 'w) AnyHandler = "'w wctx \<Rightarrow> 't \<times> 'v \<Rightarrow> 'w \<Rightarrow> go_error option outcome \<times> 'w"

text \<open>A middleware is given a handler, which may be nil, and may return nil.\<close>

type_synonym ('t, 'v, 'w) Middleware = "('t, 'v, 'w) AnyHandler option \<Rightarrow> ('t, 'v, 'w) AnyHandler option"

text \<open>The only option of a dispatcher is \<open>WithMiddleware\<close>.\<close>

datatype ('t, 'v, 'w) Option = WithMiddleware "('t, 'v, 'w) Middleware option list"

definition newConfig :: "('t, 'v, 'w) Option option list \<Rightarrow> ('t, 'v, 'w) Middleware list" where
  "newConfig options =
     fold (\<lambda>opt c. case opt of None \<Rightarrow> c | Some (WithMiddleware ms) \<Rightarrow> c @ List.map_filter (\<lambda>m. m) ms) options []"

record dispatchConfig =
  concurrency :: int
  continueOnError :: bool

datatype DispatchOption = WithConcurrency int | ContinueOnError

fun applyDispatch :: "DispatchOption \<Rightarrow> dispatchConfig \<Rightarrow> dispatchConfig" where
  "applyDispatch (WithConcurrency limit) c = (if limit > 0 then c\<lparr>concurrency := limit\<rparr> else c)"
| "applyDispatch ContinueOnError c = c\<lparr>continueOnError := True\<rparr>"

definition newDispatchConfig :: "DispatchOption option list \<Rightarrow> dispatchConfig" where
  "newDispatchConfig options =
     fold (\<lambda>opt c. case opt of None \<Rightarrow> c | Some opt \<Rightarrow> applyDispatch opt c) options
       \<lparr>concurrency = 1, continueOnError = False\<rparr>"

definition chain :: "('t, 'v, 'w) Middleware list \<Rightarrow> ('t, 'v, 'w) Middleware" where
  "chain ms = (\<lambda>nxt. foldr (\<lambda>item h. item h) ms nxt)"

section \<open>Listeners\<close>

text \<open>A \<open>Handler[T]\<close> is a nil interface, an interface that holds a nil pointer, function or the like, or a handler of
  values of type \<open>T\<close>.\<close>

datatype ('v, 'w) Handler = NilInterface | NilValue | Handle "'w wctx \<Rightarrow> 'v \<Rightarrow> 'w \<Rightarrow> go_error option outcome \<times> 'w"

definition isNilHandler :: "('v, 'w) Handler \<Rightarrow> bool" where
  "isNilHandler h = (case h of NilInterface \<Rightarrow> True | NilValue \<Rightarrow> True | Handle f \<Rightarrow> False)"

record ('t, 'v, 'w) listenerDefinition =
  def_typeOf :: 't
  def_handler :: "('t, 'v, 'w) AnyHandler"

text \<open>The type assertion \<open>value.(T)\<close> panics on a value of another type.\<close>

definition typedListener :: "'t \<Rightarrow> ('w wctx \<Rightarrow> 'v \<Rightarrow> 'w \<Rightarrow> go_error option outcome \<times> 'w) \<Rightarrow> ('t, 'v, 'w) listenerDefinition" where
  "typedListener T f =
     \<lparr>def_typeOf = T, def_handler = (\<lambda>ctx (t, v) w. if t = T then f ctx v w else (Panic, w))\<rparr>"

definition HandlerFor :: "('t \<Rightarrow> bool) \<Rightarrow> 't \<Rightarrow> ('v, 'w) Handler \<Rightarrow> ('t, 'v, 'w) listenerDefinition outcome" where
  "HandlerFor is_interface T handler =
     (if is_interface T then Panic
      else if isNilHandler handler then Panic
      else case handler of Handle f \<Rightarrow> Return (typedListener T f) | _ \<Rightarrow> Panic)"

section \<open>The dispatcher\<close>

definition ErrInvalidContext :: go_error where
  "ErrInvalidContext = Sentinel ''event: invalid context''"

definition ErrNilEvent :: go_error where
  "ErrNilEvent = Sentinel ''event: nil event''"

text \<open>Entries are compared by their address.\<close>

record ('t, 'v, 'w) listenerEntry =
  address :: nat
  typeOf :: 't
  handler :: "('t, 'v, 'w) AnyHandler"

text \<open>\<open>fresh\<close> is the next address that an entry of the dispatcher gets.\<close>

record ('t, 'v, 'w) Dispatcher =
  listeners :: "'t \<Rightarrow> ('t, 'v, 'w) listenerEntry list option"
  middleware :: "('t, 'v, 'w) Middleware list"
  fresh :: nat

definition New :: "('t, 'v, 'w) Option option list \<Rightarrow> ('t, 'v, 'w) Dispatcher" where
  "New options = \<lparr>listeners = (\<lambda>_. None), middleware = newConfig options, fresh = 0\<rparr>"

record 't Subscription =
  registrations :: "('t \<times> nat) list"
  active :: bool

definition entries_of :: "('t, 'v, 'w) Dispatcher \<Rightarrow> 't \<Rightarrow> ('t, 'v, 'w) listenerEntry list" where
  "entries_of d t = (case listeners d t of None \<Rightarrow> [] | Some es \<Rightarrow> es)"

fun build_entries :: "('t, 'v, 'w) Middleware list \<Rightarrow> nat \<Rightarrow> ('t, 'v, 'w) listenerDefinition option list
    \<Rightarrow> ('t, 'v, 'w) listenerEntry list outcome" where
  "build_entries ms n [] = Return []"
| "build_entries ms n (None # ls) = Panic"
| "build_entries ms n (Some l # ls) =
     (case chain ms (Some (def_handler l)) of
        None \<Rightarrow> Panic
      | Some h \<Rightarrow>
          (case build_entries ms (Suc n) ls of
             Panic \<Rightarrow> Panic
           | Return es \<Rightarrow> Return (\<lparr>address = n, typeOf = def_typeOf l, handler = h\<rparr> # es)))"

definition add_entry :: "('t, 'v, 'w) listenerEntry \<Rightarrow> ('t, 'v, 'w) Dispatcher \<Rightarrow> ('t, 'v, 'w) Dispatcher" where
  "add_entry e d = d\<lparr>listeners := (listeners d)(typeOf e \<mapsto> entries_of d (typeOf e) @ [e])\<rparr>"

definition Subscribe :: "('t, 'v, 'w) Dispatcher \<Rightarrow> ('t, 'v, 'w) listenerDefinition option list
    \<Rightarrow> 't Subscription outcome \<times> ('t, 'v, 'w) Dispatcher" where
  "Subscribe d ls =
     (if ls = [] then (Return \<lparr>registrations = [], active = False\<rparr>, d)
      else case build_entries (middleware d) (fresh d) ls of
        Panic \<Rightarrow> (Panic, d)
      | Return es \<Rightarrow>
          (Return \<lparr>registrations = map (\<lambda>e. (typeOf e, address e)) es, active = True\<rparr>,
           (fold add_entry es d)\<lparr>fresh := fresh d + length es\<rparr>))"

text \<open>A nil function is an interface that holds a nil value.\<close>

definition Listen :: "('t \<Rightarrow> bool) \<Rightarrow> ('t, 'v, 'w) Dispatcher \<Rightarrow> 't
    \<Rightarrow> ('w wctx \<Rightarrow> 'v \<Rightarrow> 'w \<Rightarrow> go_error option outcome \<times> 'w) option \<Rightarrow> 't Subscription outcome \<times> ('t, 'v, 'w) Dispatcher" where
  "Listen is_interface d T f =
     (case HandlerFor is_interface T (case f of None \<Rightarrow> NilValue | Some g \<Rightarrow> Handle g) of
        Panic \<Rightarrow> (Panic, d) | Return l \<Rightarrow> Subscribe d [Some l])"

fun delete_entry :: "nat \<Rightarrow> ('t, 'v, 'w) listenerEntry list \<Rightarrow> ('t, 'v, 'w) listenerEntry list \<times> bool" where
  "delete_entry a [] = ([], False)"
| "delete_entry a (e # es) =
     (if address e \<noteq> a then (let (es1, b) = delete_entry a es in (e # es1, b)) else (es, True))"

fun unsubscribe_loop :: "('t \<times> nat) list \<Rightarrow> bool \<Rightarrow> ('t, 'v, 'w) Dispatcher \<Rightarrow> bool \<times> ('t, 'v, 'w) Dispatcher" where
  "unsubscribe_loop [] removed d = (removed, d)"
| "unsubscribe_loop ((t, a) # rs) removed d =
     (let (es, b) = delete_entry a (entries_of d t)
      in unsubscribe_loop rs (removed \<or> b)
           (d\<lparr>listeners := (listeners d)(t := (if es = [] then None else Some es))\<rparr>))"

definition Unsubscribe :: "'t Subscription option \<Rightarrow> ('t, 'v, 'w) Dispatcher
    \<Rightarrow> bool \<times> 't Subscription option \<times> ('t, 'v, 'w) Dispatcher" where
  "Unsubscribe s d =
     (case s of None \<Rightarrow> (False, None, d)
      | Some sub \<Rightarrow>
          if \<not> active sub then (False, Some sub, d)
          else let (removed, d1) = unsubscribe_loop (registrations sub) False d
               in (removed, Some (sub\<lparr>active := False\<rparr>), d1))"

definition compactErrors :: "go_error option list \<Rightarrow> go_error list" where
  "compactErrors errs = List.map_filter (\<lambda>e. e) errs"

definition appendContextCause :: "go_error option list \<Rightarrow> go_error option \<Rightarrow> go_error list" where
  "appendContextCause errs cause =
     (case cause of None \<Rightarrow> compactErrors errs
      | Some c \<Rightarrow>
          if list_ex (\<lambda>e. case e of None \<Rightarrow> False | Some e \<Rightarrow> errors_Is e c) errs then compactErrors errs
          else compactErrors errs @ [c])"

definition joinErrors :: "go_error list \<Rightarrow> go_error option" where
  "joinErrors errs = (case errs of [] \<Rightarrow> None | [e] \<Rightarrow> Some e | _ \<Rightarrow> errors_Join (map Some errs))"

fun dispatchSerial_loop :: "('w \<Rightarrow> go_error option) \<Rightarrow> 't \<times> 'v \<Rightarrow> ('t, 'v, 'w) listenerEntry list \<Rightarrow> bool
    \<Rightarrow> go_error list \<Rightarrow> 'w \<Rightarrow> go_error option outcome \<times> 'w" where
  "dispatchSerial_loop cause val [] cont errs w = (Return (joinErrors errs), w)"
| "dispatchSerial_loop cause val (e # es) cont errs w =
     (case cause w of
        Some c \<Rightarrow> (Return (joinErrors (appendContextCause (map Some errs) (Some c))), w)
      | None \<Rightarrow>
          (case handler e (Some cause) val w of
             (Panic, w1) \<Rightarrow> (Panic, w1)
           | (Return err, w1) \<Rightarrow>
               (let errs1 = (case err of None \<Rightarrow> errs | Some x \<Rightarrow> errs @ [x])
                in if err \<noteq> None \<and> \<not> cont
                   then (Return (joinErrors (appendContextCause (map Some errs1) (cause w1))), w1)
                   else case cause w1 of
                     Some c \<Rightarrow> (Return (joinErrors (appendContextCause (map Some errs1) (Some c))), w1)
                   | None \<Rightarrow> dispatchSerial_loop cause val es cont errs1 w1)))"

definition dispatchSerial :: "('w \<Rightarrow> go_error option) \<Rightarrow> 't \<times> 'v \<Rightarrow> ('t, 'v, 'w) listenerEntry list \<Rightarrow> bool
    \<Rightarrow> 'w \<Rightarrow> go_error option outcome \<times> 'w" where
  "dispatchSerial cause val es cont w = dispatchSerial_loop cause val es cont [] w"

section \<open>Concurrent dispatch\<close>

text \<open>Where a worker stands in its loop: before the check of the context, before it draws an index, with an index,
  calling the handler of an index, after that call returned an error, or gone.\<close>

datatype worker = Checking | Drawing | Drawn int | Calling nat | Failed nat go_error | Gone

text \<open>\<open>firstError\<close> is set at most once, by \<open>firstOnce\<close>; \<open>cancelled\<close> is the cause with which the derived context was
  cancelled. The calls and what they returned are recorded in \<open>calls\<close>.\<close>

record 'w dispatch_state =
  nextIndex :: int
  results :: "go_error option list"
  firstError :: "go_error option"
  cancelled :: "go_error option"
  workers :: "worker list"
  crashed :: bool
  calls :: "(nat \<times> go_error option) list"
  world :: 'w

definition dispatch_init :: "dispatchConfig \<Rightarrow> ('t, 'v, 'w) listenerEntry list \<Rightarrow> 'w \<Rightarrow> 'w dispatch_state" where
  "dispatch_init c es w =
     \<lparr>nextIndex = -1, results = replicate (length es) None, firstError = None, cancelled = None,
      workers = replicate (nat (min (concurrency c) (int (length es)))) Checking, crashed = False,
      calls = [], world = w\<rparr>"

definition run_cause :: "('w \<Rightarrow> go_error option) \<Rightarrow> 'w dispatch_state \<Rightarrow> 'w \<Rightarrow> go_error option" where
  "run_cause cause s w = (case cancelled s of Some e \<Rightarrow> Some e | None \<Rightarrow> cause w)"

definition set_worker :: "nat \<Rightarrow> worker \<Rightarrow> 'w dispatch_state \<Rightarrow> 'w dispatch_state" where
  "set_worker k p s = s\<lparr>workers := (workers s)[k := p]\<rparr>"

definition worker_step :: "('w \<Rightarrow> go_error option) \<Rightarrow> 't \<times> 'v \<Rightarrow> ('t, 'v, 'w) listenerEntry list \<Rightarrow> dispatchConfig
    \<Rightarrow> nat \<Rightarrow> 'w dispatch_state \<Rightarrow> 'w dispatch_state" where
  "worker_step cause val es c k s =
     (case workers s ! k of
        Checking \<Rightarrow> set_worker k (if run_cause cause s (world s) \<noteq> None then Gone else Drawing) s
      | Drawing \<Rightarrow> set_worker k (Drawn (nextIndex s + 1)) (s\<lparr>nextIndex := nextIndex s + 1\<rparr>)
      | Drawn i \<Rightarrow>
          set_worker k (if i \<ge> int (length es) \<or> run_cause cause s (world s) \<noteq> None then Gone else Calling (nat i)) s
      | Calling i \<Rightarrow>
          (case handler (es ! i) (Some (run_cause cause s)) val (world s) of
             (Panic, w1) \<Rightarrow> s\<lparr>crashed := True, world := w1\<rparr>
           | (Return err, w1) \<Rightarrow>
               set_worker k (case err of None \<Rightarrow> Checking | Some e \<Rightarrow> Failed i e)
                 (s\<lparr>calls := calls s @ [(i, err)], world := w1\<rparr>))
      | Failed i e \<Rightarrow>
          if continueOnError c then set_worker k Checking (s\<lparr>results := (results s)[i := Some e]\<rparr>)
          else set_worker k Gone
            (if firstError s = None
             then s\<lparr>firstError := Some e,
                    cancelled := Some (case cause (world s) of Some x \<Rightarrow> x | None \<Rightarrow> e)\<rparr>
             else s)
      | Gone \<Rightarrow> s)"

text \<open>A worker takes a step, or another part of the program changes the world.\<close>

inductive dispatch_step :: "('w \<Rightarrow> go_error option) \<Rightarrow> 't \<times> 'v \<Rightarrow> ('t, 'v, 'w) listenerEntry list \<Rightarrow> dispatchConfig
    \<Rightarrow> 'w dispatch_state \<Rightarrow> 'w dispatch_state \<Rightarrow> bool" for cause val es c where
  worker: "\<not> crashed s \<Longrightarrow> k < length (workers s) \<Longrightarrow> workers s ! k \<noteq> Gone \<Longrightarrow>
    dispatch_step cause val es c s (worker_step cause val es c k s)"
| other: "\<not> crashed s \<Longrightarrow> dispatch_step cause val es c s (s\<lparr>world := w\<rparr>)"

definition all_gone :: "'w dispatch_state \<Rightarrow> bool" where
  "all_gone s \<longleftrightarrow> \<not> crashed s \<and> list_all (\<lambda>p. p = Gone) (workers s)"

text \<open>What is returned once all workers are gone.\<close>

definition dispatch_result :: "('w \<Rightarrow> go_error option) \<Rightarrow> dispatchConfig \<Rightarrow> 'w dispatch_state \<Rightarrow> go_error option" where
  "dispatch_result cause c s =
     (if \<not> continueOnError c
      then joinErrors (appendContextCause [firstError s] (cause (world s)))
      else joinErrors (appendContextCause (results s) (cause (world s))))"

text \<open>\<open>Dispatch\<close> up to the choice of the two: it has returned, or the workers start in the given
  state.\<close>

datatype 'w dispatched = Finished "go_error option outcome" 'w | Started "'w dispatch_state"

definition Dispatch :: "('t, 'v, 'w) Dispatcher \<Rightarrow> 'w wctx \<Rightarrow> ('t \<times> 'v) option \<Rightarrow> DispatchOption option list \<Rightarrow> 'w
    \<Rightarrow> 'w dispatched" where
  "Dispatch d ctx val options w =
     (case ctx of None \<Rightarrow> Finished (Return (Some ErrInvalidContext)) w
      | Some cause \<Rightarrow>
          (case val of None \<Rightarrow> Finished (Return (Some ErrNilEvent)) w
           | Some v \<Rightarrow>
               (case cause w of Some e \<Rightarrow> Finished (Return (Some e)) w
                | None \<Rightarrow>
                    (let c = newDispatchConfig options; es = entries_of d (fst v) in
                     if es = [] then Finished (Return None) w
                     else if concurrency c = 1 \<or> length es = 1
                     then (let (res, w1) = dispatchSerial cause v es (continueOnError c) w in Finished res w1)
                     else Started (dispatch_init c es w)))))"

section \<open>Every handler is called once\<close>

text \<open>What holds of a concurrent dispatch that collects errors, while the context is not cancelled: an index that was
  drawn is with one worker or was called, once.\<close>

definition pend :: "nat \<Rightarrow> worker \<Rightarrow> bool" where
  "pend i p = (case p of Drawn j \<Rightarrow> j = int i | Calling j \<Rightarrow> j = i | _ \<Rightarrow> False)"

definition drawn_once :: "'w dispatch_state \<Rightarrow> nat \<Rightarrow> bool" where
  "drawn_once s i \<longleftrightarrow> count_list (map fst (calls s)) i + length (filter (pend i) (workers s)) =
     (if int i \<le> nextIndex s then 1 else 0)"

definition worker_ok :: "nat \<Rightarrow> 'w dispatch_state \<Rightarrow> worker \<Rightarrow> bool" where
  "worker_ok n s p = (case p of Drawn i \<Rightarrow> 0 \<le> i \<and> i \<le> nextIndex s | Calling i \<Rightarrow> i < n
     | Failed i e \<Rightarrow> (i, Some e) \<in> set (calls s) | Gone \<Rightarrow> int n \<le> nextIndex s | _ \<Rightarrow> True)"

definition recorded :: "'w dispatch_state \<Rightarrow> nat \<Rightarrow> go_error option \<Rightarrow> bool" where
  "recorded s i x \<longleftrightarrow> results s ! i = x \<or> (\<exists>k < length (workers s). \<exists>e. x = Some e \<and> workers s ! k = Failed i e)"

definition dispatch_inv :: "nat \<Rightarrow> nat \<Rightarrow> 'w dispatch_state \<Rightarrow> bool" where
  "dispatch_inv n m s \<longleftrightarrow>
     (\<forall>i < n. drawn_once s i) \<and> (\<forall>k < length (workers s). worker_ok n s (workers s ! k)) \<and>
     (\<forall>i x. (i, x) \<in> set (calls s) \<longrightarrow> i < n \<and> recorded s i x) \<and>
     (\<forall>i < n. i \<notin> fst ` set (calls s) \<longrightarrow> results s ! i = None) \<and>
     cancelled s = None \<and> length (results s) = n \<and> -1 \<le> nextIndex s \<and> length (workers s) = m"

lemma length_filter_update:
  "k < length xs \<Longrightarrow> length (filter P (xs[k := y])) + (if P (xs ! k) then 1 else 0) =
   length (filter P xs) + (if P y then 1 else 0)"
proof (induction xs arbitrary: k)
  case (Cons x xs)
  then show ?case by (cases k) auto
qed simp

lemma count_list_pos: "x \<in> set xs \<Longrightarrow> 0 < count_list xs x"
  by (metis count_list_0_iff gr0I)

lemma pend_pos: "k < length xs \<Longrightarrow> pend i (xs ! k) \<Longrightarrow> 0 < length (filter (pend i) xs)"
  by (metis filter_empty_conv length_greater_0_conv nth_mem)

lemma set_worker_sel [simp]:
  "workers (set_worker k p s) = (workers s)[k := p]" "calls (set_worker k p s) = calls s"
  "results (set_worker k p s) = results s" "nextIndex (set_worker k p s) = nextIndex s"
  "cancelled (set_worker k p s) = cancelled s" "crashed (set_worker k p s) = crashed s"
  by (simp_all add: set_worker_def)

lemma inv_calls_unique:
  assumes "dispatch_inv n m s" "(i, x) \<in> set (calls s)" "(i, y) \<in> set (calls s)" shows "x = y"
proof -
  from assms have "i < n" "drawn_once s i" by (auto simp: dispatch_inv_def)
  then have le: "count_list (map fst (calls s)) i \<le> 1" by (auto simp: drawn_once_def split: if_splits)
  have "count_list (map fst cs) i \<le> 1 \<Longrightarrow> (i, x) \<in> set cs \<Longrightarrow> (i, y) \<in> set cs \<Longrightarrow> x = y" for cs :: "(nat \<times> go_error option) list"
  proof (induction cs)
    case (Cons a cs)
    have "i \<notin> fst ` set cs" if "fst a = i"
      using Cons.prems(1) that count_list_pos [of i "map fst cs"] by auto
    with Cons show ?case by (cases a) (force split: if_splits)
  qed simp
  with le assms show ?thesis by blast
qed

lemma recorded_update:
  assumes "recorded s j x" "\<forall>e. workers s ! k \<noteq> Failed j e" "results t ! j = results s ! j" "workers t = (workers s)[k := p]"
  shows "recorded t j x"
proof (cases "results s ! j = x")
  case False
  with assms(1) obtain l e where l: "l < length (workers s)" "x = Some e" "workers s ! l = Failed j e"
    by (auto simp: recorded_def)
  with assms(2) have "l \<noteq> k" by auto
  with l assms(4) show ?thesis by (auto simp: recorded_def)
qed (use assms(3) in \<open>simp add: recorded_def\<close>)

text \<open>A step that keeps the calls and the results and moves one worker.\<close>

lemma inv_move:
  assumes inv: "dispatch_inv n m s" and k: "k < length (workers s)" "\<forall>i e. workers s ! k \<noteq> Failed i e"
    and nx: "nextIndex s \<le> nx" and p: "worker_ok n (s\<lparr>nextIndex := nx\<rparr>) p"
    and d: "\<And>i. i < n \<Longrightarrow> (if int i \<le> nx then 1 else 0) + (if pend i (workers s ! k) then 1 else 0) =
      (if int i \<le> nextIndex s then 1 else (0::nat)) + (if pend i p then 1 else 0)"
  shows "dispatch_inv n m (set_worker k p (s\<lparr>nextIndex := nx\<rparr>))"
proof -
  let ?s = "set_worker k p (s\<lparr>nextIndex := nx\<rparr>)"
  have "drawn_once ?s i" if "i < n" for i
  proof -
    have "drawn_once s i" using inv that by (simp add: dispatch_inv_def)
    then have "count_list (map fst (calls s)) i + length (filter (pend i) (workers s)) =
        (if int i \<le> nextIndex s then 1 else 0)" by (simp only: drawn_once_def)
    with d [OF that] length_filter_update [OF k(1), of "pend i" p]
    have "count_list (map fst (calls s)) i + length (filter (pend i) ((workers s)[k := p])) =
        (if int i \<le> nx then 1 else 0)" by linarith
    then show ?thesis by (simp add: drawn_once_def)
  qed
  moreover have "worker_ok n ?s (workers ?s ! j)" if "j < length (workers ?s)" for j
  proof (cases "j = k")
    case True
    with p k show ?thesis by (auto simp: worker_ok_def split: worker.splits)
  next
    case False
    with inv that have "worker_ok n s (workers s ! j)" by (auto simp: dispatch_inv_def)
    with False that nx show ?thesis by (auto simp: worker_ok_def split: worker.splits)
  qed
  moreover have "recorded ?s i x" if "recorded s i x" for i x
    by (rule recorded_update [OF that, of k]) (use k in simp_all)
  ultimately show ?thesis using inv nx by (simp add: dispatch_inv_def)
qed

lemma inv_call:
  assumes inv: "dispatch_inv n m s" and k: "k < length (workers s)" "workers s ! k = Calling i"
    and p: "p = (case err of None \<Rightarrow> Checking | Some e \<Rightarrow> Failed i e)"
  shows "dispatch_inv n m (set_worker k p (s\<lparr>calls := calls s @ [(i, err)], world := w1\<rparr>))"
proof -
  let ?s = "set_worker k p (s\<lparr>calls := calls s @ [(i, err)], world := w1\<rparr>)"
  have i: "i < n" using inv k by (force simp: dispatch_inv_def worker_ok_def)
  have np: "\<not> pend j p" for j using p by (simp add: pend_def split: option.splits)
  have once: "drawn_once ?s j" if "j < n" for j
  proof -
    have "drawn_once s j" using inv that by (simp add: dispatch_inv_def)
    moreover have "length (filter (pend j) ((workers s)[k := p])) + (if i = j then 1 else 0) =
        length (filter (pend j) (workers s))"
      using length_filter_update [OF k(1), of "pend j" p] np [of j] k(2) by (simp add: pend_def)
    ultimately show ?thesis by (cases "i = j") (simp_all add: drawn_once_def)
  qed
  have "drawn_once s i" using inv i by (simp add: dispatch_inv_def)
  moreover have "0 < length (filter (pend i) (workers s))" using pend_pos [OF k(1), of i] k(2) by (simp add: pend_def)
  ultimately have "count_list (map fst (calls s)) i = 0" unfolding drawn_once_def by presburger
  then have new: "i \<notin> fst ` set (calls s)" by (simp add: count_list_0_iff)
  have ok: "worker_ok n ?s (workers ?s ! j)" if "j < length (workers ?s)" for j
  proof (cases "j = k")
    case True
    with p k show ?thesis by (auto simp: worker_ok_def split: option.splits)
  next
    case False
    with inv that have "worker_ok n s (workers s ! j)" by (auto simp: dispatch_inv_def)
    with False that show ?thesis by (auto simp: worker_ok_def split: worker.splits)
  qed
  have "recorded ?s j x" if "recorded s j x" for j x
    by (rule recorded_update [OF that, of k]) (use k in simp_all)
  moreover have "recorded ?s i err"
    using p k new i inv by (cases err) (auto simp: recorded_def dispatch_inv_def)
  ultimately show ?thesis using inv once ok i by (auto simp: dispatch_inv_def)
qed

lemma inv_store:
  assumes inv: "dispatch_inv n m s" and k: "k < length (workers s)" "workers s ! k = Failed i e"
  shows "dispatch_inv n m (set_worker k Checking (s\<lparr>results := (results s)[i := Some e]\<rparr>))"
proof -
  let ?s = "set_worker k Checking (s\<lparr>results := (results s)[i := Some e]\<rparr>)"
  have c: "(i, Some e) \<in> set (calls s)" using inv k by (force simp: dispatch_inv_def worker_ok_def)
  with inv have i: "i < length (results s)" by (auto simp: dispatch_inv_def)
  have "drawn_once ?s j" if "j < n" for j
    using inv that length_filter_update [OF k(1), of "pend j" Checking] k(2)
    by (auto simp: dispatch_inv_def drawn_once_def pend_def)
  moreover have "worker_ok n ?s (workers ?s ! j)" if "j < length (workers ?s)" for j
    using inv that k by (cases "j = k") (auto simp: dispatch_inv_def worker_ok_def split: worker.splits)
  moreover have "recorded ?s j x" if "(j, x) \<in> set (calls s)" for j x
  proof (cases "j = i")
    case True
    with inv_calls_unique [OF inv c] that i show ?thesis by (auto simp: recorded_def)
  next
    case False
    from inv that have "recorded s j x" by (auto simp: dispatch_inv_def)
    then show ?thesis by (rule recorded_update [of _ _ _ k]) (use k False in simp_all)
  qed
  moreover have "i \<in> fst ` set (calls s)" using c by force
  moreover have "results ?s ! j = None" if "j < n" "j \<notin> fst ` set (calls s)" for j
  proof -
    from that \<open>i \<in> fst ` set (calls s)\<close> have "j \<noteq> i" by blast
    with that inv show ?thesis by (simp add: dispatch_inv_def)
  qed
  ultimately show ?thesis using inv by (simp add: dispatch_inv_def)
qed

lemma inv_worker_step:
  assumes inv: "dispatch_inv (length es) m s" and k: "k < length (workers s)"
    and c: "continueOnError c" "\<forall>w. cause w = None"
    and nc: "\<not> crashed (worker_step cause val es c k s)"
  shows "dispatch_inv (length es) m (worker_step cause val es c k s)"
proof -
  have rc: "run_cause cause s w = None" for w using inv c(2) by (simp add: run_cause_def dispatch_inv_def)
  have wk: "worker_ok (length es) s (workers s ! k)" and lo: "-1 \<le> nextIndex s"
    using inv k by (auto simp: dispatch_inv_def)
  note move = inv_move [OF inv k, where nx = "nextIndex s", simplified]
  show ?thesis
  proof (cases "workers s ! k")
    case Checking
    then show ?thesis using move [of Drawing] rc
      by (simp add: worker_step_def pend_def worker_ok_def)
  next
    case Drawing
    then show ?thesis using inv_move [OF inv k, of "nextIndex s + 1" "Drawn (nextIndex s + 1)"] lo
      by (auto simp: worker_step_def pend_def worker_ok_def)
  next
    case (Drawn i)
    with wk have i: "0 \<le> i" "i \<le> nextIndex s" by (simp_all add: worker_ok_def)
    show ?thesis
    proof (cases "i \<ge> int (length es)")
      case True
      with Drawn i show ?thesis using move [of Gone] by (auto simp: worker_step_def pend_def worker_ok_def)
    next
      case False
      have "nat i = j \<longleftrightarrow> i = int j" for j using i(1) by auto
      with False Drawn i rc show ?thesis using move [of "Calling (nat i)"]
        by (simp add: worker_step_def pend_def worker_ok_def)
    qed
  next
    case (Calling i)
    obtain res w1 where h: "handler (es ! i) (Some (run_cause cause s)) val (world s) = (res, w1)"
      by (cases "handler (es ! i) (Some (run_cause cause s)) val (world s)")
    then show ?thesis using inv_call [OF inv k Calling refl] nc Calling
      by (cases res) (simp_all add: worker_step_def)
  next
    case (Failed i e)
    then show ?thesis using inv_store [OF inv k Failed] c(1) by (simp add: worker_step_def)
  next
    case Gone
    with inv show ?thesis by (simp add: worker_step_def)
  qed
qed

lemma inv_dispatch_init:
  "dispatch_inv (length es) (nat (min (concurrency c) (int (length es)))) (dispatch_init c es w)"
  by (auto simp: dispatch_inv_def dispatch_init_def drawn_once_def worker_ok_def pend_def)

lemma dispatch_inv_world: "dispatch_inv n m (s\<lparr>world := w\<rparr>) \<longleftrightarrow> dispatch_inv n m s"
  by (simp add: dispatch_inv_def drawn_once_def [abs_def] worker_ok_def [abs_def] recorded_def [abs_def])

lemma inv_reachable:
  assumes "(dispatch_step cause val es c)\<^sup>*\<^sup>* (dispatch_init c es w) s"
    and "continueOnError c" "\<forall>w. cause w = None"
  shows "crashed s \<or> dispatch_inv (length es) (nat (min (concurrency c) (int (length es)))) s"
  using assms(1)
proof (induction rule: rtranclp_induct)
  case base
  show ?case by (rule disjI2) (rule inv_dispatch_init)
next
  case (step s s')
  from step.hyps(2) step.IH show ?case
  proof cases
    case (worker k)
    with step.IH inv_worker_step [OF _ worker(3) assms(2,3)] show ?thesis by blast
  next
    case (other w)
    with step.IH show ?thesis by (simp add: dispatch_inv_world)
  qed
qed

lemma concurrency_pos: "1 \<le> concurrency (newDispatchConfig options)"
proof -
  have "1 \<le> concurrency c \<Longrightarrow>
    1 \<le> concurrency (fold (\<lambda>opt c. case opt of None \<Rightarrow> c | Some opt \<Rightarrow> applyDispatch opt c) options c)" for c
  proof (induction options arbitrary: c)
    case (Cons opt options)
    have "1 \<le> concurrency (case opt of None \<Rightarrow> c | Some opt \<Rightarrow> applyDispatch opt c)"
      using Cons.prems by (cases opt; cases "the opt") auto
    with Cons.IH show ?case by simp
  qed simp
  then show ?thesis by (simp add: newDispatchConfig_def)
qed

lemma gone_called_once:
  assumes "dispatch_inv n m s" "all_gone s" "0 < m"
  shows "mset (map fst (calls s)) = mset [0..<n]" and "\<forall>(i, x) \<in> set (calls s). results s ! i = x"
proof -
  have g: "\<forall>k < length (workers s). workers s ! k = Gone" using assms(2) by (auto simp: all_gone_def list_all_length)
  with assms(1,3) have nx: "int n \<le> nextIndex s"
    by (auto simp: dispatch_inv_def worker_ok_def)
  have "filter (pend i) (workers s) = []" for i using g by (auto simp: filter_empty_conv in_set_conv_nth pend_def)
  with assms(1) nx have one: "count_list (map fst (calls s)) i = 1" if "i < n" for i
    using that by (simp add: dispatch_inv_def drawn_once_def)
  have lt: "i < n" if "i \<in> set (map fst (calls s))" for i
    using assms(1) that by (auto simp: dispatch_inv_def)
  have "count (mset (map fst (calls s))) i = count (mset [0..<n]) i" for i
  proof (cases "i < n")
    case True
    with one [of i] show ?thesis unfolding count_mset [of "map fst (calls s)"] by simp
  next
    case False
    with lt [of i] have "i \<notin> set (map fst (calls s))" by blast
    with False show ?thesis unfolding count_mset [of "map fst (calls s)"] by simp
  qed
  then show "mset (map fst (calls s)) = mset [0..<n]" by (rule multiset_eqI)
  show "\<forall>(i, x) \<in> set (calls s). results s ! i = x"
  proof clarify
    fix i x assume "(i, x) \<in> set (calls s)"
    with assms(1) have "recorded s i x" by (auto simp: dispatch_inv_def)
    with g show "results s ! i = x" by (auto simp: recorded_def)
  qed
qed

section \<open>The workers finish\<close>

text \<open>A step of a worker brings it closer to the end, or draws one of the finitely many indices.\<close>

definition worker_weight :: "nat \<Rightarrow> worker \<Rightarrow> nat" where
  "worker_weight n p = (case p of Checking \<Rightarrow> 3 | Drawing \<Rightarrow> 2 | Drawn i \<Rightarrow> if i < int n then 6 else 1
     | Calling i \<Rightarrow> 5 | Failed i e \<Rightarrow> 4 | Gone \<Rightarrow> 0)"

definition dispatch_weight :: "nat \<Rightarrow> 'w dispatch_state \<Rightarrow> nat" where
  "dispatch_weight n s = 5 * nat (int n - 1 - nextIndex s) + sum_list (map (worker_weight n) (workers s))"

lemma sum_list_update:
  "k < length xs \<Longrightarrow> sum_list (map f (xs[k := y])) + f (xs ! k) = sum_list (map f xs) + (f y :: nat)"
proof (induction xs arbitrary: k)
  case (Cons x xs)
  then show ?case by (cases k) (auto simp: add.assoc add.left_commute)
qed simp

definition never_panics :: "('t, 'v, 'w) listenerEntry list \<Rightarrow> bool" where
  "never_panics es \<longleftrightarrow> (\<forall>e \<in> set es. \<forall>ctx v w. fst (handler e ctx v w) \<noteq> Panic)"

lemma weight_set_worker:
  assumes "k < length (workers s)" "workers t = workers s"
    "5 * nat (int n - 1 - nextIndex t) + worker_weight n p <
     5 * nat (int n - 1 - nextIndex s) + worker_weight n (workers s ! k)"
  shows "dispatch_weight n (set_worker k p t) < dispatch_weight n s"
  using sum_list_update [OF assms(1), of "worker_weight n" p] assms(2,3) by (simp add: dispatch_weight_def)

lemma worker_step_weight:
  assumes "k < length (workers s)" "workers s ! k \<noteq> Gone" "\<forall>i. workers s ! k = Calling i \<longrightarrow> i < length es"
    "never_panics es" "\<not> crashed s"
  shows "dispatch_weight (length es) (worker_step cause val es c k s) < dispatch_weight (length es) s \<and>
    \<not> crashed (worker_step cause val es c k s)"
proof (cases "workers s ! k")
  case (Calling i)
  obtain res w1 where h: "handler (es ! i) (Some (run_cause cause s)) val (world s) = (res, w1)"
    by (cases "handler (es ! i) (Some (run_cause cause s)) val (world s)")
  have "es ! i \<in> set es" using assms(3) Calling by simp
  with assms(4) h have "res \<noteq> Panic" unfolding never_panics_def by (metis fst_conv)
  then obtain err where "res = Return err" by (cases res) auto
  with h Calling assms show ?thesis
    by (cases err) (auto simp: worker_step_def worker_weight_def intro!: weight_set_worker)
qed (use assms in \<open>auto simp: worker_step_def worker_weight_def intro!: weight_set_worker\<close>)

definition calls_in_range :: "nat \<Rightarrow> 'w dispatch_state \<Rightarrow> bool" where
  "calls_in_range n s \<longleftrightarrow> list_all (\<lambda>p. case p of Calling i \<Rightarrow> i < n | Drawn i \<Rightarrow> 0 \<le> i | _ \<Rightarrow> True) (workers s) \<and>
     -1 \<le> nextIndex s"

lemma calls_in_range_update:
  "calls_in_range n s \<Longrightarrow> workers t = workers s \<Longrightarrow> -1 \<le> nextIndex t \<Longrightarrow>
   (case p of Calling i \<Rightarrow> i < n | Drawn i \<Rightarrow> 0 \<le> i | _ \<Rightarrow> True) \<Longrightarrow> calls_in_range n (set_worker k p t)"
  unfolding calls_in_range_def list_all_iff by (auto dest!: set_update_subset_insert [THEN subsetD])

lemma calls_in_range_step:
  assumes "calls_in_range (length es) s" "k < length (workers s)"
  shows "calls_in_range (length es) (worker_step cause val es c k s)"
proof -
  have w: "case workers s ! k of Calling i \<Rightarrow> i < length es | Drawn i \<Rightarrow> 0 \<le> i | _ \<Rightarrow> True"
    and lo: "-1 \<le> nextIndex s" using assms by (simp_all add: calls_in_range_def list_all_length)
  note up = calls_in_range_update [OF assms(1)]
  show ?thesis
  proof (cases "workers s ! k")
    case (Calling i)
    obtain res w1 where h: "handler (es ! i) (Some (run_cause cause s)) val (world s) = (res, w1)"
      by (cases "handler (es ! i) (Some (run_cause cause s)) val (world s)")
    show ?thesis
    proof (cases res)
      case (Return err)
      with h Calling lo show ?thesis by (cases err) (auto simp: worker_step_def intro!: up)
    next
      case Panic
      with h Calling assms(1) show ?thesis by (simp add: worker_step_def calls_in_range_def)
    qed
  qed (use w lo assms(1) in \<open>auto simp: worker_step_def intro!: up\<close>)
qed

text \<open>When no handler panics, the workers can always go on until all of them are gone, whatever the order.\<close>

lemma workers_finish:
  assumes "never_panics es"
  shows "calls_in_range (length es) s \<Longrightarrow> \<not> crashed s \<Longrightarrow> \<exists>s'. (dispatch_step cause val es c)\<^sup>*\<^sup>* s s' \<and> all_gone s'"
proof (induction "dispatch_weight (length es) s" arbitrary: s rule: less_induct)
  case less
  show ?case
  proof (cases "all_gone s")
    case False
    with less.prems obtain k where k: "k < length (workers s)" "workers s ! k \<noteq> Gone"
      by (auto simp: all_gone_def list_all_length)
    let ?t = "worker_step cause val es c k s"
    have "\<forall>i. workers s ! k = Calling i \<longrightarrow> i < length es"
      using less.prems(1) k(1) by (auto simp: calls_in_range_def list_all_length split: worker.splits)
    note wt = worker_step_weight [OF k this assms less.prems(2), of cause val c]
    obtain s' where "(dispatch_step cause val es c)\<^sup>*\<^sup>* ?t s'" "all_gone s'"
      using less.hyps [of ?t] wt calls_in_range_step [OF less.prems(1) k(1), of cause val c] by blast
    with dispatch_step.worker [OF less.prems(2) k] show ?thesis by (meson converse_rtranclp_into_rtranclp)
  qed blast
qed

lemma calls_in_range_init: "calls_in_range (length es) (dispatch_init c es w)"
  by (simp add: calls_in_range_def dispatch_init_def list_all_iff)

text \<open>C5. A concurrent dispatch that continues on errors, under a context that is not cancelled, calls every
  registered handler exactly once, in whatever order its workers take their steps; at most as many workers as the
  limit allows exist; and it returns the errors of the calls joined in the order of registration.\<close>

theorem concurrent_dispatch_once:
  assumes "continueOnError c" "c = newDispatchConfig options" "\<forall>w. cause w = None" "es \<noteq> []"
    "(dispatch_step cause val es c)\<^sup>*\<^sup>* (dispatch_init c es w) s" "all_gone s"
  shows "mset (map fst (calls s)) = mset [0..<length es] \<and> int (length (workers s)) \<le> concurrency c \<and>
    dispatch_result cause c s = joinErrors (List.map_filter (\<lambda>i. the (map_of (calls s) i)) [0..<length es])"
proof -
  let ?n = "length es" and ?m = "nat (min (concurrency c) (int (length es)))"
  have "\<not> crashed s" using assms(6) by (simp add: all_gone_def)
  with inv_reachable [OF assms(5,1,3)] have inv: "dispatch_inv ?n ?m s" by blast
  have m: "0 < ?m" using concurrency_pos [of options] assms(2,4) by simp
  note once = gone_called_once [OF inv assms(6) m]
  have d: "distinct (map fst (calls s))" using once(1) by (metis distinct_upt mset_eq_imp_distinct_iff)
  have "results s = map (\<lambda>i. the (map_of (calls s) i)) [0..<?n]"
  proof (rule nth_equalityI)
    show "length (results s) = length (map (\<lambda>i. the (map_of (calls s) i)) [0..<?n])"
      using inv by (simp add: dispatch_inv_def)
    fix i assume "i < length (results s)"
    then have i: "i < ?n" using inv by (simp add: dispatch_inv_def)
    then have "i \<in> set (map fst (calls s))" using once(1) by (metis atLeast0LessThan lessThan_iff set_mset_mset set_upt)
    then obtain x where x: "(i, x) \<in> set (calls s)" by auto
    with once(2) d i show "results s ! i = map (\<lambda>i. the (map_of (calls s) i)) [0..<?n] ! i" by auto
  qed
  then have "dispatch_result cause c s = joinErrors (List.map_filter (\<lambda>i. the (map_of (calls s) i)) [0..<?n])"
    using assms(1,3) by (simp add: dispatch_result_def appendContextCause_def compactErrors_def map_filter_def
        filter_map comp_def)
  moreover have "int (length (workers s)) \<le> concurrency c" using inv m by (simp add: dispatch_inv_def)
  ultimately show ?thesis using once(1) by blast
qed

text \<open>Three handlers, two of which fail, and two workers.\<close>

definition example_entries :: "(nat, unit, nat) listenerEntry list" where
  "example_entries = map (\<lambda>i. \<lparr>address = i, typeOf = 0,
     handler = (\<lambda>ctx v w. (Return (if i = 1 then None else Some (Sentinel ''no'')), w + 1))\<rparr>) [0..<3]"

definition example_config :: dispatchConfig where
  "example_config = newDispatchConfig [Some (WithConcurrency 2), Some ContinueOnError]"

theorem concurrent_dispatch_once_witness:
  "\<exists>s. (dispatch_step (\<lambda>w. None) (0, ()) example_entries example_config)\<^sup>*\<^sup>* (dispatch_init example_config example_entries 0) s \<and>
    all_gone s \<and> mset (map fst (calls s)) = mset [0..<length example_entries] \<and>
    int (length (workers s)) \<le> concurrency example_config \<and>
    dispatch_result (\<lambda>w. None) example_config s =
      joinErrors (List.map_filter (\<lambda>i. the (map_of (calls s) i)) [0..<length example_entries])"
proof -
  have np: "never_panics example_entries" by (auto simp: never_panics_def example_entries_def)
  have "\<not> crashed (dispatch_init example_config example_entries 0)" by (simp add: dispatch_init_def)
  then obtain s where s: "(dispatch_step (\<lambda>w. None) (0, ()) example_entries example_config)\<^sup>*\<^sup>*
      (dispatch_init example_config example_entries 0) s" "all_gone s"
    using workers_finish [OF np calls_in_range_init] by blast
  have "continueOnError example_config" "example_entries \<noteq> []"
    by (simp_all add: example_config_def newDispatchConfig_def example_entries_def)
  with concurrent_dispatch_once [OF _ example_config_def _ _ s] s show ?thesis by blast
qed

section \<open>Subscriptions\<close>

text \<open>Serial dispatch never fails a type assertion: a listener gets values of its type only.\<close>

lemma typedListener_same: "def_handler (typedListener T f) ctx (T, v) w = f ctx v w"
  by (simp add: typedListener_def)

lemma Unsubscribe_idem:
  "Unsubscribe s d = (b, s1, d1) \<Longrightarrow> Unsubscribe s1 d2 = (False, s1, d2)"
  by (auto simp: Unsubscribe_def Let_def split: option.splits if_splits prod.splits)

end
