(* ===== verification/Crypto.thy ===== *)
theory Crypto
  imports Codec
begin

unbundle bit_operations_syntax

text \<open>
  The parts of the Go standard library that package \<open>webhook\<close> builds on, as their specifications give them:
  \<open>crypto/sha256\<close> (FIPS 180-4), \<open>crypto/hmac\<close> (RFC 2104) and \<open>base64.StdEncoding\<close> (RFC 4648, with the line
  breaks that Go's decoder ignores).
\<close>

section \<open>SHA-256\<close>

type_synonym word32 = "32 word"

text \<open>
  The constants of the rounds are the first 32 bits of the fractional parts of the cube roots of the first 64 primes.
  \<open>cbrt_bits k n r\<close> sets bits below \<open>k\<close> of \<open>r\<close>, from the highest on, as long as the cube is at most \<open>n\<close>.
\<close>

fun cbrt_bits :: "nat \<Rightarrow> nat \<Rightarrow> nat \<Rightarrow> nat" where
  "cbrt_bits 0 n r = r"
| "cbrt_bits (Suc k) n r = cbrt_bits k n (if (r + 2 ^ k) ^ 3 \<le> n then r + 2 ^ k else r)"

definition is_prime :: "nat \<Rightarrow> bool" where
  "is_prime p \<longleftrightarrow> list_all (\<lambda>d. p mod d \<noteq> 0) [2..<p]"

definition sha256_K :: "word32 list" where
  "sha256_K = map (\<lambda>p. word_of_nat (cbrt_bits 35 (p * 2 ^ 96) 0)) (filter is_prime [2..<312])"

record sha_state =
  sA :: word32
  sB :: word32
  sC :: word32
  sD :: word32
  sE :: word32
  sF :: word32
  sG :: word32
  sH :: word32

definition sha256_init :: sha_state where
  "sha256_init = \<lparr>sA = 0x6a09e667, sB = 0xbb67ae85, sC = 0x3c6ef372, sD = 0xa54ff53a,
     sE = 0x510e527f, sF = 0x9b05688c, sG = 0x1f83d9ab, sH = 0x5be0cd19\<rparr>"

definition be32 :: "bytes \<Rightarrow> word32" where
  "be32 bs = foldl (\<lambda>acc b. push_bit 8 acc OR ucast b) 0 bs"

definition be32_bytes :: "word32 \<Rightarrow> bytes" where
  "be32_bytes w = map (\<lambda>i. ucast (drop_bit i w)) [24, 16, 8, 0]"

text \<open>The message schedule, extended word by word.\<close>

fun extend :: "nat \<Rightarrow> word32 list \<Rightarrow> word32 list" where
  "extend 0 ws = ws"
| "extend (Suc n) ws =
     (let t = length ws; w15 = ws ! (t - 15); w2 = ws ! (t - 2);
          s0 = word_rotr 7 w15 XOR word_rotr 18 w15 XOR drop_bit 3 w15;
          s1 = word_rotr 17 w2 XOR word_rotr 19 w2 XOR drop_bit 10 w2
      in extend n (ws @ [ws ! (t - 16) + s0 + ws ! (t - 7) + s1]))"

definition sha_round :: "word32 \<times> word32 \<Rightarrow> sha_state \<Rightarrow> sha_state" where
  "sha_round kw s =
     (let S1 = word_rotr 6 (sE s) XOR word_rotr 11 (sE s) XOR word_rotr 25 (sE s);
          ch = (sE s AND sF s) XOR (NOT (sE s) AND sG s);
          t1 = sH s + S1 + ch + fst kw + snd kw;
          S0 = word_rotr 2 (sA s) XOR word_rotr 13 (sA s) XOR word_rotr 22 (sA s);
          maj = (sA s AND sB s) XOR (sA s AND sC s) XOR (sB s AND sC s)
      in \<lparr>sA = t1 + (S0 + maj), sB = sA s, sC = sB s, sD = sC s, sE = sD s + t1, sF = sE s, sG = sF s, sH = sG s\<rparr>)"

fun chunks :: "nat \<Rightarrow> nat \<Rightarrow> 'a list \<Rightarrow> 'a list list" where
  "chunks 0 n xs = []"
| "chunks (Suc k) n xs = take n xs # chunks k n (drop n xs)"

definition sha_block :: "bytes \<Rightarrow> sha_state \<Rightarrow> sha_state" where
  "sha_block block s =
     (let ws = extend 48 (map be32 (chunks 16 4 block)); r = fold sha_round (zip sha256_K ws) s
      in \<lparr>sA = sA s + sA r, sB = sB s + sB r, sC = sC s + sC r, sD = sD s + sD r,
          sE = sE s + sE r, sF = sF s + sF r, sG = sG s + sG r, sH = sH s + sH r\<rparr>)"

definition sha_pad :: "bytes \<Rightarrow> bytes" where
  "sha_pad msg =
     (let bits = (of_nat (8 * length msg) :: 64 word)
      in msg @ [0x80] @ replicate ((119 - length msg mod 64) mod 64) 0 @
         map (\<lambda>i. ucast (drop_bit i bits)) [56, 48, 40, 32, 24, 16, 8, 0])"

definition sha256_Sum256 :: "bytes \<Rightarrow> bytes" where
  "sha256_Sum256 msg =
     (let p = sha_pad msg; s = fold sha_block (chunks (length p div 64) 64 p) sha256_init
      in concat (map be32_bytes [sA s, sB s, sC s, sD s, sE s, sF s, sG s, sH s]))"

lemma length_sha256 [simp]: "length (sha256_Sum256 msg) = 32"
  by (simp add: sha256_Sum256_def be32_bytes_def Let_def)

section \<open>HMAC\<close>

definition hmac_sha256 :: "bytes \<Rightarrow> bytes \<Rightarrow> bytes" where
  "hmac_sha256 key msg =
     (let k = (if length key > 64 then sha256_Sum256 key else key); k0 = k @ replicate (64 - length k) 0
      in sha256_Sum256 (map (\<lambda>b. b XOR 0x5c) k0 @ sha256_Sum256 (map (\<lambda>b. b XOR 0x36) k0 @ msg)))"

lemma length_hmac [simp]: "length (hmac_sha256 key msg) = 32"
  by (simp add: hmac_sha256_def Let_def)

section \<open>Base64\<close>

definition base64_alphabet :: string where
  "base64_alphabet = ''ABCDEFGHIJKLMNOPQRSTUVWXYZabcdefghijklmnopqrstuvwxyz0123456789+/''"

definition b64 :: "nat \<Rightarrow> char" where
  "b64 i = base64_alphabet ! i"

fun base64_EncodeToString :: "bytes \<Rightarrow> string" where
  "base64_EncodeToString [] = []"
| "base64_EncodeToString [x] = [b64 (unat x div 4), b64 (unat x mod 4 * 16), CHR ''='', CHR ''='']"
| "base64_EncodeToString [x, y] =
     [b64 (unat x div 4), b64 (unat x mod 4 * 16 + unat y div 16), b64 (unat y mod 16 * 4), CHR ''='']"
| "base64_EncodeToString (x # y # z # bs) =
     b64 (unat x div 4) # b64 (unat x mod 4 * 16 + unat y div 16) #
     b64 (unat y mod 16 * 4 + unat z div 64) # b64 (unat z mod 64) # base64_EncodeToString bs"

fun index_in :: "string \<Rightarrow> char \<Rightarrow> nat \<Rightarrow> nat option" where
  "index_in [] c i = None"
| "index_in (x # xs) c i = (if x = c then Some i else index_in xs c (Suc i))"

definition decodeMap :: "char \<Rightarrow> nat option" where
  "decodeMap c = index_in base64_alphabet c 0"

text \<open>The decoder wants full groups of four; only the last may be padded. The bits that padding cuts off are not
  checked.\<close>

fun base64_decode :: "string \<Rightarrow> bytes option" where
  "base64_decode [] = Some []"
| "base64_decode (a # b # c # d # s) =
     (case (decodeMap a, decodeMap b) of
        (Some i, Some j) \<Rightarrow>
          if c = CHR ''='' then
            (if d = CHR ''='' \<and> s = [] then Some [word_of_nat (i * 4 + j div 16)] else None)
          else (case decodeMap c of
             None \<Rightarrow> None
           | Some k \<Rightarrow>
               if d = CHR ''='' then
                 (if s = [] then Some [word_of_nat (i * 4 + j div 16), word_of_nat (j mod 16 * 16 + k div 4)] else None)
               else (case (decodeMap d, base64_decode s) of
                  (Some l, Some bs) \<Rightarrow>
                    Some (word_of_nat (i * 4 + j div 16) # word_of_nat (j mod 16 * 16 + k div 4) #
                          word_of_nat (k mod 4 * 64 + l) # bs)
                | _ \<Rightarrow> None))
      | _ \<Rightarrow> None)"
| "base64_decode _ = None"

definition base64_DecodeString :: "string \<Rightarrow> bytes option" where
  "base64_DecodeString s = base64_decode (filter (\<lambda>c. c \<noteq> CHR 0x0A \<and> c \<noteq> CHR 0x0D) s)"

lemma index_in_nth: "distinct xs \<Longrightarrow> i < length xs \<Longrightarrow> index_in xs (xs ! i) n = Some (n + i)"
proof (induction xs arbitrary: i n)
  case (Cons x xs)
  then show ?case by (cases i) auto
qed simp

lemma length_alphabet: "length base64_alphabet = 64" and distinct_alphabet: "distinct base64_alphabet"
  and alphabet_chars: "list_all (\<lambda>c. c \<noteq> CHR ''='' \<and> c \<noteq> CHR 0x0A \<and> c \<noteq> CHR 0x0D) base64_alphabet"
  unfolding base64_alphabet_def by simp_all

lemma decodeMap_b64 [simp]: "i < 64 \<Longrightarrow> decodeMap (b64 i) = Some i"
  using index_in_nth [OF distinct_alphabet, of i 0] by (simp add: decodeMap_def b64_def length_alphabet)

lemma b64_in_alphabet: "i < 64 \<Longrightarrow> b64 i \<in> set base64_alphabet"
  by (simp add: b64_def length_alphabet)

lemma b64_plain [simp]: "i < 64 \<Longrightarrow> b64 i \<noteq> CHR ''=''"
  using alphabet_chars b64_in_alphabet [of i] by (auto simp: list_all_iff)

lemma byte_bounds:
  fixes x y :: "8 word"
  shows "unat x < 256" "unat x div 4 < 64" "unat x mod 4 * 16 + unat y div 16 < 64" "unat x mod 4 * 16 < 64"
    "unat x mod 16 * 4 + unat y div 64 < 64" "unat x mod 16 * 4 < 64" "unat x mod 64 < 64"
proof -
  have "unat b < 256" for b :: "8 word" using unsigned_less [where 'a=nat, of b] by simp
  note b = this
  show "unat x < 256" by (rule b)
  show "unat x div 4 < 64" "unat x mod 4 * 16 + unat y div 16 < 64" "unat x mod 4 * 16 < 64"
    "unat x mod 16 * 4 + unat y div 64 < 64" "unat x mod 16 * 4 < 64" "unat x mod 64 < 64"
    using b [of x] b [of y] by linarith+
qed

lemma regroup1: "n < 256 \<Longrightarrow> m div 4 * 4 + (m mod 4 * 16 + n div 16) div 16 = (m :: nat)"
proof -
  assume "n < 256"
  then have "(m mod 4 * 16 + n div 16) div 16 = m mod 4" by (simp add: div_mult2_eq [symmetric])
  then show ?thesis by simp
qed

lemma regroup2: "n < 256 \<Longrightarrow> k < 256 \<Longrightarrow>
  (m mod 4 * 16 + n div 16) mod 16 * 16 + (n mod 16 * 4 + k div 64) div 4 = (n :: nat)"
proof -
  assume "n < 256" "k < 256"
  then have "(m mod 4 * 16 + n div 16) mod 16 = n div 16" "(n mod 16 * 4 + k div 64) div 4 = n mod 16"
    by (simp_all add: div_mult2_eq [symmetric])
  then show ?thesis by simp
qed

lemma regroup3: "k < 256 \<Longrightarrow> (n mod 16 * 4 + k div 64) mod 4 * 64 + k mod 64 = (k :: nat)"
proof -
  assume "k < 256"
  then have "(n mod 16 * 4 + k div 64) mod 4 = k div 64" by simp
  then show ?thesis by simp
qed

lemma base64_decode_encode: "base64_decode (base64_EncodeToString bs) = Some bs"
proof (induction bs rule: base64_EncodeToString.induct)
  case (2 x)
  then show ?case using regroup1 [of 0 "unat x"] by (simp add: byte_bounds)
next
  case (3 x y)
  then show ?case using regroup1 [of "unat y" "unat x"] regroup2 [of "unat y" 0 "unat x"] by (simp add: byte_bounds)
next
  case (4 x y z bs)
  then show ?case
    using regroup1 [of "unat y" "unat x"] regroup2 [of "unat y" "unat z" "unat x"] regroup3 [of "unat z" "unat y"]
    by (simp add: byte_bounds)
qed simp

lemma base64_encode_chars: "set (base64_EncodeToString bs) \<subseteq> insert (CHR ''='') (set base64_alphabet)"
  by (induction bs rule: base64_EncodeToString.induct) (auto simp: byte_bounds intro: b64_in_alphabet)

text \<open>What is encoded is decoded.\<close>

lemma base64_roundtrip [simp]: "base64_DecodeString (base64_EncodeToString bs) = Some bs"
proof -
  have "c \<noteq> CHR 0x0A \<and> c \<noteq> CHR 0x0D" if "c \<in> set (base64_EncodeToString bs)" for c
    using that base64_encode_chars [of bs] alphabet_chars by (auto simp: list_all_iff)
  then have "filter (\<lambda>c. c \<noteq> CHR 0x0A \<and> c \<noteq> CHR 0x0D) (base64_EncodeToString bs) = base64_EncodeToString bs"
    by (simp add: filter_id_conv)
  then show ?thesis by (simp add: base64_DecodeString_def base64_decode_encode)
qed

end
