(* ===== verification/Strconv.thy ===== *)
theory Strconv
  imports Prelude
begin

text \<open>
  The functions of the standard library's package \<open>strconv\<close> that format and parse decimal integers, with their round
  trip.
\<close>

text \<open>\<open>strconv.FormatInt\<close> and \<open>strconv.ParseInt\<close> in base 10.\<close>

definition digit :: "nat \<Rightarrow> char" where
  "digit n = char_of (48 + n)"

fun format_nat :: "nat \<Rightarrow> string" where
  "format_nat n = (if n < 10 then [digit n] else format_nat (n div 10) @ [digit (n mod 10)])"

declare format_nat.simps [simp del]

definition FormatInt :: "int \<Rightarrow> string" where
  "FormatInt i = (if i < 0 then CHR ''-'' # format_nat (nat (- i)) else format_nat (nat i))"

fun parse_digits :: "string \<Rightarrow> nat \<Rightarrow> nat option" where
  "parse_digits [] n = Some n"
| "parse_digits (c # s) n =
     (let v = (of_char c :: nat) in if 48 \<le> v \<and> v \<le> 57 then parse_digits s (n * 10 + (v - 48)) else None)"

definition ParseInt :: "string \<Rightarrow> int option" where
  "ParseInt s =
     (let neg = (s \<noteq> [] \<and> hd s = CHR ''-''); ds = (if s \<noteq> [] \<and> (hd s = CHR ''-'' \<or> hd s = CHR ''+'') then tl s else s)
      in if ds = [] then None
         else case parse_digits ds 0 of
           None \<Rightarrow> None
         | Some n \<Rightarrow> let i = (if neg then - int n else int n) in if in_i64 i then Some i else None)"

lemma of_char_digit [simp]: "n < 10 \<Longrightarrow> (of_char (digit n) :: nat) = 48 + n"
  by (simp add: digit_def)

lemma parse_digits_append:
  "parse_digits (s @ [digit d]) n = (case parse_digits s n of None \<Rightarrow> None | Some m \<Rightarrow> Some (m * 10 + d))" if "d < 10"
  using that by (induction s arbitrary: n) (simp_all add: Let_def)

lemma parse_format_nat: "parse_digits (format_nat n) 0 = Some n"
proof (induction n rule: format_nat.induct)
  case (1 n)
  show ?case
  proof (cases "n < 10")
    case True
    then show ?thesis by (subst format_nat.simps) simp
  next
    case False
    with 1 show ?thesis by (subst format_nat.simps) (simp add: parse_digits_append)
  qed
qed

lemma format_nat_digits: "format_nat n \<noteq> [] \<and> (\<forall>c \<in> set (format_nat n). \<exists>d < 10. c = digit d)"
proof (induction n rule: format_nat.induct)
  case (1 n)
  show ?case
  proof (cases "n < 10")
    case True
    then show ?thesis by (subst (1 2) format_nat.simps) auto
  next
    case False
    have "\<exists>d < 10. digit (n mod 10) = digit d" by (rule exI [of _ "n mod 10"]) simp
    with False 1 show ?thesis by (subst (1 2) format_nat.simps) auto
  qed
qed

lemma digit_not_sign: "d < 10 \<Longrightarrow> digit d \<noteq> CHR ''-'' \<and> digit d \<noteq> CHR ''+'' \<and> digit d \<noteq> CHR ''.''"
  using of_char_digit [of d] by (auto simp del: of_char_digit)

lemma ParseInt_FormatInt: "0 \<le> i \<Longrightarrow> in_i64 i \<Longrightarrow> ParseInt (FormatInt i) = Some i"
proof -
  assume i: "0 \<le> i" "in_i64 i"
  let ?s = "format_nat (nat i)"
  have "?s \<noteq> []" "hd ?s \<noteq> CHR ''-''" "hd ?s \<noteq> CHR ''+''"
    using format_nat_digits [of "nat i"] digit_not_sign by (metis list.set_sel(1))+
  with i show ?thesis by (simp add: ParseInt_def FormatInt_def parse_format_nat)
qed

lemma parse_digits_no_dot: "parse_digits s n \<noteq> None \<Longrightarrow> CHR ''.'' \<notin> set s"
  by (induction s arbitrary: n) (auto simp: Let_def split: if_splits)

text \<open>A number that parses has no full stop.\<close>

lemma ParseInt_no_dot: "ParseInt s = Some i \<Longrightarrow> CHR ''.'' \<notin> set s"
proof -
  assume p: "ParseInt s = Some i"
  then have "parse_digits (if s \<noteq> [] \<and> (hd s = CHR ''-'' \<or> hd s = CHR ''+'') then tl s else s) 0 \<noteq> None"
    unfolding ParseInt_def Let_def by (auto split: if_splits option.splits)
  then have "CHR ''.'' \<notin> set (if s \<noteq> [] \<and> (hd s = CHR ''-'' \<or> hd s = CHR ''+'') then tl s else s)"
    by (rule parse_digits_no_dot)
  then show ?thesis by (cases s) (auto split: if_splits)
qed

end
