(* ===== verification/Webhook.thy ===== *)
theory Webhook
  imports Crypto Strings Strconv
begin

text \<open>
  Package \<open>webhook\<close> (\<open>src/webhook\<close>): secrets, signing and verification of messages. Strings and payloads are
  sequences of bytes; the clock is an argument, in nanoseconds since the Unix epoch. The cryptography is theory
  \<open>Crypto\<close>. A header is the list of its values per canonical name, as in \<open>net/http\<close>.
\<close>

section \<open>Functions of the standard library\<close>

definition string_bytes :: "string \<Rightarrow> bytes" where
  "string_bytes s = map (\<lambda>c. word_of_nat (of_char c)) s"

text \<open>\<open>time.Unix\<close> counts seconds from the year 1 in 64 bits.\<close>

definition time_Unix :: "int \<Rightarrow> int" where
  "time_Unix sec = (i64 (sec + 62135596800) - 62135596800) * 1000000000"

text \<open>\<open>http.Header\<close>.\<close>

type_synonym Header = "string \<Rightarrow> string list"

definition valid_field_byte :: "char \<Rightarrow> bool" where
  "valid_field_byte c \<longleftrightarrow> c \<in> set ''abcdefghijklmnopqrstuvwxyzABCDEFGHIJKLMNOPQRSTUVWXYZ0123456789!#$%&*+-.^_`|~'' \<or> c = CHR 0x27"

fun canonical_loop :: "bool \<Rightarrow> string \<Rightarrow> string" where
  "canonical_loop up [] = []"
| "canonical_loop up (c # s) =
     (let n = (of_char c :: nat);
          d = (if up \<and> 97 \<le> n \<and> n \<le> 122 then char_of (n - 32)
               else if \<not> up \<and> 65 \<le> n \<and> n \<le> 90 then char_of (n + 32) else c)
      in d # canonical_loop (d = CHR ''-'') s)"

definition CanonicalHeaderKey :: "string \<Rightarrow> string" where
  "CanonicalHeaderKey s = (if list_all valid_field_byte s then canonical_loop True s else s)"

definition Header_Set :: "string \<Rightarrow> string \<Rightarrow> Header \<Rightarrow> Header" where
  "Header_Set k v h = h(CanonicalHeaderKey k := [v])"

definition Header_Values :: "Header \<Rightarrow> string \<Rightarrow> string list" where
  "Header_Values h k = h (CanonicalHeaderKey k)"

section \<open>Errors and secrets\<close>

definition ErrInvalidSecret :: go_error where
  "ErrInvalidSecret = Sentinel ''webhook: invalid secret''"
definition ErrInvalidTolerance :: go_error where
  "ErrInvalidTolerance = Sentinel ''webhook: invalid tolerance''"
definition ErrInvalidMessageID :: go_error where
  "ErrInvalidMessageID = Sentinel ''webhook: invalid message id''"
definition ErrMissingHeader :: go_error where
  "ErrMissingHeader = Sentinel ''webhook: missing required header''"
definition ErrInvalidTimestamp :: go_error where
  "ErrInvalidTimestamp = Sentinel ''webhook: invalid timestamp''"
definition ErrTimestampOutsideTolerance :: go_error where
  "ErrTimestampOutsideTolerance = Sentinel ''webhook: timestamp outside tolerance''"
definition ErrInvalidSignature :: go_error where
  "ErrInvalidSignature = Sentinel ''webhook: invalid signature''"

definition secretPrefix :: string where "secretPrefix = ''whsec_''"
definition minSecretLength :: nat where "minSecretLength = 24"
definition maxSecretLength :: nat where "maxSecretLength = 64"

record Secret =
  key :: bytes

definition validateSecretLength :: "nat \<Rightarrow> go_error option" where
  "validateSecretLength n =
     (if n < minSecretLength \<or> n > maxSecretLength
      then Some (Wrapped ''key length must be between 24 and 64 bytes'' ErrInvalidSecret) else None)"

definition validateSecret :: "Secret \<Rightarrow> go_error option" where
  "validateSecret secret = validateSecretLength (length (key secret))"

definition NewSecret :: "bytes \<Rightarrow> go_error + Secret" where
  "NewSecret k = (case validateSecretLength (length k) of Some err \<Rightarrow> Inl err | None \<Rightarrow> Inr \<lparr>key = k\<rparr>)"

definition ParseSecret :: "string \<Rightarrow> go_error + Secret" where
  "ParseSecret val =
     (let encoded = drop (length secretPrefix) val in
      if \<not> prefix secretPrefix val \<or> encoded = [] then Inl (Wrapped ''expected whsec_<base64>'' ErrInvalidSecret)
      else case base64_DecodeString encoded of
        None \<Rightarrow> Inl (Wrapped ''decode base64'' ErrInvalidSecret)
      | Some k \<Rightarrow> NewSecret k)"

section \<open>Configuration\<close>

datatype SignerOption = WithAdditionalSigningSecrets "Secret list"

fun add_secrets :: "Secret list \<Rightarrow> bytes list \<Rightarrow> go_error + bytes list" where
  "add_secrets [] ks = Inr ks"
| "add_secrets (s # ss) ks =
     (case validateSecret s of Some err \<Rightarrow> Inl err | None \<Rightarrow> add_secrets ss (ks @ [key s]))"

fun applySigners :: "SignerOption option list \<Rightarrow> bytes list \<Rightarrow> go_error + bytes list" where
  "applySigners [] ks = Inr ks"
| "applySigners (None # os) ks = applySigners os ks"
| "applySigners (Some (WithAdditionalSigningSecrets ss) # os) ks =
     (case add_secrets ss ks of Inl err \<Rightarrow> Inl err | Inr ks1 \<Rightarrow> applySigners os ks1)"

definition newSignerConfig :: "Secret \<Rightarrow> SignerOption option list \<Rightarrow> go_error + bytes list" where
  "newSignerConfig secret options =
     (case validateSecret secret of Some err \<Rightarrow> Inl err | None \<Rightarrow> applySigners options [key secret])"

definition defaultTolerance :: int where
  "defaultTolerance = 5 * 60 * 1000000000"

record verifierConfig =
  v_secrets :: "bytes list"
  v_tolerance :: int

datatype VerifierOption = WithTolerance int | WithAdditionalVerificationSecrets "Secret list"

fun applyVerifier :: "VerifierOption \<Rightarrow> verifierConfig \<Rightarrow> go_error + verifierConfig" where
  "applyVerifier (WithTolerance tolerance) c =
     (if tolerance \<le> 0 then Inl (Wrapped ''must be greater than zero'' ErrInvalidTolerance)
      else Inr (c\<lparr>v_tolerance := tolerance\<rparr>))"
| "applyVerifier (WithAdditionalVerificationSecrets ss) c =
     (case add_secrets ss (v_secrets c) of Inl err \<Rightarrow> Inl err | Inr ks \<Rightarrow> Inr (c\<lparr>v_secrets := ks\<rparr>))"

fun applyVerifiers :: "VerifierOption option list \<Rightarrow> verifierConfig \<Rightarrow> go_error + verifierConfig" where
  "applyVerifiers [] c = Inr c"
| "applyVerifiers (None # os) c = applyVerifiers os c"
| "applyVerifiers (Some opt # os) c =
     (case applyVerifier opt c of Inl err \<Rightarrow> Inl err | Inr c1 \<Rightarrow> applyVerifiers os c1)"

definition newVerifierConfig :: "Secret \<Rightarrow> VerifierOption option list \<Rightarrow> go_error + verifierConfig" where
  "newVerifierConfig secret options =
     (case validateSecret secret of Some err \<Rightarrow> Inl err
      | None \<Rightarrow> applyVerifiers options \<lparr>v_secrets = [key secret], v_tolerance = defaultTolerance\<rparr>)"

section \<open>Signing\<close>

definition HeaderID :: string where "HeaderID = ''webhook-id''"
definition HeaderTimestamp :: string where "HeaderTimestamp = ''webhook-timestamp''"
definition HeaderSignature :: string where "HeaderSignature = ''webhook-signature''"
definition signatureVersion :: string where "signatureVersion = ''v1''"

record Signer =
  s_secrets :: "bytes list"

definition NewSigner :: "Secret \<Rightarrow> SignerOption option list \<Rightarrow> go_error + Signer" where
  "NewSigner secret options =
     (case newSignerConfig secret options of Inl err \<Rightarrow> Inl err | Inr ks \<Rightarrow> Inr \<lparr>s_secrets = ks\<rparr>)"

definition validMessageID :: "string \<Rightarrow> bool" where
  "validMessageID messageID \<longleftrightarrow> messageID \<noteq> [] \<and>
     list_all (\<lambda>c. \<not> ((of_char c :: nat) < 33 \<or> (of_char c :: nat) > 126 \<or> c = CHR ''.'')) messageID"

text \<open>The bytes that are written to the MAC, in order.\<close>

definition signed_content :: "string \<Rightarrow> string \<Rightarrow> bytes \<Rightarrow> bytes" where
  "signed_content messageID timestamp payload =
     string_bytes messageID @ string_bytes ''.'' @ string_bytes timestamp @ string_bytes ''.'' @ payload"

definition signDigest :: "bytes \<Rightarrow> string \<Rightarrow> string \<Rightarrow> bytes \<Rightarrow> bytes" where
  "signDigest secret messageID timestamp payload = hmac_sha256 secret (signed_content messageID timestamp payload)"

definition Sign :: "Signer \<Rightarrow> int \<Rightarrow> string \<Rightarrow> bytes \<Rightarrow> go_error + Header" where
  "Sign s now messageID payload =
     (if \<not> validMessageID messageID then Inl ErrInvalidMessageID
      else
        let timestamp = FormatInt (now div 1000000000);
            signatures = map (\<lambda>secret. signatureVersion @ '','' @
                base64_EncodeToString (signDigest secret messageID timestamp payload)) (s_secrets s)
        in Inr (Header_Set HeaderSignature (str_Join signatures '' '')
                 (Header_Set HeaderTimestamp timestamp (Header_Set HeaderID messageID (\<lambda>_. [])))))"

section \<open>Verification\<close>

definition maxSignatureHeaderBytes :: nat where "maxSignatureHeaderBytes = 16384"
definition maxSignatureCount :: nat where "maxSignatureCount = 32"
definition hmacSignatureSize :: nat where "hmacSignatureSize = 32"

record Metadata =
  ID :: string
  Timestamp :: int

definition NewVerifier :: "Secret \<Rightarrow> VerifierOption option list \<Rightarrow> go_error + verifierConfig" where
  "NewVerifier secret options = newVerifierConfig secret options"

definition requiredSingleHeader :: "Header \<Rightarrow> string \<Rightarrow> go_error \<Rightarrow> go_error + string" where
  "requiredSingleHeader headers name invalidError =
     (let vs = Header_Values headers name in
      if vs = [] \<or> vs = [[]] then Inl (Wrapped name ErrMissingHeader)
      else if length vs \<noteq> 1 then Inl (Wrapped (''duplicate '' @ name) invalidError)
      else Inr (hd vs))"

text \<open>The signature of a token, if it is one of the supported version and of the right size.\<close>

definition parse_token :: "string \<Rightarrow> bytes option" where
  "parse_token token =
     (case str_Cut token '','' of
        None \<Rightarrow> None
      | Some (version, encoded) \<Rightarrow>
          if version \<noteq> signatureVersion then None
          else case base64_DecodeString encoded of
            None \<Rightarrow> None | Some sig \<Rightarrow> if length sig \<noteq> hmacSignatureSize then None else Some sig)"

fun tokens_loop :: "string list \<Rightarrow> nat \<Rightarrow> bytes list \<Rightarrow> (nat \<times> bytes list) option" where
  "tokens_loop [] n sigs = Some (n, sigs)"
| "tokens_loop (token # ts) n sigs =
     (if n + 1 > maxSignatureCount then None
      else tokens_loop ts (n + 1) (case parse_token token of None \<Rightarrow> sigs | Some sig \<Rightarrow> sigs @ [sig]))"

fun signatures_loop :: "string list \<Rightarrow> nat \<Rightarrow> nat \<Rightarrow> bytes list \<Rightarrow> bytes list option" where
  "signatures_loop [] totalBytes n sigs = Some sigs"
| "signatures_loop (v # vs) totalBytes n sigs =
     (if totalBytes + length v > maxSignatureHeaderBytes then None
      else case tokens_loop (fields_loop (explode v) []) n sigs of
        None \<Rightarrow> None | Some (n1, sigs1) \<Rightarrow> signatures_loop vs (totalBytes + length v) n1 sigs1)"

definition parseSignatures :: "Header \<Rightarrow> go_error + bytes list" where
  "parseSignatures headers =
     (let vs = Header_Values headers HeaderSignature in
      if vs = [] then Inl (Wrapped HeaderSignature ErrMissingHeader)
      else case signatures_loop vs 0 0 [] of
        None \<Rightarrow> Inl ErrInvalidSignature
      | Some sigs \<Rightarrow> if sigs = [] then Inl ErrInvalidSignature else Inr sigs)"

text \<open>The loops over secrets and signatures go on after a match.\<close>

definition matches :: "bytes list \<Rightarrow> string \<Rightarrow> string \<Rightarrow> bytes \<Rightarrow> bytes list \<Rightarrow> bool" where
  "matches secrets messageID timestamp payload sigs =
     fold (\<lambda>secret matched. fold (\<lambda>sig m. signDigest secret messageID timestamp payload = sig \<or> m) sigs matched)
       secrets False"

definition Verify :: "verifierConfig \<Rightarrow> int \<Rightarrow> Header \<Rightarrow> bytes \<Rightarrow> go_error + Metadata" where
  "Verify v now headers payload =
     (case requiredSingleHeader headers HeaderID ErrInvalidMessageID of Inl err \<Rightarrow> Inl err
      | Inr messageID \<Rightarrow>
     if \<not> validMessageID messageID then Inl ErrInvalidMessageID else
     (case requiredSingleHeader headers HeaderTimestamp ErrInvalidTimestamp of Inl err \<Rightarrow> Inl err
      | Inr timestampValue \<Rightarrow>
     (case ParseInt timestampValue of None \<Rightarrow> Inl ErrInvalidTimestamp
      | Some unixTimestamp \<Rightarrow>
     if unixTimestamp < 0 then Inl ErrInvalidTimestamp else
     let timestamp = time_Unix unixTimestamp; difference = time_Sub now timestamp in
     if difference > v_tolerance v \<or> difference < - v_tolerance v then Inl ErrTimestampOutsideTolerance else
     (case parseSignatures headers of Inl err \<Rightarrow> Inl err
      | Inr sigs \<Rightarrow>
     if \<not> matches (v_secrets v) messageID timestampValue payload sigs then Inl ErrInvalidSignature
     else Inr \<lparr>ID = messageID, Timestamp = timestamp\<rparr>))))"

section \<open>Fields\<close>

lemma explode_ascii: "\<forall>c \<in> set s. (of_char c :: nat) < 128 \<Longrightarrow> explode s = map (\<lambda>c. [c]) s"
proof (induction s)
  case Nil
  then show ?case by (subst explode.simps) simp
next
  case (Cons c s)
  then have "snd (decode_rune (map of_char (c # s))) = 1" by (simp add: decode_rune_def)
  with Cons show ?case by (subst explode.simps) (simp add: Let_def)
qed

definition plain :: "string \<Rightarrow> bool" where
  "plain s \<longleftrightarrow> (\<forall>c \<in> set s. 32 < (of_char c :: nat) \<and> (of_char c :: nat) < 127)"

lemma fields_word: "plain u \<Longrightarrow> fields_loop (map (\<lambda>c. [c]) u @ rest) cur = fields_loop rest (cur @ u)"
proof (induction u arbitrary: cur)
  case (Cons c u)
  then have "\<not> IsSpace (fst (decode_rune [of_char c]))" by (auto simp: plain_def decode_rune_def IsSpace_def)
  with Cons show ?case by (auto simp: plain_def)
qed simp

lemma plain_ascii: "plain s \<Longrightarrow> \<forall>c \<in> set s. (of_char c :: nat) < 128"
  by (auto simp: plain_def)

lemma fields_join:
  "\<forall>t \<in> set ts. plain t \<and> t \<noteq> [] \<Longrightarrow> fields_loop (map (\<lambda>c. [c]) (str_Join ts '' '')) [] = ts"
proof (induction ts rule: induct_list012)
  case (2 t)
  then show ?case using fields_word [of t "[]" "[]"] by simp
next
  case (3 t u ts)
  have sp: "IsSpace (fst (decode_rune [of_char (CHR '' '')]))" by (simp add: decode_rune_def IsSpace_def)
  have "fields_loop (map (\<lambda>c. [c]) (str_Join (t # u # ts) '' '')) [] =
      fields_loop ([CHR '' ''] # map (\<lambda>c. [c]) (str_Join (u # ts) '' '')) t"
    using fields_word [of t "[CHR '' ''] # map (\<lambda>c. [c]) (str_Join (u # ts) '' '')" "[]"] 3 by simp
  with 3 sp show ?case by simp
qed simp

lemma str_Join_set: "set (str_Join ts sep) \<subseteq> (\<Union>t \<in> set ts. set t) \<union> set sep"
  by (induction ts sep rule: str_Join.induct) auto

lemma length_str_Join: "ts \<noteq> [] \<Longrightarrow> length (str_Join ts '' '') + 1 = (\<Sum>t \<leftarrow> ts. length t + 1)"
  by (induction ts "'' ''" rule: str_Join.induct) auto

text \<open>The fields of plain words joined by spaces are the words.\<close>

lemma fields_explode_join:
  assumes "\<forall>t \<in> set ts. plain t \<and> t \<noteq> []" shows "fields_loop (explode (str_Join ts '' '')) [] = ts"
proof -
  have "(of_char c :: nat) < 128" if "c \<in> set (str_Join ts '' '')" for c
  proof -
    from that str_Join_set [of ts "'' ''"] consider t where "t \<in> set ts" "c \<in> set t" | "c = CHR '' ''" by auto
    then show ?thesis
    proof cases
      case 1
      with assms have "plain t" by blast
      with 1 show ?thesis by (auto simp: plain_def)
    qed simp
  qed
  with fields_join [OF assms] show ?thesis by (simp add: explode_ascii)
qed

section \<open>Signatures\<close>

lemma canonical_headers:
  "CanonicalHeaderKey HeaderID = ''Webhook-Id''" "CanonicalHeaderKey HeaderTimestamp = ''Webhook-Timestamp''"
  "CanonicalHeaderKey HeaderSignature = ''Webhook-Signature''"
  by code_simp+

lemma fold_or: "fold (\<lambda>x m. P x \<or> m) xs b \<longleftrightarrow> (\<exists>x \<in> set xs. P x) \<or> b"
  by (induction xs arbitrary: b) auto

lemma matches_iff:
  "matches secrets messageID ts payload sigs \<longleftrightarrow>
     (\<exists>secret \<in> set secrets. signDigest secret messageID ts payload \<in> set sigs)"
proof -
  have "(fold (\<lambda>sig m. d = sig \<or> m) sigs b) = (d \<in> set sigs \<or> b)" for d b
    using fold_or [of "\<lambda>sig. d = sig" sigs b] by auto
  then show ?thesis using fold_or [of "\<lambda>secret. signDigest secret messageID ts payload \<in> set sigs" secrets False]
    by (simp add: matches_def)
qed

definition token :: "bytes \<Rightarrow> string" where
  "token sig = signatureVersion @ '','' @ base64_EncodeToString sig"

lemma parse_token_token: "length sig = 32 \<Longrightarrow> parse_token (token sig) = Some sig"
  by (simp add: parse_token_def token_def str_Cut_def str_Index_def signatureVersion_def hmacSignatureSize_def)

lemma length_base64: "length (base64_EncodeToString bs) = 4 * ((length bs + 2) div 3)"
proof (induction bs rule: base64_EncodeToString.induct)
  case (4 x y z bs)
  have "length (x # y # z # bs) + 2 = 3 + (length bs + 2)" by simp
  then have "(length (x # y # z # bs) + 2) div 3 = (length bs + 2) div 3 + 1" by simp
  with 4 show ?case by (simp only: base64_EncodeToString.simps list.size) simp
qed simp_all

lemma length_token: "length sig = 32 \<Longrightarrow> length (token sig) = 47"
  by (simp add: token_def signatureVersion_def length_base64)

lemma alphabet_plain: "list_all (\<lambda>c. 32 < (of_char c :: nat) \<and> (of_char c :: nat) < 127) base64_alphabet"
  by (simp add: base64_alphabet_def)

lemma token_plain: "plain (token sig) \<and> token sig \<noteq> []"
proof -
  have "plain (base64_EncodeToString sig)"
    using base64_encode_chars [of sig] alphabet_plain by (fastforce simp: plain_def list_all_iff)
  then show ?thesis by (auto simp: token_def plain_def signatureVersion_def)
qed

lemma tokens_loop_tokens:
  "\<forall>sig \<in> set sigs. length sig = 32 \<Longrightarrow> n + length sigs \<le> maxSignatureCount \<Longrightarrow>
   tokens_loop (map token sigs) n acc = Some (n + length sigs, acc @ sigs)"
  by (induction sigs arbitrary: n acc) (simp_all add: parse_token_token)

text \<open>The signature header of a signer is read back, if it has no more signatures than a verifier reads.\<close>

lemma signatures_loop_tokens:
  assumes "\<forall>sig \<in> set sigs. length sig = 32" "length sigs \<le> maxSignatureCount"
  shows "signatures_loop [str_Join (map token sigs) '' ''] 0 0 [] = Some sigs"
proof -
  have "length (str_Join (map token sigs) '' '') \<le> maxSignatureHeaderBytes"
  proof (cases "sigs = []")
    case False
    have "(\<Sum>t \<leftarrow> map token sigs. length t + 1) = 48 * length sigs"
      using assms(1) by (induction sigs) (simp_all add: length_token)
    with length_str_Join [of "map token sigs"] False assms(2) show ?thesis
      by (simp add: maxSignatureCount_def maxSignatureHeaderBytes_def)
  qed simp
  moreover have "fields_loop (explode (str_Join (map token sigs) '' '')) [] = map token sigs"
    using token_plain by (intro fields_explode_join) auto
  ultimately show ?thesis using tokens_loop_tokens [OF assms(1), of 0 "[]"] assms(2) by simp
qed

lemma time_Unix_exact: "0 \<le> sec \<Longrightarrow> sec \<le> 2 ^ 62 \<Longrightarrow> time_Unix sec = sec * 1000000000"
  by (simp add: time_Unix_def i64_id in_i64_def MinInt64_def MaxInt64_def)

lemma FormatInt_nonempty: "FormatInt i \<noteq> []"
  using format_nat_digits by (simp add: FormatInt_def)

lemma sign_then_verify:
  assumes "validMessageID messageID" "secret \<in> set (s_secrets s)" "secret \<in> set (v_secrets v)"
    "length (s_secrets s) \<le> maxSignatureCount" "0 \<le> now" "now div 1000000000 \<le> 2 ^ 62"
    "\<bar>time_Sub now' (now div 1000000000 * 1000000000)\<bar> \<le> v_tolerance v"
  shows "\<exists>headers. Sign s now messageID payload = Inr headers \<and>
    Verify v now' headers payload = Inr \<lparr>ID = messageID, Timestamp = now div 1000000000 * 1000000000\<rparr>"
proof -
  let ?u = "now div 1000000000"
  let ?sigs = "map (\<lambda>k. signDigest k messageID (FormatInt ?u) payload) (s_secrets s)"
  let ?h = "Header_Set HeaderSignature (str_Join (map token ?sigs) '' '')
    (Header_Set HeaderTimestamp (FormatInt ?u) (Header_Set HeaderID messageID (\<lambda>_. [])))"
  have u: "0 \<le> ?u" "in_i64 ?u"
    using assms(5,6) by (simp_all add: in_i64_def MinInt64_def MaxInt64_def pos_imp_zdiv_nonneg_iff)
  have sign: "Sign s now messageID payload = Inr ?h"
    using assms(1) by (simp add: Sign_def Let_def token_def comp_def)
  have vals: "Header_Values ?h HeaderID = [messageID]" "Header_Values ?h HeaderTimestamp = [FormatInt ?u]"
    "Header_Values ?h HeaderSignature = [str_Join (map token ?sigs) '' '']"
    by (simp_all add: Header_Values_def Header_Set_def canonical_headers)
  have "signatures_loop [str_Join (map token ?sigs) '' ''] 0 0 [] = Some ?sigs"
    using assms(4) by (intro signatures_loop_tokens) (auto simp: signDigest_def)
  moreover have "?sigs \<noteq> []" using assms(2) by auto
  ultimately have sigs: "parseSignatures ?h = Inr ?sigs" by (simp only: parseSignatures_def vals) simp
  have single: "requiredSingleHeader ?h HeaderID ErrInvalidMessageID = Inr messageID"
    "requiredSingleHeader ?h HeaderTimestamp ErrInvalidTimestamp = Inr (FormatInt ?u)"
    using assms(1) FormatInt_nonempty [of ?u]
    by (simp_all only: requiredSingleHeader_def vals) (auto simp: validMessageID_def)
  have m: "matches (v_secrets v) messageID (FormatInt ?u) payload ?sigs"
    using assms(2,3) by (auto simp: matches_iff)
  have "Verify v now' ?h payload = Inr \<lparr>ID = messageID, Timestamp = ?u * 1000000000\<rparr>"
    unfolding Verify_def single sum.case sigs ParseInt_FormatInt [OF u] option.case time_Unix_exact [OF u(1) assms(6)] Let_def
    using assms(1,7) u(1) m by (auto simp: abs_le_iff)
  with sign show ?thesis by blast
qed

text \<open>C21. What a signer signs a verifier accepts: if they share a secret, the signer has no more secrets than a verifier
  reads signatures, and the clocks differ by no more than the tolerance, then \<open>Verify\<close> of the headers of
  \<open>Sign\<close> returns the message's identifier and its time in whole seconds.\<close>

theorem Sign_Verify:
  assumes "validMessageID messageID" "secret \<in> set (s_secrets s)" "secret \<in> set (v_secrets v)"
    "length (s_secrets s) \<le> maxSignatureCount" "0 \<le> now" "now div 1000000000 \<le> 2 ^ 62"
    "\<bar>time_Sub now' (now div 1000000000 * 1000000000)\<bar> \<le> v_tolerance v"
  shows "\<exists>headers. Sign s now messageID payload = Inr headers \<and>
    Verify v now' headers payload = Inr \<lparr>ID = messageID, Timestamp = now div 1000000000 * 1000000000\<rparr>"
  by (rule sign_then_verify [OF assms])

definition sample_signer :: Signer where
  "sample_signer = \<lparr>s_secrets = [replicate 24 1, replicate 24 2]\<rparr>"

definition sample_verifier :: verifierConfig where
  "sample_verifier = \<lparr>v_secrets = [replicate 24 2], v_tolerance = defaultTolerance\<rparr>"

lemma sample_ok:
  "validMessageID ''msg_1''" "replicate 24 2 \<in> set (s_secrets sample_signer)"
  "replicate 24 2 \<in> set (v_secrets sample_verifier)" "length (s_secrets sample_signer) \<le> maxSignatureCount"
  "\<bar>time_Sub 1700000001000000000 (1700000000500000000 div 1000000000 * 1000000000)\<bar> \<le> v_tolerance sample_verifier"
  by (simp_all add: validMessageID_def sample_signer_def sample_verifier_def maxSignatureCount_def time_Sub_def
      MinInt64_def MaxInt64_def defaultTolerance_def)

theorem Sign_Verify_witness:
  "\<exists>headers. Sign sample_signer 1700000000500000000 ''msg_1'' [1, 2] = Inr headers \<and>
    Verify sample_verifier 1700000001000000000 headers [1, 2] =
      Inr \<lparr>ID = ''msg_1'', Timestamp = 1700000000500000000 div 1000000000 * 1000000000\<rparr>"
  by (rule Sign_Verify [OF sample_ok(1-4) _ _ sample_ok(5)]) simp_all

section \<open>What a verifier accepts\<close>

lemma string_bytes_inject: "string_bytes s = string_bytes t \<longleftrightarrow> s = t"
proof -
  have "word_of_nat (of_char c) = (word_of_nat (of_char d) :: 8 word) \<longleftrightarrow> c = d" for c d :: char
  proof -
    have "(of_char c :: nat) < 256" "(of_char d :: nat) < 256" by simp_all
    then show ?thesis by (auto simp: word_of_nat_eq_iff take_bit_nat_eq_self)
  qed
  then have "inj (\<lambda>c. word_of_nat (of_char c) :: 8 word)" by (auto intro: injI)
  then show ?thesis by (auto simp: string_bytes_def inj_map_eq_map)
qed

lemma string_bytes_dot: "word_of_nat (of_char (CHR ''.'')) \<in> set (string_bytes s) \<longleftrightarrow> CHR ''.'' \<in> set s"
proof -
  have "word_of_nat (of_char (CHR ''.'')) = (word_of_nat (of_char c) :: 8 word) \<longleftrightarrow> CHR ''.'' = c" for c
    using string_bytes_inject [of "''.''" "[c]"] by (simp add: string_bytes_def)
  then show ?thesis by (auto simp: string_bytes_def image_iff)
qed

lemma first_separator: "x \<notin> set a \<Longrightarrow> x \<notin> set a' \<Longrightarrow> a @ x # b = a' @ x # b' \<longleftrightarrow> a = a' \<and> b = b'"
proof (induction a arbitrary: a')
  case Nil
  then show ?case by (cases a') auto
next
  case (Cons y a)
  then show ?case by (cases a') auto
qed

lemma signed_content_inject:
  assumes "CHR ''.'' \<notin> set i" "CHR ''.'' \<notin> set i'" "CHR ''.'' \<notin> set t" "CHR ''.'' \<notin> set t'"
  shows "signed_content i t p = signed_content i' t' p' \<longleftrightarrow> i = i' \<and> t = t' \<and> p = p'"
proof -
  have "signed_content x y z = string_bytes x @ word_of_nat (of_char (CHR ''.'')) #
      (string_bytes y @ word_of_nat (of_char (CHR ''.'')) # z)" for x y z
    by (simp add: signed_content_def string_bytes_def)
  moreover note first_separator [of _ "string_bytes i" "string_bytes i'"] first_separator [of _ "string_bytes t" "string_bytes t'"]
  ultimately show ?thesis using assms by (simp only: string_bytes_dot string_bytes_inject not_False_eq_True simp_thms)
qed

lemma validMessageID_no_dot: "validMessageID i \<Longrightarrow> CHR ''.'' \<notin> set i"
  by (auto simp: validMessageID_def list_all_iff)

lemma requiredSingleHeader_Inr: "requiredSingleHeader h name e = Inr x \<Longrightarrow> Header_Values h name = [x]"
  by (cases "Header_Values h name") (auto simp: requiredSingleHeader_def Let_def split: if_splits)

text \<open>C22. A verifier accepts only what was signed. If \<open>Verify\<close> returns metadata, then the identifier and the timestamp
  are the only values of their headers, the timestamp is within the tolerance of the clock, and a signature in the
  headers is the HMAC of identifier, timestamp and payload under one of the verifier's secrets. The bytes that are
  authenticated are those of no other valid identifier, timestamp and payload.\<close>

theorem Verify_sound:
  assumes "Verify v now headers payload = Inr m"
  shows "\<exists>ts u secret sigs.
    Header_Values headers HeaderID = [ID m] \<and> validMessageID (ID m) \<and>
    Header_Values headers HeaderTimestamp = [ts] \<and> ParseInt ts = Some u \<and> 0 \<le> u \<and> Timestamp m = time_Unix u \<and>
    time_Sub now (Timestamp m) \<le> v_tolerance v \<and> - v_tolerance v \<le> time_Sub now (Timestamp m) \<and>
    secret \<in> set (v_secrets v) \<and> parseSignatures headers = Inr sigs \<and>
    hmac_sha256 secret (signed_content (ID m) ts payload) \<in> set sigs \<and>
    (\<forall>i t p. validMessageID i \<and> ParseInt t \<noteq> None \<and> signed_content i t p = signed_content (ID m) ts payload \<longrightarrow>
       i = ID m \<and> t = ts \<and> p = payload)"
proof -
  from assms obtain i ts u sigs where
    h: "requiredSingleHeader headers HeaderID ErrInvalidMessageID = Inr i" "validMessageID i"
       "requiredSingleHeader headers HeaderTimestamp ErrInvalidTimestamp = Inr ts"
       "ParseInt ts = Some u" "0 \<le> u" "parseSignatures headers = Inr sigs"
       "matches (v_secrets v) i ts payload sigs" "m = \<lparr>ID = i, Timestamp = time_Unix u\<rparr>"
       "time_Sub now (time_Unix u) \<le> v_tolerance v" "- v_tolerance v \<le> time_Sub now (time_Unix u)"
    by (auto simp: Verify_def Let_def not_less split: sum.splits option.splits if_splits)
  then obtain secret where "secret \<in> set (v_secrets v)" "signDigest secret i ts payload \<in> set sigs"
    by (auto simp: matches_iff)
  moreover have "x = i \<and> t = ts \<and> p = payload"
    if "validMessageID x" "ParseInt t \<noteq> None" "signed_content x t p = signed_content i ts payload" for x t p
    using that signed_content_inject [of x i t ts p payload] h(2,4) ParseInt_no_dot validMessageID_no_dot by auto
  ultimately show ?thesis
    using h requiredSingleHeader_Inr [OF h(1)] requiredSingleHeader_Inr [OF h(3)]
    by (intro exI [of _ ts] exI [of _ u] exI [of _ secret] exI [of _ sigs]) (auto simp: signDigest_def)
qed

theorem Verify_sound_witness:
  "\<exists>headers m ts u secret sigs. Verify sample_verifier 1700000001000000000 headers [1, 2] = Inr m \<and>
    Header_Values headers HeaderID = [ID m] \<and> validMessageID (ID m) \<and>
    Header_Values headers HeaderTimestamp = [ts] \<and> ParseInt ts = Some u \<and> 0 \<le> u \<and> Timestamp m = time_Unix u \<and>
    time_Sub 1700000001000000000 (Timestamp m) \<le> v_tolerance sample_verifier \<and>
    - v_tolerance sample_verifier \<le> time_Sub 1700000001000000000 (Timestamp m) \<and>
    secret \<in> set (v_secrets sample_verifier) \<and> parseSignatures headers = Inr sigs \<and>
    hmac_sha256 secret (signed_content (ID m) ts [1, 2]) \<in> set sigs \<and>
    (\<forall>i t p. validMessageID i \<and> ParseInt t \<noteq> None \<and> signed_content i t p = signed_content (ID m) ts [1, 2] \<longrightarrow>
       i = ID m \<and> t = ts \<and> p = [1, 2])"
proof -
  obtain headers m where "Verify sample_verifier 1700000001000000000 headers [1, 2] = Inr m"
    using sign_then_verify [OF sample_ok(1-4) _ _ sample_ok(5), of "[1, 2]"] by auto
  with Verify_sound [OF this] show ?thesis by blast
qed

section \<open>Secrets\<close>

text \<open>A secret that was parsed has a key of a valid length, and every key of a valid length can be written.\<close>

lemma NewSecret_iff: "NewSecret k = Inr s \<longleftrightarrow> 24 \<le> length k \<and> length k \<le> 64 \<and> s = \<lparr>key = k\<rparr>"
  by (auto simp: NewSecret_def validateSecretLength_def minSecretLength_def maxSecretLength_def)

lemma base64_nonempty: "k \<noteq> [] \<Longrightarrow> base64_EncodeToString k \<noteq> []"
  by (cases k rule: base64_EncodeToString.cases) auto

lemma ParseSecret_roundtrip:
  "24 \<le> length k \<Longrightarrow> length k \<le> 64 \<Longrightarrow> ParseSecret (secretPrefix @ base64_EncodeToString k) = Inr \<lparr>key = k\<rparr>"
  using base64_nonempty [of k] by (cases "k = []") (auto simp: ParseSecret_def NewSecret_iff Let_def)

lemma ParseSecret_length: "ParseSecret val = Inr s \<Longrightarrow> 24 \<le> length (key s) \<and> length (key s) \<le> 64"
  by (auto simp: ParseSecret_def Let_def NewSecret_iff split: if_splits option.splits)

end
