(* ===== verification/Filesystem.thy ===== *)
theory Filesystem
  imports Codec Strings Strconv
begin

text \<open>
  Package \<open>filesystem\<close> (\<open>src/filesystem\<close>): logical paths and the prefixer that maps them to the keys of an object
  store, the length of what is written, listing options, and the repository that adds operations to a driver. A driver is a
  record of its methods on a world \<open>'w\<close>, and so is a reader. The drivers themselves are outside the model.
\<close>

section \<open>Functions of the standard library\<close>

text \<open>\<open>utf8.ValidString\<close>: no byte is decoded as an error, which is \<open>U+FFFD\<close> of width 1.\<close>

function valid_utf8 :: "nat list \<Rightarrow> bool" where
  "valid_utf8 bs =
     (if bs = [] then True
      else if decode_rune bs = (65533, 1) then False
      else valid_utf8 (drop (snd (decode_rune bs)) bs))"
  by pat_completeness auto
termination by (relation "measure length") (auto dest: decode_rune_width)

declare valid_utf8.simps [simp del]

definition utf8_ValidString :: "string \<Rightarrow> bool" where
  "utf8_ValidString s = valid_utf8 (map of_char s)"

text \<open>\<open>fs.ValidPath\<close> goes through the elements of the path.\<close>

function valid_elements :: "string \<Rightarrow> bool" where
  "valid_elements name =
     (let elem = takeWhile (\<lambda>c. c \<noteq> CHR ''/'') name in
      if elem = [] \<or> elem = ''.'' \<or> elem = ''..'' then False
      else if length elem = length name then True
      else valid_elements (drop (length elem + 1) name))"
  by pat_completeness auto
termination
proof (relation "measure length", simp)
  fix name elem :: string
  assume "elem = takeWhile (\<lambda>c. c \<noteq> CHR ''/'') name" "\<not> (elem = [] \<or> elem = ''.'' \<or> elem = ''..'')"
  then show "(drop (length elem + 1) name, name) \<in> measure length" by (cases name) auto
qed

declare valid_elements.simps [simp del]

definition fs_ValidPath :: "string \<Rightarrow> bool" where
  "fs_ValidPath name \<longleftrightarrow> utf8_ValidString name \<and> (name = ''.'' \<or> valid_elements name)"

definition str_Trim_slash :: "string \<Rightarrow> string" where
  "str_Trim_slash s =
     rev (dropWhile (\<lambda>c. c = CHR ''/'') (rev (dropWhile (\<lambda>c. c = CHR ''/'') s)))"

definition str_TrimPrefix :: "string \<Rightarrow> string \<Rightarrow> string" where
  "str_TrimPrefix s pre = (if prefix pre s then drop (length pre) s else s)"

definition str_CutPrefix :: "string \<Rightarrow> string \<Rightarrow> string \<times> bool" where
  "str_CutPrefix s pre = (if prefix pre s then (drop (length pre) s, True) else (s, False))"

section \<open>Paths\<close>

definition ErrInvalidPath :: go_error where
  "ErrInvalidPath = Sentinel ''filesystem: invalid path''"
definition ErrNotFound :: go_error where
  "ErrNotFound = Sentinel ''filesystem: entry not found''"
definition ErrUnsupported :: go_error where
  "ErrUnsupported = Sentinel ''filesystem: operation not supported''"
definition ErrContentLengthRequired :: go_error where
  "ErrContentLengthRequired = Sentinel ''filesystem: content length required''"
definition ErrInvalidContentLength :: go_error where
  "ErrInvalidContentLength = Sentinel ''filesystem: invalid content length''"

definition ValidPath :: "string \<Rightarrow> bool" where
  "ValidPath path \<longleftrightarrow> fs_ValidPath path \<and> CHR 0x5C \<notin> set path"

text \<open>A \<open>fs.PathError\<close> wraps its error with the operation and the path.\<close>

definition ValidatePath :: "string \<Rightarrow> go_error option" where
  "ValidatePath path = (if ValidPath path then None else Some (Wrapped (''validate '' @ path) ErrInvalidPath))"

definition ValidateFilePath :: "string \<Rightarrow> go_error option" where
  "ValidateFilePath path =
     (case ValidatePath path of
        Some err \<Rightarrow> Some err
      | None \<Rightarrow> if path = ''.'' then Some (Wrapped (''validate '' @ path) ErrInvalidPath) else None)"

record PathPrefixer =
  pp_prefix :: string

definition NewPathPrefixer :: "string \<Rightarrow> PathPrefixer" where
  "NewPathPrefixer pre = \<lparr>pp_prefix = str_Trim_slash pre\<rparr>"

definition Prefix :: "PathPrefixer \<Rightarrow> string \<Rightarrow> string" where
  "Prefix p path =
     (if path = ''.'' then pp_prefix p
      else if pp_prefix p = [] then path
      else pp_prefix p @ ''/'' @ path)"

definition Strip :: "PathPrefixer \<Rightarrow> string \<Rightarrow> string \<times> bool" where
  "Strip p key =
     (let key = str_TrimPrefix key ''/'' in
      if pp_prefix p = [] then (if key = [] then (''.'', True) else (key, True))
      else if key = pp_prefix p then (''.'', True)
      else str_CutPrefix key (pp_prefix p @ ''/''))"

section \<open>Entries and options\<close>

datatype EntryKind = EntryKindUnknown | EntryKindFile | EntryKindDirectory

record Entry =
  Path :: string
  entry_Kind :: EntryKind
  entry_Size :: int
  LastModified :: int
  entry_ContentType :: string
  entry_Metadata :: "string \<Rightarrow> string option"

definition IsFile :: "Entry \<Rightarrow> bool" where
  "IsFile e \<longleftrightarrow> entry_Kind e = EntryKindFile"

definition IsDir :: "Entry \<Rightarrow> bool" where
  "IsDir e \<longleftrightarrow> entry_Kind e = EntryKindDirectory"

record PutOptions =
  ContentLength :: "int option"
  ContentType :: string
  Metadata :: "string \<Rightarrow> string option"

text \<open>
  A reader with the methods the code looks for by type assertion: \<open>Len\<close>, \<open>Seek\<close>, and \<open>Close\<close> for a reader that
  a driver opened. \<open>rd_ReadAll\<close> is what \<open>io.ReadAll\<close> reads from it. A source is nil, a reader of
  \<open>bytes.NewReader\<close> from which nothing has been read, or any other reader. A reader of bytes can seek as well, but the
  code asks for \<open>Len\<close> first and never gets to it; \<open>source_Seek\<close> leaves it out.
\<close>

datatype whence = SeekStart | SeekCurrent | SeekEnd

type_synonym 'w Seeker = "int \<Rightarrow> whence \<Rightarrow> 'w \<Rightarrow> (int \<times> go_error option) \<times> 'w"

record 'w Reader =
  rd_Len :: "('w \<Rightarrow> int) option"
  rd_Seek :: "'w Seeker option"
  rd_ReadAll :: "'w \<Rightarrow> (bytes \<times> go_error option) \<times> 'w"
  rd_Close :: "'w \<Rightarrow> 'w"

datatype 'w source = NilSource | BytesReader bytes | Stream "'w Reader"

definition source_Len :: "'w source \<Rightarrow> ('w \<Rightarrow> int) option" where
  "source_Len src =
     (case src of NilSource \<Rightarrow> None | BytesReader bs \<Rightarrow> Some (\<lambda>_. int (length bs)) | Stream r \<Rightarrow> rd_Len r)"

definition source_Seek :: "'w source \<Rightarrow> 'w Seeker option" where
  "source_Seek src = (case src of Stream r \<Rightarrow> rd_Seek r | _ \<Rightarrow> None)"

definition remainingLength :: "'w Seeker \<Rightarrow> 'w \<Rightarrow> (int \<times> go_error option) \<times> 'w" where
  "remainingLength seek w =
     (case seek 0 SeekCurrent w of
        ((_, Some err), w1) \<Rightarrow> ((0, Some err), w1)
      | ((current, None), w1) \<Rightarrow>
          (case seek 0 SeekEnd w1 of
             ((endpos, endErr), w2) \<Rightarrow>
               (case seek current SeekStart w2 of
                  ((_, restoreErr), w3) \<Rightarrow>
                    if endErr \<noteq> None then ((0, endErr), w3)
                    else if restoreErr \<noteq> None then ((0, restoreErr), w3)
                    else if endpos < current then ((0, Some ErrInvalidContentLength), w3)
                    else ((i64 (endpos - current), None), w3))))"

definition inferContentLength :: "'w source \<Rightarrow> 'w \<Rightarrow> (int \<times> bool \<times> go_error option) \<times> 'w" where
  "inferContentLength src w =
     (if src = NilSource then ((0, True, None), w)
      else case source_Len src of
        Some len \<Rightarrow>
          (let n = len w in
           if n < 0 then ((0, True, Some ErrInvalidContentLength), w) else ((n, True, None), w))
      | None \<Rightarrow>
          (case source_Seek src of
             Some seek \<Rightarrow>
               (case remainingLength seek w of
                  ((_, Some err), w1) \<Rightarrow> ((0, True, Some err), w1)
                | ((n, None), w1) \<Rightarrow> ((n, True, None), w1))
           | None \<Rightarrow> ((0, False, None), w)))"

text \<open>An error of the source is rendered by \<open>%v\<close>, so that it is not part of the chain; \<open>text_of\<close> is the
  \<open>Error\<close> method of the errors.\<close>

definition ResolveContentLength ::
  "(go_error \<Rightarrow> string) \<Rightarrow> PutOptions \<Rightarrow> 'w source \<Rightarrow> 'w \<Rightarrow> (int \<times> go_error option) \<times> 'w" where
  "ResolveContentLength text_of o' src w =
     (if (case ContentLength o' of Some n \<Rightarrow> n < 0 | None \<Rightarrow> False) then ((0, Some ErrInvalidContentLength), w)
      else case inferContentLength src w of
        ((_, _, Some err), w1) \<Rightarrow> ((0, Some (Wrapped (text_of err) ErrInvalidContentLength)), w1)
      | ((inferred, known, None), w1) \<Rightarrow>
          (case ContentLength o' of
             Some n \<Rightarrow>
               if known \<and> n \<noteq> inferred
               then ((0, Some (Wrapped (''explicit value '' @ FormatInt n @ '' does not match inferred value '' @
                       FormatInt inferred) ErrInvalidContentLength)), w1)
               else ((n, None), w1)
           | None \<Rightarrow> if known then ((inferred, None), w1) else ((0, Some ErrContentLengthRequired), w1)))"

definition DefaultListLimit :: int where "DefaultListLimit = 1000"
definition MaxListLimit :: int where "MaxListLimit = 1000"

record ListOptions =
  Recursive :: bool
  Limit :: int
  Cursor :: string

definition Normalize :: "ListOptions \<Rightarrow> ListOptions" where
  "Normalize o' =
     (if Limit o' < 1 then o'\<lparr>Limit := DefaultListLimit\<rparr>
      else if Limit o' > MaxListLimit then o'\<lparr>Limit := MaxListLimit\<rparr> else o')"

record ListPage =
  Entries :: "Entry list"
  NextCursor :: string

section \<open>The repository\<close>

text \<open>
  The context is part of the world. \<open>drv_Copy\<close> and \<open>drv_Move\<close> are there when the driver is a \<open>Copier\<close> or
  a \<open>Mover\<close>. A map that is nil and an empty one are the same function.
\<close>

record 'w Driver =
  drv_Open :: "string \<Rightarrow> 'w \<Rightarrow> (go_error + 'w Reader) \<times> 'w"
  drv_Put :: "string \<Rightarrow> 'w source \<Rightarrow> PutOptions \<Rightarrow> 'w \<Rightarrow> go_error option \<times> 'w"
  drv_Delete :: "string \<Rightarrow> 'w \<Rightarrow> go_error option \<times> 'w"
  drv_Stat :: "string \<Rightarrow> 'w \<Rightarrow> (go_error + Entry) \<times> 'w"
  drv_ListFiles :: "string \<Rightarrow> ListOptions \<Rightarrow> 'w \<Rightarrow> (go_error + ListPage) \<times> 'w"
  drv_Copy :: "(string \<Rightarrow> string \<Rightarrow> 'w \<Rightarrow> go_error option \<times> 'w) option"
  drv_Move :: "(string \<Rightarrow> string \<Rightarrow> 'w \<Rightarrow> go_error option \<times> 'w) option"

record 'w Repository =
  driver :: "'w Driver"

definition NewRepository :: "'w Driver \<Rightarrow> 'w Repository" where
  "NewRepository d = \<lparr>driver = d\<rparr>"

definition Repository_Driver :: "'w Repository \<Rightarrow> 'w Driver" where
  "Repository_Driver r = driver r"

definition Open :: "'w Repository \<Rightarrow> string \<Rightarrow> 'w \<Rightarrow> (go_error + 'w Reader) \<times> 'w" where
  "Open r path w = drv_Open (driver r) path w"

definition Put :: "'w Repository \<Rightarrow> string \<Rightarrow> 'w source \<Rightarrow> PutOptions \<Rightarrow> 'w \<Rightarrow> go_error option \<times> 'w" where
  "Put r path src options w = drv_Put (driver r) path src options w"

definition Delete :: "'w Repository \<Rightarrow> string \<Rightarrow> 'w \<Rightarrow> go_error option \<times> 'w" where
  "Delete r path w = drv_Delete (driver r) path w"

definition Stat :: "'w Repository \<Rightarrow> string \<Rightarrow> 'w \<Rightarrow> (go_error + Entry) \<times> 'w" where
  "Stat r path w = drv_Stat (driver r) path w"

definition ListFiles :: "'w Repository \<Rightarrow> string \<Rightarrow> ListOptions \<Rightarrow> 'w \<Rightarrow> (go_error + ListPage) \<times> 'w" where
  "ListFiles r path options w = drv_ListFiles (driver r) path options w"

text \<open>The deferred \<open>Close\<close> runs last; its error is dropped.\<close>

definition ReadFile :: "'w Repository \<Rightarrow> string \<Rightarrow> 'w \<Rightarrow> (bytes \<times> go_error option) \<times> 'w" where
  "ReadFile r path w =
     (case Open r path w of
        (Inl err, w1) \<Rightarrow> (([], Some err), w1)
      | (Inr reader, w1) \<Rightarrow> (case rd_ReadAll reader w1 of (res, w2) \<Rightarrow> (res, rd_Close reader w2)))"

text \<open>\<open>detect\<close> is \<open>http.DetectContentType\<close>, whose result only goes to the driver.\<close>

definition WriteFile ::
  "(bytes \<Rightarrow> string) \<Rightarrow> 'w Repository \<Rightarrow> string \<Rightarrow> bytes \<Rightarrow> PutOptions \<Rightarrow> 'w \<Rightarrow> go_error option \<times> 'w" where
  "WriteFile detect r path val options w =
     (let options = (if ContentType options = [] then options\<lparr>ContentType := detect val\<rparr> else options)
      in Put r path (BytesReader val) options w)"

definition Exists :: "'w Repository \<Rightarrow> string \<Rightarrow> 'w \<Rightarrow> (bool \<times> go_error option) \<times> 'w" where
  "Exists r path w =
     (case Stat r path w of
        (Inr _, w1) \<Rightarrow> ((True, None), w1)
      | (Inl err, w1) \<Rightarrow> if errors_Is err ErrNotFound then ((False, None), w1) else ((False, Some err), w1))"

definition cloneMetadata :: "(string \<Rightarrow> string option) \<Rightarrow> string \<Rightarrow> string option" where
  "cloneMetadata metadata = metadata"

definition Copy :: "'w Repository \<Rightarrow> string \<Rightarrow> string \<Rightarrow> 'w \<Rightarrow> go_error option \<times> 'w" where
  "Copy r src dst w =
     (case drv_Copy (driver r) of
        Some copier \<Rightarrow> copier src dst w
      | None \<Rightarrow>
          (case Stat r src w of
             (Inl err, w1) \<Rightarrow> (Some err, w1)
           | (Inr entry, w1) \<Rightarrow>
               (case Open r src w1 of
                  (Inl err, w2) \<Rightarrow> (Some err, w2)
                | (Inr reader, w2) \<Rightarrow>
                    (case Put r dst (Stream reader)
                       \<lparr>ContentLength = Some (entry_Size entry), ContentType = entry_ContentType entry,
                        Metadata = cloneMetadata (entry_Metadata entry)\<rparr> w2 of
                       (res, w3) \<Rightarrow> (res, rd_Close reader w3)))))"

definition Move :: "'w Repository \<Rightarrow> string \<Rightarrow> string \<Rightarrow> 'w \<Rightarrow> go_error option \<times> 'w" where
  "Move r src dst w =
     (case drv_Move (driver r) of
        Some mover \<Rightarrow> mover src dst w
      | None \<Rightarrow>
          (case Copy r src dst w of
             (Some err, w1) \<Rightarrow> (Some err, w1)
           | (None, w1) \<Rightarrow> Delete r src w1))"

section \<open>Properties\<close>

lemma Normalize_bounds: "1 \<le> Limit (Normalize o') \<and> Limit (Normalize o') \<le> MaxListLimit \<and> Normalize (Normalize o') = Normalize o'"
  by (simp add: Normalize_def DefaultListLimit_def MaxListLimit_def)

text \<open>The elements of a path, and \<open>fs.ValidPath\<close> in terms of them.\<close>

fun elements :: "string \<Rightarrow> string list" where
  "elements [] = [[]]"
| "elements (c # s) = (if c = CHR ''/'' then [] # elements s else (c # hd (elements s)) # tl (elements s))"

lemma elements_nonempty [simp]: "elements s \<noteq> []"
  by (cases s) simp_all

lemma elements_step:
  "elements s = (let e = takeWhile (\<lambda>c. c \<noteq> CHR ''/'') s in
     if length e = length s then [s] else e # elements (drop (length e + 1) s))"
  by (induction s) (simp_all add: Let_def)

lemma elements_append: "elements (a @ CHR ''/'' # b) = elements a @ elements b"
  by (induction a) simp_all

lemma valid_elements_iff: "valid_elements s \<longleftrightarrow> (\<forall>e \<in> set (elements s). e \<noteq> [] \<and> e \<noteq> ''.'' \<and> e \<noteq> ''..'')"
proof (induction s rule: valid_elements.induct)
  case (1 s)
  let ?e = "takeWhile (\<lambda>c. c \<noteq> CHR ''/'') s"
  show ?case
  proof (cases "length ?e = length s")
    case True
    then have e: "?e = s" by (metis order_refl take_all takeWhile_eq_take)
    show ?thesis unfolding valid_elements.simps [of s] elements_step [of s] Let_def e by simp
  next
    case False
    show ?thesis
    proof (cases "?e = [] \<or> ?e = ''.'' \<or> ?e = ''..''")
      case True
      with False show ?thesis unfolding valid_elements.simps [of s] elements_step [of s] Let_def by auto
    next
      case ok: False
      show ?thesis using False ok 1 [OF refl ok False]
        unfolding valid_elements.simps [of s] elements_step [of s] Let_def by simp
    qed
  qed
qed

lemma ValidPath_elements:
  "ValidPath path \<Longrightarrow> path \<noteq> ''.'' \<Longrightarrow> e \<in> set (elements path) \<Longrightarrow> e \<noteq> [] \<and> e \<noteq> ''.'' \<and> e \<noteq> ''..''"
  by (auto simp: ValidPath_def fs_ValidPath_def valid_elements_iff)

lemma ValidPath_unrooted: "ValidPath path \<Longrightarrow> path \<noteq> [] \<and> hd path \<noteq> CHR ''/''"
proof (cases "path = ''.''")
  case False
  assume v: "ValidPath path"
  show ?thesis
  proof (cases path)
    case Nil
    then show ?thesis using ValidPath_elements [OF v False, of "[]"] by simp
  next
    case (Cons c s)
    then show ?thesis using ValidPath_elements [OF v False, of "[]"] by auto
  qed
qed simp

lemma hd_rev_dropWhile_rev: "rev (dropWhile P (rev xs)) \<noteq> [] \<Longrightarrow> hd (rev (dropWhile P (rev xs))) = hd xs"
proof -
  assume n: "rev (dropWhile P (rev xs)) \<noteq> []"
  have "rev (takeWhile P (rev xs) @ dropWhile P (rev xs)) = xs"
    unfolding takeWhile_dropWhile_id by (rule rev_rev_ident)
  then have "rev (dropWhile P (rev xs)) @ rev (takeWhile P (rev xs)) = xs" unfolding rev_append .
  then have "hd (rev (dropWhile P (rev xs)) @ rev (takeWhile P (rev xs))) = hd xs" by (rule arg_cong)
  then show ?thesis unfolding hd_append2 [OF n] .
qed

lemma Trim_unrooted:
  assumes n: "str_Trim_slash s \<noteq> []"
  shows "hd (str_Trim_slash s) \<noteq> CHR ''/''"
proof -
  have d: "dropWhile (\<lambda>c. c = CHR ''/'') s \<noteq> []"
  proof
    assume "dropWhile (\<lambda>c. c = CHR ''/'') s = []"
    then have "str_Trim_slash s = []" unfolding str_Trim_slash_def by (simp only: rev.simps dropWhile.simps)
    with n show False ..
  qed
  show ?thesis using hd_dropWhile [OF d]
    unfolding str_Trim_slash_def hd_rev_dropWhile_rev [OF n [unfolded str_Trim_slash_def]] .
qed

lemma Trim_cases:
  obtains "str_Trim_slash s = []" | c r where "str_Trim_slash s = c # r" "c \<noteq> CHR ''/''"
  using Trim_unrooted [of s] by (cases "str_Trim_slash s") auto

lemma TrimPrefix_slash: "str_TrimPrefix key ''/'' = (case key of [] \<Rightarrow> [] | c # r \<Rightarrow> if c = CHR ''/'' then r else key)"
  by (auto simp: str_TrimPrefix_def split: list.splits)

lemma Strip_key:
  assumes "ValidPath path" "path \<noteq> ''.''"
  shows "Strip (NewPathPrefixer pre) key = (path, True) \<longleftrightarrow>
    str_TrimPrefix key ''/'' = Prefix (NewPathPrefixer pre) path"
proof -
  let ?k = "str_TrimPrefix key ''/''" and ?p = "str_Trim_slash pre"
  have n: "path \<noteq> []" using ValidPath_unrooted [OF assms(1)] by simp
  have "str_CutPrefix ?k (?p @ ''/'') = (path, True) \<longleftrightarrow> ?k = ?p @ ''/'' @ path"
    by (auto simp: str_CutPrefix_def prefix_def)
  then show ?thesis using assms(2) n by (auto simp: Strip_def Prefix_def NewPathPrefixer_def Let_def)
qed

lemma Prefix_unrooted:
  assumes "ValidPath path"
  shows "Prefix (NewPathPrefixer pre) path = [] \<or> hd (Prefix (NewPathPrefixer pre) path) \<noteq> CHR ''/''"
  using ValidPath_unrooted [OF assms] by (cases rule: Trim_cases [of pre]) (auto simp: Prefix_def NewPathPrefixer_def)

lemma TrimPrefix_eq:
  assumes "k = [] \<or> hd k \<noteq> CHR ''/''"
  shows "str_TrimPrefix key ''/'' = k \<longleftrightarrow> key = k \<or> key = CHR ''/'' # k"
  using assms by (cases key) (auto simp: TrimPrefix_slash)

lemma Strip_Prefix_root: "Strip (NewPathPrefixer pre) (Prefix (NewPathPrefixer pre) ''.'') = (''.'', True)"
  by (cases rule: Trim_cases [of pre]) (auto simp: Strip_def Prefix_def NewPathPrefixer_def TrimPrefix_slash)

text \<open>C25. The prefixer and the validation of paths keep logical paths apart and below the prefix. A valid path comes back
  from its key. For a path other than the root, the keys that are mapped to it are its key and its key with a slash in
  front, and no other. The elements of its key are those of the prefix followed by those of the path, none of which is
  empty, a dot or two dots: no path leaves the prefix.\<close>

theorem Strip_Prefix:
  assumes "ValidPath path"
  shows "Strip (NewPathPrefixer pre) (Prefix (NewPathPrefixer pre) path) = (path, True) \<and>
    (path \<noteq> ''.'' \<longrightarrow>
      (\<forall>key. Strip (NewPathPrefixer pre) key = (path, True) \<longleftrightarrow>
         key = Prefix (NewPathPrefixer pre) path \<or> key = CHR ''/'' # Prefix (NewPathPrefixer pre) path) \<and>
      elements (Prefix (NewPathPrefixer pre) path) =
        (if str_Trim_slash pre = [] then [] else elements (str_Trim_slash pre)) @ elements path \<and>
      (\<forall>e \<in> set (elements path). e \<noteq> [] \<and> e \<noteq> ''.'' \<and> e \<noteq> ''..''))"
proof (cases "path = ''.''")
  case True
  then show ?thesis using Strip_Prefix_root by simp
next
  case False
  let ?P = "Prefix (NewPathPrefixer pre) path"
  have keys: "Strip (NewPathPrefixer pre) key = (path, True) \<longleftrightarrow> key = ?P \<or> key = CHR ''/'' # ?P" for key
    unfolding Strip_key [OF assms False] by (rule TrimPrefix_eq [OF Prefix_unrooted [OF assms]])
  have els: "elements ?P = (if str_Trim_slash pre = [] then [] else elements (str_Trim_slash pre)) @ elements path"
    using False by (simp add: Prefix_def NewPathPrefixer_def elements_append)
  have one: "Strip (NewPathPrefixer pre) ?P = (path, True)" unfolding keys by simp
  show ?thesis by (intro conjI impI allI ballI one keys els) (use ValidPath_elements [OF assms False] in blast)+
qed

theorem Strip_Prefix_witness:
  "Prefix (NewPathPrefixer ''/t/a/'') ''d/x'' = ''t/a/d/x'' \<and>
   Strip (NewPathPrefixer ''/t/a/'') ''/t/a/d/x'' = (''d/x'', True) \<and>
   Strip (NewPathPrefixer ''/t/a/'') ''t/b/d/x'' \<noteq> (''d/x'', True)"
proof -
  have v: "ValidPath ''d/x''"
    by (simp add: ValidPath_def fs_ValidPath_def valid_elements_iff utf8_ValidString_def valid_utf8.simps decode_rune_def)
  have k: "Prefix (NewPathPrefixer ''/t/a/'') ''d/x'' = ''t/a/d/x''"
    by (simp add: Prefix_def NewPathPrefixer_def str_Trim_slash_def)
  have d: "''d/x'' \<noteq> ''.''" by simp
  note keys = Strip_Prefix [OF v, of "''/t/a/''", THEN conjunct2, THEN mp, OF d, THEN conjunct1, THEN spec, unfolded k]
  show ?thesis using k keys [of "''/t/a/d/x''"] keys [of "''t/b/d/x''"] by (intro conjI) simp_all
qed

end
