(* ===== verification/Locker.thy ===== *)
theory Locker
  imports Prelude
begin

text \<open>
  Package \<open>locker\<close> (\<open>src/locker\<close>): \<open>Do\<close> and \<open>Try\<close>, which run a handler while a lock is held, and the no-op lock. A lock
  is a record of its methods on a world \<open>'w\<close>, a lease is its method \<open>Release\<close>; each may panic. A successful acquisition
  returns a lease that is not nil, as the interface \<open>Lock\<close> demands.
\<close>

section \<open>Locks and leases\<close>

definition ErrNotAcquired :: go_error where
  "ErrNotAcquired = Sentinel ''locker: lock not acquired''"
definition ErrLeaseLost :: go_error where
  "ErrLeaseLost = Sentinel ''locker: lease lost''"
definition ErrInvalidName :: go_error where
  "ErrInvalidName = Sentinel ''locker: invalid lock name''"
definition ErrInvalidTTL :: go_error where
  "ErrInvalidTTL = Sentinel ''locker: invalid lock ttl''"
definition ErrInvalidToken :: go_error where
  "ErrInvalidToken = Sentinel ''locker: invalid lease token''"
definition ErrInvalidContext :: go_error where
  "ErrInvalidContext = Sentinel ''locker: invalid context''"
definition ErrNilLock :: go_error where
  "ErrNilLock = Sentinel ''locker: nil lock''"
definition ErrNilHandler :: go_error where
  "ErrNilHandler = Sentinel ''locker: nil handler''"

type_synonym 'w Lease = "'w wctx \<Rightarrow> 'w \<Rightarrow> go_error option outcome \<times> 'w"
type_synonym 'w acquisition = "'w wctx \<Rightarrow> 'w \<Rightarrow> (go_error + 'w Lease) outcome \<times> 'w"
type_synonym 'w Handler = "'w wctx \<Rightarrow> 'w \<Rightarrow> go_error option outcome \<times> 'w"

record 'w Lock =
  lk_TryAcquire :: "'w acquisition"
  lk_Acquire :: "'w acquisition"

definition validateContext :: "'w wctx \<Rightarrow> 'w \<Rightarrow> go_error option" where
  "validateContext ctx w = (case ctx of None \<Rightarrow> Some ErrInvalidContext | Some err \<Rightarrow> err w)"

definition validate :: "'w wctx \<Rightarrow> string \<Rightarrow> int \<Rightarrow> 'w \<Rightarrow> go_error option" where
  "validate ctx name ttl w =
     (case validateContext ctx w of
        Some err \<Rightarrow> Some err
      | None \<Rightarrow> if name = [] then Some ErrInvalidName else if ttl \<le> 0 then Some ErrInvalidTTL else None)"

record NoopLock =
  nl_name :: string
  nl_ttl :: int

definition NoopLease_Release :: "'w Lease" where
  "NoopLease_Release ctx w = (Return (validateContext ctx w), w)"

definition NoopLock_TryAcquire :: "NoopLock \<Rightarrow> 'w acquisition" where
  "NoopLock_TryAcquire l ctx w =
     (case validate ctx (nl_name l) (nl_ttl l) w of
        Some err \<Rightarrow> (Return (Inl err), w)
      | None \<Rightarrow> (Return (Inr NoopLease_Release), w))"

definition NoopLock_Acquire :: "NoopLock \<Rightarrow> 'w acquisition" where
  "NoopLock_Acquire l ctx w = NoopLock_TryAcquire l ctx w"

definition NoopLocker_Lock :: "string \<Rightarrow> int \<Rightarrow> 'w Lock" where
  "NoopLocker_Lock name ttl =
     (let l = \<lparr>nl_name = name, nl_ttl = ttl\<rparr>
      in \<lparr>lk_TryAcquire = NoopLock_TryAcquire l, lk_Acquire = NoopLock_Acquire l\<rparr>)"

section \<open>Handlers\<close>

definition validateHandler :: "'w wctx \<Rightarrow> 'w Lock option \<Rightarrow> 'w Handler option \<Rightarrow> 'w \<Rightarrow> go_error option" where
  "validateHandler ctx lock handler w =
     (case validateContext ctx w of
        Some err \<Rightarrow> Some err
      | None \<Rightarrow> if lock = None then Some ErrNilLock else if handler = None then Some ErrNilHandler else None)"

text \<open>\<open>context.WithoutCancel\<close>: the derived context is never done.\<close>

definition WithoutCancel :: "'w wctx \<Rightarrow> 'w wctx" where
  "WithoutCancel ctx = map_option (\<lambda>_ _. None) ctx"

text \<open>The deferred function runs after the handler, also when it panics; then \<open>err\<close> is nil and the panic goes on.\<close>

definition handle :: "'w wctx \<Rightarrow> 'w Lease \<Rightarrow> 'w Handler \<Rightarrow> 'w \<Rightarrow> go_error option outcome \<times> 'w" where
  "handle ctx release handler w =
     (case handler ctx w of
        (res, w1) \<Rightarrow>
          (case release (WithoutCancel ctx) w1 of
             (Panic, w2) \<Rightarrow> (Panic, w2)
           | (Return releaseErr, w2) \<Rightarrow>
               (case res of
                  Panic \<Rightarrow> (Panic, w2)
                | Return None \<Rightarrow> (Return releaseErr, w2)
                | Return (Some err) \<Rightarrow>
                    (Return (if releaseErr \<noteq> None then errors_Join [Some err, releaseErr] else Some err), w2))))"

definition Do :: "'w wctx \<Rightarrow> 'w Lock option \<Rightarrow> 'w Handler option \<Rightarrow> 'w \<Rightarrow> go_error option outcome \<times> 'w" where
  "Do ctx lock handler w =
     (case validateHandler ctx lock handler w of
        Some err \<Rightarrow> (Return (Some err), w)
      | None \<Rightarrow>
          (case lk_Acquire (the lock) ctx w of
             (Panic, w1) \<Rightarrow> (Panic, w1)
           | (Return (Inl err), w1) \<Rightarrow> (Return (Some err), w1)
           | (Return (Inr lease), w1) \<Rightarrow> handle ctx lease (the handler) w1))"

definition Try :: "'w wctx \<Rightarrow> 'w Lock option \<Rightarrow> 'w Handler option \<Rightarrow> 'w \<Rightarrow> go_error option outcome \<times> 'w" where
  "Try ctx lock handler w =
     (case validateHandler ctx lock handler w of
        Some err \<Rightarrow> (Return (Some err), w)
      | None \<Rightarrow>
          (case lk_TryAcquire (the lock) ctx w of
             (Panic, w1) \<Rightarrow> (Panic, w1)
           | (Return (Inl err), w1) \<Rightarrow> (Return (Some err), w1)
           | (Return (Inr lease), w1) \<Rightarrow> handle ctx lease (the handler) w1))"

section \<open>The contract of a lock\<close>

text \<open>
  What a client relies on: \<open>held\<close> counts the leases that were acquired and not yet handed to \<open>Release\<close>. An acquisition
  that succeeds adds one, and a call of \<open>Release\<close> under a context that is not done takes one away, whatever error it
  returns: a lease that was lost meanwhile, by its expiry for example, is no longer the caller's. Otherwise nothing changes.
\<close>

definition lock_ok :: "('w \<Rightarrow> nat) \<Rightarrow> 'w acquisition \<Rightarrow> bool" where
  "lock_ok held acquire \<longleftrightarrow>
     (\<forall>ctx w. case acquire ctx w of
        (Return (Inr lease), w1) \<Rightarrow> held w1 = held w + 1 \<and>
          (\<forall>w2. 0 < held w2 \<longrightarrow> held (snd (lease (Some (\<lambda>_. None)) w2)) + 1 = held w2)
      | (_, w1) \<Rightarrow> held w1 = held w)"

lemma lock_ok_acquired:
  "lock_ok held acquire \<Longrightarrow> acquire ctx w = (Return (Inr lease), w1) \<Longrightarrow> held w1 = held w + 1"
  "lock_ok held acquire \<Longrightarrow> acquire ctx w = (Return (Inr lease), w1) \<Longrightarrow> 0 < held w2 \<Longrightarrow>
     held (snd (lease (Some (\<lambda>_. None)) w2)) + 1 = held w2"
  unfolding lock_ok_def by (drule spec2 [of _ ctx w], simp)+

lemma lock_ok_refused:
  "lock_ok held acquire \<Longrightarrow> acquire ctx w = (Return (Inl err), w1) \<Longrightarrow> held w1 = held w"
  "lock_ok held acquire \<Longrightarrow> acquire ctx w = (Panic, w1) \<Longrightarrow> held w1 = held w"
  unfolding lock_ok_def by (drule spec2 [of _ ctx w], simp)+

lemma handle_world: "snd (handle ctx lease handler w) = snd (lease (WithoutCancel ctx) (snd (handler ctx w)))"
  by (auto simp: handle_def split: prod.splits outcome.splits option.splits)

lemma handle_errors:
  assumes "handle ctx lease handler w = (Return res, w2)"
  obtains herr rerr w1 where "handler ctx w = (Return herr, w1)" "lease (WithoutCancel ctx) w1 = (Return rerr, w2)"
    "res = (if herr = None then rerr else if rerr = None then herr else errors_Join [herr, rerr])"
  using assms by (auto simp: handle_def split: prod.splits outcome.splits option.splits if_splits)

text \<open>\<open>Do\<close> and \<open>Try\<close> differ in the acquisition only.\<close>

definition locked :: "'w acquisition \<Rightarrow> 'w wctx \<Rightarrow> 'w Handler \<Rightarrow> 'w \<Rightarrow> go_error option outcome \<times> 'w" where
  "locked acquire ctx h w =
     (case validateContext ctx w of
        Some err \<Rightarrow> (Return (Some err), w)
      | None \<Rightarrow>
          (case acquire ctx w of
             (Panic, w1) \<Rightarrow> (Panic, w1)
           | (Return (Inl err), w1) \<Rightarrow> (Return (Some err), w1)
           | (Return (Inr lease), w1) \<Rightarrow> handle ctx lease h w1))"

lemma Do_locked: "Do ctx (Some lock) (Some h) w = locked (lk_Acquire lock) ctx h w"
  and Try_locked: "Try ctx (Some lock) (Some h) w = locked (lk_TryAcquire lock) ctx h w"
  unfolding Do_def Try_def locked_def validateHandler_def option.sel by (simp_all split: option.split)

lemma validateContext_live: "validateContext ctx w = None \<Longrightarrow> WithoutCancel ctx = Some (\<lambda>_. None)"
  by (auto simp: validateContext_def WithoutCancel_def split: option.splits)

lemma locked_balanced:
  assumes ok: "lock_ok held acquire" and h: "\<And>c w1. held (snd (h c w1)) = held w1"
  shows "held (snd (locked acquire ctx h w)) = held w"
proof (cases "validateContext ctx w")
  case live: None
  show ?thesis
  proof (cases "acquire ctx w")
    case (Pair r w1)
    show ?thesis
    proof (cases r)
      case Panic
      then show ?thesis using live Pair lock_ok_refused(2) [OF ok] by (simp add: locked_def)
    next
      case (Return a)
      show ?thesis
      proof (cases a)
        case (Inl err)
        then show ?thesis using live Pair Return lock_ok_refused(1) [OF ok] by (simp add: locked_def)
      next
        case (Inr lease)
        with Pair Return have acq: "acquire ctx w = (Return (Inr lease), w1)" by simp
        have w1: "held w1 = held w + 1" by (rule lock_ok_acquired(1) [OF ok acq])
        have "held (snd (lease (Some (\<lambda>_. None)) (snd (h ctx w1)))) + 1 = held (snd (h ctx w1))"
          by (rule lock_ok_acquired(2) [OF ok acq]) (simp add: h w1)
        then show ?thesis using live acq w1
          by (simp add: locked_def handle_world validateContext_live [OF live] h)
      qed
    qed
  qed
qed (simp add: locked_def)

lemma locked_under_lock:
  assumes ok: "lock_ok held acquire" and eq: "\<And>w1. held w1 = held w + 1 \<Longrightarrow> h ctx w1 = h' ctx w1"
  shows "locked acquire ctx h w = locked acquire ctx h' w"
proof -
  have "handle ctx lease h w1 = handle ctx lease h' w1" if "acquire ctx w = (Return (Inr lease), w1)" for lease w1
    using eq [OF lock_ok_acquired(1) [OF ok that]] by (simp add: handle_def)
  then show ?thesis by (auto simp: locked_def split: option.splits prod.splits outcome.splits sum.splits)
qed

lemma locked_success:
  assumes "locked acquire ctx h w = (Return None, w3)"
  shows "\<exists>lease w1 w2. acquire ctx w = (Return (Inr lease), w1) \<and> h ctx w1 = (Return None, w2) \<and>
    lease (WithoutCancel ctx) w2 = (Return None, w3)"
proof -
  from assms obtain lease w1 where acq: "acquire ctx w = (Return (Inr lease), w1)"
    and hd: "handle ctx lease h w1 = (Return None, w3)"
    by (auto simp: locked_def split: option.splits prod.splits outcome.splits sum.splits)
  from hd obtain herr rerr w2 where "h ctx w1 = (Return herr, w2)" "lease (WithoutCancel ctx) w2 = (Return rerr, w3)"
    "None = (if herr = None then rerr else if rerr = None then herr else errors_Join [herr, rerr])"
    by (rule handle_errors)
  moreover from this(3) have "herr = None \<and> rerr = None"
    by (auto simp: errors_Join_def map_filter_def split: if_splits)
  ultimately show ?thesis using acq by auto
qed

text \<open>C24. \<open>Do\<close> and \<open>Try\<close> keep a lock's leases balanced. With a lock that keeps its contract and a handler that leaves the
  count of leases alone, as many leases are out after the call as before, whether the handler returns, fails or panics
  and whether or not the caller's context has been cancelled meanwhile. The handler runs only while one more lease is
  held: what it would do otherwise does not matter. A call that returns nil acquired the lock, and the handler and the
  release returned nil.\<close>

theorem lease_balanced:
  assumes "lock_ok held (lk_Acquire lock)" and "lock_ok held (lk_TryAcquire lock)"
    and "\<forall>c w1. held (snd (h c w1)) = held w1"
    and "\<forall>w1. held w1 = held w + 1 \<longrightarrow> h ctx w1 = h' ctx w1"
  shows "held (snd (Do ctx (Some lock) (Some h) w)) = held w \<and> held (snd (Try ctx (Some lock) (Some h) w)) = held w \<and>
    Do ctx (Some lock) (Some h) w = Do ctx (Some lock) (Some h') w \<and>
    Try ctx (Some lock) (Some h) w = Try ctx (Some lock) (Some h') w \<and>
    (\<forall>w3. Do ctx (Some lock) (Some h) w = (Return None, w3) \<longrightarrow>
       (\<exists>lease w1 w2. lk_Acquire lock ctx w = (Return (Inr lease), w1) \<and> h ctx w1 = (Return None, w2) \<and>
          lease (WithoutCancel ctx) w2 = (Return None, w3)))"
  unfolding Do_locked Try_locked
  using locked_balanced [OF assms(1)] locked_balanced [OF assms(2)] locked_under_lock [OF assms(1)]
    locked_under_lock [OF assms(2)] locked_success assms(3,4) by (intro conjI allI impI) blast+

theorem lease_balanced_witness:
  "snd (Do (Some (\<lambda>w. if w = (0 :: nat) then None else Some Canceled))
     (Some \<lparr>lk_TryAcquire = \<lambda>_ w. (Return (Inr (\<lambda>c v. (Return (validateContext c v), v - 1))), w + 1),
        lk_Acquire = \<lambda>_ w. (Return (Inr (\<lambda>c v. (Return (validateContext c v), v - 1))), w + 1)\<rparr>)
     (Some (\<lambda>_ w. (Panic, w))) 0) = 0"
proof -
  let ?acq = "\<lambda>(_ :: nat wctx) (w :: nat).
    (Return (Inr (\<lambda>c v. (Return (validateContext c v), v - 1))) :: (go_error + nat Lease) outcome, w + 1)"
  let ?h = "\<lambda>(_ :: nat wctx) (w :: nat). (Panic :: go_error option outcome, w)"
  have ok: "lock_ok id ?acq" by (simp add: lock_ok_def)
  show ?thesis
    using lease_balanced [of id "\<lparr>lk_TryAcquire = ?acq, lk_Acquire = ?acq\<rparr>" ?h 0
        "Some (\<lambda>w. if w = 0 then None else Some Canceled)" ?h] ok by simp
qed

end
