(* ===== verification/Cache.thy ===== *)
theory Cache
  imports Locker
begin

text \<open>
  Package \<open>cache\<close> (\<open>src/cache\<close>): the repository over a store, typed views, the null store and the snapshots. A store is
  a record of its methods on a world \<open>'w\<close>, of which the context is a part; \<open>'v\<close> is the type of values. \<open>Get\<close> writes
  through a pointer: it takes what the pointer points to and returns what it points to afterwards.
\<close>

section \<open>Stores\<close>

definition ErrNotFound :: go_error where
  "ErrNotFound = Sentinel ''cache: the key is not found''"
definition ErrWriteUnconfirmed :: go_error where
  "ErrWriteUnconfirmed = Sentinel ''cache: write was not confirmed''"

type_synonym ('v, 'w) adder = "string \<Rightarrow> 'v \<Rightarrow> int \<Rightarrow> 'w \<Rightarrow> (bool \<times> go_error option) \<times> 'w"

text \<open>\<open>st_Add\<close> is there when the store is \<open>Addable\<close>.\<close>

record ('v, 'w) Store =
  st_Has :: "string \<Rightarrow> 'w \<Rightarrow> (bool \<times> go_error option) \<times> 'w"
  st_Get :: "string \<Rightarrow> 'v \<Rightarrow> 'w \<Rightarrow> ('v \<times> go_error option) \<times> 'w"
  st_Put :: "string \<Rightarrow> 'v \<Rightarrow> int \<Rightarrow> 'w \<Rightarrow> (bool \<times> go_error option) \<times> 'w"
  st_Increment :: "string \<Rightarrow> int \<Rightarrow> 'w \<Rightarrow> (int \<times> go_error option) \<times> 'w"
  st_Decrement :: "string \<Rightarrow> int \<Rightarrow> 'w \<Rightarrow> (int \<times> go_error option) \<times> 'w"
  st_Forever :: "string \<Rightarrow> 'v \<Rightarrow> 'w \<Rightarrow> (bool \<times> go_error option) \<times> 'w"
  st_Forget :: "string \<Rightarrow> 'w \<Rightarrow> (bool \<times> go_error option) \<times> 'w"
  st_Flush :: "'w \<Rightarrow> (bool \<times> go_error option) \<times> 'w"
  st_Lock :: "string \<Rightarrow> int \<Rightarrow> 'w Lock"
  st_GetPrefix :: string
  st_Add :: "('v, 'w) adder option"

definition NullStore :: "('v, 'w) Store" where
  "NullStore =
     \<lparr>st_Has = \<lambda>_ w. ((True, None), w),
      st_Get = \<lambda>_ dest w. ((dest, None), w),
      st_Put = \<lambda>_ _ _ w. ((True, None), w),
      st_Increment = \<lambda>_ _ w. ((0, None), w),
      st_Decrement = \<lambda>_ _ w. ((0, None), w),
      st_Forever = \<lambda>_ _ w. ((True, None), w),
      st_Forget = \<lambda>_ w. ((True, None), w),
      st_Flush = \<lambda>w. ((True, None), w),
      st_Lock = NoopLocker_Lock,
      st_GetPrefix = [],
      st_Add = None\<rparr>"

section \<open>The repository\<close>

record ('v, 'w) repository =
  r_Store :: "('v, 'w) Store"

definition NewRepository :: "('v, 'w) Store \<Rightarrow> ('v, 'w) repository" where
  "NewRepository store = \<lparr>r_Store = store\<rparr>"

definition Missing :: "('v, 'w) repository \<Rightarrow> string \<Rightarrow> 'w \<Rightarrow> (bool \<times> go_error option) \<times> 'w" where
  "Missing r key w =
     (case st_Has (r_Store r) key w of
        ((_, Some err), w1) \<Rightarrow> ((False, Some err), w1)
      | ((had, None), w1) \<Rightarrow> ((\<not> had, None), w1))"

definition Delete :: "('v, 'w) repository \<Rightarrow> string \<Rightarrow> 'w \<Rightarrow> (bool \<times> go_error option) \<times> 'w" where
  "Delete r key w = st_Forget (r_Store r) key w"

definition Set :: "('v, 'w) repository \<Rightarrow> ('v, 'w) adder" where
  "Set r key val ttl w = st_Put (r_Store r) key val ttl w"

definition Add :: "('v, 'w) repository \<Rightarrow> ('v, 'w) adder" where
  "Add r key val ttl w =
     (case st_Add (r_Store r) of
        Some add \<Rightarrow> add key val ttl w
      | None \<Rightarrow>
          (case Missing r key w of
             ((_, Some err), w1) \<Rightarrow> ((False, Some err), w1)
           | ((missing, None), w1) \<Rightarrow>
               if missing then
                 (case Set r key val ttl w1 of
                    ((_, Some err), w2) \<Rightarrow> ((False, Some err), w2)
                  | ((status, None), w2) \<Rightarrow> ((status, None), w2))
               else ((False, None), w1)))"

section \<open>Typed access\<close>

text \<open>\<open>zero\<close> is the zero value of the type.\<close>

definition TypedView_Get :: "'v \<Rightarrow> ('v, 'w) Store \<Rightarrow> string \<Rightarrow> 'w \<Rightarrow> ('v \<times> go_error option) \<times> 'w" where
  "TypedView_Get zero store key w = st_Get store key zero w"

definition TypedView_Set :: "('v, 'w) Store \<Rightarrow> string \<Rightarrow> 'v \<Rightarrow> int \<Rightarrow> 'w \<Rightarrow> go_error option \<times> 'w" where
  "TypedView_Set store key val ttl w =
     (case st_Put store key val ttl w of
        ((_, Some err), w1) \<Rightarrow> (Some err, w1)
      | ((ok, None), w1) \<Rightarrow> if \<not> ok then (Some ErrWriteUnconfirmed, w1) else (None, w1))"

text \<open>\<open>errors.Is\<close> of a nil error is false.\<close>

definition is_not_found :: "go_error option \<Rightarrow> bool" where
  "is_not_found err = (case err of None \<Rightarrow> False | Some e \<Rightarrow> errors_Is e ErrNotFound)"

definition TypedView_Remember ::
  "'v \<Rightarrow> ('v, 'w) Store \<Rightarrow> string \<Rightarrow> int \<Rightarrow> ('w \<Rightarrow> ('v \<times> go_error option) \<times> 'w) \<Rightarrow> 'w \<Rightarrow> ('v \<times> go_error option) \<times> 'w" where
  "TypedView_Remember zero store key ttl load w =
     (case TypedView_Get zero store key w of
        ((val, err), w1) \<Rightarrow>
          if \<not> is_not_found err then ((val, err), w1)
          else case load w1 of
            ((val, Some err), w2) \<Rightarrow> ((val, Some err), w2)
          | ((val, None), w2) \<Rightarrow> (case TypedView_Set store key val ttl w2 of (err, w3) \<Rightarrow> ((val, err), w3)))"

text \<open>
  The statement \<open>return result, repository.Get(ctx, key, &result)\<close> reads a variable and calls a function that writes it.
  The language does not specify which comes first; \<open>early\<close> says that the variable is read before the call.
\<close>

definition Get :: "bool \<Rightarrow> 'v \<Rightarrow> ('v, 'w) repository \<Rightarrow> string \<Rightarrow> 'w \<Rightarrow> ('v \<times> go_error option) \<times> 'w" where
  "Get early zero r key w =
     (case st_Get (r_Store r) key zero w of ((result, err), w1) \<Rightarrow> ((if early then zero else result, err), w1))"

definition Remember ::
  "'v \<Rightarrow> ('v, 'w) repository \<Rightarrow> string \<Rightarrow> int \<Rightarrow> ('w \<Rightarrow> ('v \<times> go_error option) \<times> 'w) \<Rightarrow> 'w \<Rightarrow> ('v \<times> go_error option) \<times> 'w" where
  "Remember zero r key ttl callback w =
     (case st_Get (r_Store r) key zero w of
        ((result, err), w1) \<Rightarrow>
          if \<not> is_not_found err then ((result, err), w1)
          else case callback w1 of
            ((result, Some err), w2) \<Rightarrow> ((result, Some err), w2)
          | ((result, None), w2) \<Rightarrow>
              (case st_Put (r_Store r) key result ttl w2 of
                 ((_, Some err), w3) \<Rightarrow> ((result, Some err), w3)
               | ((_, None), w3) \<Rightarrow> ((result, None), w3)))"

section \<open>Snapshots\<close>

text \<open>
  The map is nil (\<open>None\<close>) until the first entry. \<open>lookup_read\<close> is what a lookup does under the read lock,
  \<open>lookup_fill\<close> what it does under the write lock; \<open>fn\<close> runs under the write lock and acts on the world.
\<close>

record ('k, 'v) Snapshot =
  snap_data :: "('k \<Rightarrow> 'v option) option"

definition lookup_read :: "('k, 'v) Snapshot \<Rightarrow> 'k \<Rightarrow> 'v option" where
  "lookup_read s key = (case snap_data s of None \<Rightarrow> None | Some d \<Rightarrow> d key)"

definition lookup_fill ::
  "('k, 'v) Snapshot \<Rightarrow> 'k \<Rightarrow> ('w \<Rightarrow> 'v \<times> 'w) \<Rightarrow> 'w \<Rightarrow> 'v \<times> ('k, 'v) Snapshot \<times> 'w" where
  "lookup_fill s key fn w =
     (let d = (case snap_data s of None \<Rightarrow> (\<lambda>_. None) | Some d \<Rightarrow> d) in
      case d key of
        Some v \<Rightarrow> (v, s\<lparr>snap_data := Some d\<rparr>, w)
      | None \<Rightarrow> (case fn w of (v, w1) \<Rightarrow> (v, s\<lparr>snap_data := Some (d(key := Some v))\<rparr>, w1)))"

definition Lookup ::
  "('k, 'v) Snapshot \<Rightarrow> 'k \<Rightarrow> ('w \<Rightarrow> 'v \<times> 'w) \<Rightarrow> 'w \<Rightarrow> 'v \<times> ('k, 'v) Snapshot \<times> 'w" where
  "Lookup s key fn w = (case lookup_read s key of Some v \<Rightarrow> (v, s, w) | None \<Rightarrow> lookup_fill s key fn w)"

definition Reset :: "('k, 'v) Snapshot \<Rightarrow> ('k, 'v) Snapshot" where
  "Reset s = s\<lparr>snap_data := None\<rparr>"

text \<open>\<open>SnapshotWithErr\<close> is a snapshot of a value with an error.\<close>

type_synonym 'v valueWithError = "'v \<times> go_error option"

definition SnapshotWithErr_Lookup ::
  "('k, 'v valueWithError) Snapshot \<Rightarrow> 'k \<Rightarrow> ('w \<Rightarrow> ('v \<times> go_error option) \<times> 'w) \<Rightarrow> 'w \<Rightarrow>
     ('v \<times> go_error option) \<times> ('k, 'v valueWithError) Snapshot \<times> 'w" where
  "SnapshotWithErr_Lookup c key fn w =
     (case lookup_read c key of Some v \<Rightarrow> (v, c, w) | None \<Rightarrow> lookup_fill c key fn w)"

definition SnapshotWithErr_Reset :: "('k, 'v valueWithError) Snapshot \<Rightarrow> ('k, 'v valueWithError) Snapshot" where
  "SnapshotWithErr_Reset c = c\<lparr>snap_data := None\<rparr>"

text \<open>Entries that expire; \<open>now\<close> reads the clock, which is part of the world.\<close>

record 'v valueWithExpireAndError =
  ve_value :: 'v
  ve_expired :: int
  ve_err :: "go_error option"

definition entry_stale :: "('w \<Rightarrow> int \<times> 'w) \<Rightarrow> 'v valueWithExpireAndError option \<Rightarrow> 'w \<Rightarrow> bool \<times> 'w" where
  "entry_stale now e w =
     (case e of None \<Rightarrow> (True, w) | Some v \<Rightarrow> (case now w of (t, w1) \<Rightarrow> (t > ve_expired v, w1)))"

definition expire_fill ::
  "('w \<Rightarrow> int \<times> 'w) \<Rightarrow> ('k, 'v valueWithExpireAndError) Snapshot \<Rightarrow> 'k \<Rightarrow> ('w \<Rightarrow> ('v \<times> go_error option) \<times> 'w) \<Rightarrow> int \<Rightarrow>
     'w \<Rightarrow> ('v \<times> go_error option) \<times> ('k, 'v valueWithExpireAndError) Snapshot \<times> 'w" where
  "expire_fill now c key fn expire w =
     (let d = (case snap_data c of None \<Rightarrow> (\<lambda>_. None) | Some d \<Rightarrow> d) in
      case entry_stale now (d key) w of
        (False, w1) \<Rightarrow> ((ve_value (the (d key)), ve_err (the (d key))), c\<lparr>snap_data := Some d\<rparr>, w1)
      | (True, w1) \<Rightarrow>
          (case fn w1 of
             ((val, err), w2) \<Rightarrow>
               (case now w2 of
                  (t, w3) \<Rightarrow>
                    ((val, err),
                     c\<lparr>snap_data := Some (d(key := Some \<lparr>ve_value = val, ve_expired = t + expire, ve_err = err\<rparr>))\<rparr>, w3))))"

definition SnapshotWithExpireAndErr_Lookup ::
  "('w \<Rightarrow> int \<times> 'w) \<Rightarrow> ('k, 'v valueWithExpireAndError) Snapshot \<Rightarrow> 'k \<Rightarrow> ('w \<Rightarrow> ('v \<times> go_error option) \<times> 'w) \<Rightarrow> int \<Rightarrow>
     'w \<Rightarrow> ('v \<times> go_error option) \<times> ('k, 'v valueWithExpireAndError) Snapshot \<times> 'w" where
  "SnapshotWithExpireAndErr_Lookup now c key fn expire w =
     (case entry_stale now (lookup_read c key) w of
        (False, w1) \<Rightarrow> (let v = the (lookup_read c key) in ((ve_value v, ve_err v), c, w1))
      | (True, w1) \<Rightarrow> expire_fill now c key fn expire w1)"

text \<open>The loop over the map; \<open>ks\<close> is the order in which it visits the keys.\<close>

fun cleanup_expired ::
  "('w \<Rightarrow> int \<times> 'w) \<Rightarrow> 'k list \<Rightarrow> ('k \<Rightarrow> 'v valueWithExpireAndError option) \<Rightarrow> 'w \<Rightarrow>
     ('k \<Rightarrow> 'v valueWithExpireAndError option) \<times> 'w" where
  "cleanup_expired now [] d w = (d, w)"
| "cleanup_expired now (k # ks) d w =
     (case d k of
        None \<Rightarrow> cleanup_expired now ks d w
      | Some v \<Rightarrow>
          (case now w of (t, w1) \<Rightarrow> cleanup_expired now ks (if t > ve_expired v then d(k := None) else d) w1))"

definition CleanupExpired ::
  "('w \<Rightarrow> int \<times> 'w) \<Rightarrow> 'k list \<Rightarrow> ('k, 'v valueWithExpireAndError) Snapshot \<Rightarrow> 'w \<Rightarrow>
     ('k, 'v valueWithExpireAndError) Snapshot \<times> 'w" where
  "CleanupExpired now ks c w =
     (case snap_data c of
        None \<Rightarrow> (c, w)
      | Some d \<Rightarrow> (case cleanup_expired now ks d w of (d1, w1) \<Rightarrow> (c\<lparr>snap_data := Some d1\<rparr>, w1)))"

definition SnapshotWithExpireAndErr_Reset ::
  "('k, 'v valueWithExpireAndError) Snapshot \<Rightarrow> ('k, 'v valueWithExpireAndError) Snapshot" where
  "SnapshotWithExpireAndErr_Reset c = c\<lparr>snap_data := None\<rparr>"

section \<open>Goroutines on one snapshot\<close>

text \<open>
  Each goroutine looks up a key, with a function that returns a value of its own. The part under the read lock and the
  part under the write lock are one step each. The world of the functions is the log of their calls; \<open>all_calls\<close> is that log, and
  \<open>since_reset\<close> the part of it after the last reset.
\<close>

datatype ('k, 'v) goroutine = Start 'k 'v | Missed 'k 'v | Done 'k 'v

record ('k, 'v) snap_system =
  sy_snap :: "('k, 'v) Snapshot"
  all_calls :: "('k \<times> 'v) list"
  since_reset :: "('k \<times> 'v) list"
  gos :: "('k, 'v) goroutine list"

definition log_call :: "'k \<Rightarrow> 'v \<Rightarrow> ('k \<times> 'v) list \<Rightarrow> 'v \<times> ('k \<times> 'v) list" where
  "log_call k v calls = (v, calls @ [(k, v)])"

definition go_step :: "nat \<Rightarrow> ('k, 'v) snap_system \<Rightarrow> ('k, 'v) snap_system" where
  "go_step i s =
     (case gos s ! i of
        Start k v \<Rightarrow>
          (case lookup_read (sy_snap s) k of
             Some u \<Rightarrow> s\<lparr>gos := (gos s)[i := Done k u]\<rparr>
           | None \<Rightarrow> s\<lparr>gos := (gos s)[i := Missed k v]\<rparr>)
      | Missed k v \<Rightarrow>
          (case lookup_fill (sy_snap s) k (log_call k v) [] of
             (u, snap, calls) \<Rightarrow>
               s\<lparr>sy_snap := snap, all_calls := all_calls s @ calls, since_reset := since_reset s @ calls,
                 gos := (gos s)[i := Done k u]\<rparr>)
      | Done k v \<Rightarrow> s)"

inductive snap_step :: "('k, 'v) snap_system \<Rightarrow> ('k, 'v) snap_system \<Rightarrow> bool" where
  run: "i < length (gos s) \<Longrightarrow> snap_step s (go_step i s)"
| spawn: "snap_step s (s\<lparr>gos := gos s @ [Start k v]\<rparr>)"
| reset: "snap_step s (s\<lparr>sy_snap := Reset (sy_snap s), since_reset := []\<rparr>)"

definition snap_init :: "('k, 'v) snap_system" where
  "snap_init = \<lparr>sy_snap = \<lparr>snap_data = None\<rparr>, all_calls = [], since_reset = [], gos = []\<rparr>"

section \<open>Properties of snapshots\<close>

definition snap_inv :: "('k, 'v) snap_system \<Rightarrow> bool" where
  "snap_inv s \<longleftrightarrow> distinct (map fst (since_reset s)) \<and> (\<forall>k. lookup_read (sy_snap s) k = map_of (since_reset s) k) \<and>
     (\<exists>old. all_calls s = old @ since_reset s) \<and> (\<forall>k v. Done k v \<in> set (gos s) \<longrightarrow> (k, v) \<in> set (all_calls s))"

lemma lookup_fill_log:
  "lookup_fill s k (log_call k v) [] =
     (case lookup_read s k of
        Some u \<Rightarrow> (u, s\<lparr>snap_data := Some (lookup_read s)\<rparr>, [])
      | None \<Rightarrow> (v, s\<lparr>snap_data := Some ((lookup_read s)(k := Some v))\<rparr>, [(k, v)]))"
proof -
  have "(case snap_data s of None \<Rightarrow> \<lambda>_. None | Some d \<Rightarrow> d) = lookup_read s"
    by (rule ext) (simp add: lookup_read_def split: option.split)
  then show ?thesis by (simp add: lookup_fill_def log_call_def Let_def split: option.split)
qed

lemma lookup_read_Some [simp]: "lookup_read (s\<lparr>snap_data := Some d\<rparr>) = d"
  by (rule ext) (simp add: lookup_read_def)

lemma set_update_Done:
  "Done k v \<in> set (gs[i := g]) \<Longrightarrow> Done k v = g \<or> Done k v \<in> set gs"
  using set_update_subset_insert [of gs i g] by blast

lemma Done_kept: "snap_inv s \<Longrightarrow> Done k v \<in> set (gos s) \<Longrightarrow> (k, v) \<in> set (all_calls s)"
  by (simp add: snap_inv_def)

lemma read_logged: "snap_inv s \<Longrightarrow> lookup_read (sy_snap s) k = Some u \<Longrightarrow> (k, u) \<in> set (all_calls s)"
  by (auto simp: snap_inv_def dest: map_of_SomeD)

lemma map_of_snoc_new: "k \<notin> fst ` set xs \<Longrightarrow> map_of (xs @ [(k, v)]) = (map_of xs)(k := Some v)"
  by (induction xs) auto

lemma snap_inv_go_step:
  assumes inv: "snap_inv s"
  shows "snap_inv (go_step i s)"
proof (cases "gos s ! i")
  case (Start k v)
  then show ?thesis using inv read_logged [OF inv, of k] Done_kept [OF inv]
    by (cases "lookup_read (sy_snap s) k") (auto simp: go_step_def snap_inv_def dest!: set_update_Done)
next
  case (Missed k v)
  show ?thesis
  proof (cases "lookup_read (sy_snap s) k")
    case None
    then have new: "k \<notin> fst ` set (since_reset s)" using inv by (simp add: snap_inv_def map_of_eq_None_iff)
    have "(lookup_read (sy_snap s))(k := Some v) = map_of (since_reset s @ [(k, v)])"
      using inv unfolding map_of_snoc_new [OF new] by (auto simp: snap_inv_def fun_eq_iff)
    then show ?thesis using Missed None inv new Done_kept [OF inv]
      by (auto simp: go_step_def lookup_fill_log snap_inv_def dest!: set_update_Done)
  next
    case (Some u)
    then show ?thesis using Missed inv read_logged [OF inv Some] Done_kept [OF inv]
      by (auto simp: go_step_def lookup_fill_log snap_inv_def dest!: set_update_Done)
  qed
next
  case (Done k v)
  then show ?thesis using inv by (simp add: go_step_def)
qed

lemma snap_inv_step: "snap_step s t \<Longrightarrow> snap_inv s \<Longrightarrow> snap_inv t"
proof (induction rule: snap_step.induct)
  case (run i s)
  then show ?case by (simp add: snap_inv_go_step)
next
  case (spawn s k v)
  then show ?case by (auto simp: snap_inv_def)
next
  case (reset s)
  then show ?case by (auto simp: snap_inv_def Reset_def lookup_read_def)
qed

lemma snap_reachable: "snap_step\<^sup>*\<^sup>* snap_init s \<Longrightarrow> snap_inv s"
proof (induction rule: rtranclp_induct)
  case base
  show ?case by (simp add: snap_inv_def snap_init_def lookup_read_def)
next
  case (step y z)
  then show ?case using snap_inv_step by blast
qed

lemma go_step_finishes:
  assumes "i < length (gos s)"
  shows "\<exists>k v. gos (go_step i (go_step i s)) ! i = Done k v"
proof -
  have missed: "\<exists>k v. gos (go_step i t) ! i = Done k v" if "i < length (gos t)" "gos t ! i = Missed k v" for t k v
    using that by (auto simp: go_step_def split: prod.splits)
  show ?thesis
  proof (cases "gos s ! i")
    case (Start k v)
    show ?thesis
    proof (cases "lookup_read (sy_snap s) k")
      case None
      with Start assms show ?thesis by (intro missed [of _ k v]) (simp_all add: go_step_def)
    next
      case (Some u)
      with Start assms show ?thesis by (simp add: go_step_def)
    qed
  next
    case (Missed k v)
    from missed [OF assms this] obtain k' v' where d: "gos (go_step i s) ! i = Done k' v'" by blast
    then have "go_step i (go_step i s) = go_step i s" by (subst go_step_def) simp
    with d show ?thesis by auto
  next
    case (Done k v)
    then show ?thesis by (simp add: go_step_def)
  qed
qed

text \<open>C23. A snapshot calls the function of a key once, however the goroutines that look it up are interleaved. Between two
  resets no key occurs twice in the log of calls, and the snapshot holds exactly the results of these calls. What a
  lookup returns is the result of a call for its key; as long as no call was made before the last reset, all lookups
  of a key return the same value. A lookup needs at most two more steps of its own.\<close>

theorem Snapshot_once:
  assumes "snap_step\<^sup>*\<^sup>* snap_init s"
  shows "distinct (map fst (since_reset s)) \<and> (\<forall>k. lookup_read (sy_snap s) k = map_of (since_reset s) k) \<and>
    (\<forall>k v. Done k v \<in> set (gos s) \<longrightarrow> (k, v) \<in> set (all_calls s)) \<and>
    (all_calls s = since_reset s \<longrightarrow>
       (\<forall>k v v'. Done k v \<in> set (gos s) \<longrightarrow> Done k v' \<in> set (gos s) \<longrightarrow> v = v')) \<and>
    (\<forall>i < length (gos s). \<exists>k v. gos (go_step i (go_step i s)) ! i = Done k v)"
proof -
  have inv: "snap_inv s" by (rule snap_reachable [OF assms])
  have "v = v'" if "all_calls s = since_reset s" "Done k v \<in> set (gos s)" "Done k v' \<in> set (gos s)" for k v v'
    using that inv eq_key_imp_eq_value [of "since_reset s" k v v'] by (simp add: snap_inv_def)
  then show ?thesis using inv go_step_finishes [of _ s] unfolding snap_inv_def by blast
qed

theorem Snapshot_once_witness:
  "let s = go_step 1 (go_step 0 (go_step 1 (go_step 0
       (snap_init\<lparr>gos := [Start (1 :: nat) (10 :: nat), Start 1 20]\<rparr>))))
   in gos s = [Done 1 10, Done 1 10] \<and> distinct (map fst (since_reset s)) \<and> lookup_read (sy_snap s) 1 = map_of (since_reset s) 1"
proof -
  let ?a = "snap_init\<lparr>gos := [Start (1 :: nat) (10 :: nat), Start 1 20]\<rparr>"
  let ?s = "go_step 1 (go_step 0 (go_step 1 (go_step 0 ?a)))"
  have "snap_step snap_init (snap_init\<lparr>gos := [Start (1 :: nat) (10 :: nat)]\<rparr>)"
    using snap_step.spawn [of snap_init "1 :: nat" "10 :: nat"] by (simp add: snap_init_def)
  moreover have "snap_step (snap_init\<lparr>gos := [Start (1 :: nat) (10 :: nat)]\<rparr>) ?a"
    using snap_step.spawn [of "snap_init\<lparr>gos := [Start (1 :: nat) (10 :: nat)]\<rparr>" 1 20] by (simp add: snap_init_def)
  ultimately have r0: "snap_step\<^sup>*\<^sup>* snap_init ?a" by simp
  have len: "length (gos (go_step i t)) = length (gos t)" for i and t :: "(nat, nat) snap_system"
    by (auto simp: go_step_def split: goroutine.splits option.splits prod.splits)
  have run: "snap_step\<^sup>*\<^sup>* snap_init t \<Longrightarrow> i < length (gos t) \<Longrightarrow> snap_step\<^sup>*\<^sup>* snap_init (go_step i t)"
    for i and t :: "(nat, nat) snap_system"
    by (rule rtranclp.rtrancl_into_rtrancl) (auto intro: snap_step.run)
  have "snap_step\<^sup>*\<^sup>* snap_init ?s" by (intro run r0) (simp_all add: len)
  from Snapshot_once [OF this] have "distinct (map fst (since_reset ?s))"
    and "lookup_read (sy_snap ?s) 1 = map_of (since_reset ?s) 1" by blast+
  moreover have "gos ?s = [Done 1 10, Done 1 10]"
    by (simp add: go_step_def snap_init_def lookup_read_def lookup_fill_def log_call_def)
  ultimately show ?thesis unfolding Let_def by blast
qed

section \<open>Properties of typed access\<close>

text \<open>The two ways to remember a value agree, but for a write that the store neither confirms nor refuses: the typed view
  reports it.\<close>

lemma Remember_agree:
  assumes "\<And>v w1 w2. st_Put store key v ttl w1 \<noteq> ((False, None), w2)"
  shows "TypedView_Remember zero store key ttl load w = Remember zero (NewRepository store) key ttl load w"
proof -
  have "TypedView_Set store key v ttl w1 = (case st_Put store key v ttl w1 of ((_, err), w2) \<Rightarrow> (err, w2))" for v w1
    using assms [of v w1] by (auto simp: TypedView_Set_def split: prod.splits option.splits)
  then show ?thesis
    by (auto simp: TypedView_Remember_def Remember_def TypedView_Get_def NewRepository_def split: prod.splits option.splits)
qed

text \<open>A hit is returned without calling the loader or writing.\<close>

lemma Remember_hit:
  "st_Get store key zero w = ((v, None), w1) \<Longrightarrow> TypedView_Remember zero store key ttl load w = ((v, None), w1)"
  by (simp add: TypedView_Remember_def TypedView_Get_def is_not_found_def)

text \<open>If the variable is read before the call, \<open>Get\<close> loses what was found.\<close>

lemma Get_early: "st_Get store key zero w = ((v, None), w1) \<Longrightarrow> Get True zero (NewRepository store) key w = ((zero, None), w1)"
  by (simp add: Get_def NewRepository_def)

text \<open>An entry that has expired when it is looked up is computed again; one that has not is returned as it is.\<close>

lemma expire_lookup_fresh:
  assumes "lookup_read c key = Some v" and "now w = (t, w1)" and "t \<le> ve_expired v"
  shows "SnapshotWithExpireAndErr_Lookup now c key fn expire w = ((ve_value v, ve_err v), c, w1)"
  using assms by (simp add: SnapshotWithExpireAndErr_Lookup_def entry_stale_def)

lemma cleanup_expired_other: "k \<notin> set ks \<Longrightarrow> fst (cleanup_expired now ks d w) k = d k"
  by (induction ks arbitrary: d w) (auto split: option.split prod.split)

end
