(* ===== verification/Spec2Isabelle.thy ===== *)
theory Spec2Isabelle
  imports Period RateLimit_Memory Retry Poll Idempotency_Memory Slices Queue_System Queue_Run Batcher Strings Lifecycle Event
    Webhook Filesystem Cache
begin

text \<open>
  A verification of packages of the Go repository \<open>go-fries/fries\<close>.

  \<^bold>\<open>The program.\<close> The repository is a collection of Go packages for services. The packages modelled here are
  those that decide something by themselves: time intervals (\<open>src/time/period\<close>), rate limiting (\<open>src/ratelimit\<close>
  and its memory store), retrying and polling (\<open>src/retry\<close>, \<open>src/poll\<close>), idempotent execution
  (\<open>src/idempotency\<close> and its memory store), slices and strings (\<open>src/slices\<close>, \<open>src/strings\<close>), task queues
  (\<open>src/queue\<close>, its worker, its recovery middleware and its memory adapter), batching (\<open>src/batcher\<close>), application
  startup and shutdown (\<open>src/lifecycle\<close>), in-process events (\<open>src/event\<close>), signed webhooks (\<open>src/webhook\<close>),
  the paths and the repository of \<open>src/filesystem\<close>, work under a lock (\<open>src/locker\<close>) and caching (\<open>src/cache\<close>). A limiter, an executor and a worker use
  a store or a queue through an interface, of which the memory implementations are modelled.

  \<^bold>\<open>How code is modelled.\<close> \<open>Prelude\<close> has what the packages share. A Go \<open>int\<close>, \<open>int64\<close> or duration is an \<open>int\<close>;
  \<open>i64\<close> is written out where the arithmetic of the source can wrap around. An error is a tree of type \<open>go_error\<close>, on
  which \<open>errors.Is\<close> and \<open>errors.Join\<close> are functions. A panic is a value (\<open>outcome\<close>, or \<open>called\<close> with the panic's
  text in the queue). A call that acts on something outside the package (a handler, a clock, a random source) is a
  function on a world \<open>'w\<close> that is threaded through. A context is its error, or the cause of its cancellation, as a
  function of the world, or a sequence of observations (\<open>RateLimit\<close>); where a package only passes it on, it is a value of
  a type of its own (\<open>Lifecycle\<close>). A struct is a record, an operation is one definition with the source's name, a loop
  is a recursive function. Functional options are a datatype, applied by \<open>fold\<close> in order, nil options included. An
  operation under a mutex is one step. Goroutines are a step relation (\<open>Queue_System\<close>, \<open>Queue_Run\<close>, \<open>Batcher\<close>,
  \<open>Event\<close>, \<open>Cache\<close>), in which any goroutine may be next.

  \<^bold>\<open>The theories.\<close>
  \<^item> \<open>Period\<close>: \<open>period\<close>, \<open>New\<close>, the relations, \<open>Merge\<close>, \<open>Subtract\<close>, \<open>Gaps\<close>. The specification is the set of
    instants of a period, which the relations decide. \<open>Merge\<close> is canonical and keeps this set, equality of merges is equality of sets,
    \<open>Subtract\<close> is the difference and \<open>Gaps\<close> what is missing between periods.
  \<^item> \<open>GoHeap\<close>: the algorithms of \<open>container/heap\<close>; the locale \<open>go_heap\<close> is the contract of \<open>heap.Interface\<close>.
  \<^item> \<open>RateLimit\<close>: limits, \<open>validateLimit\<close>, \<open>Store\<close> and \<open>Limiter\<close>; the locale \<open>ratelimit_store\<close> is the contract of a
    store as the generic cell rate algorithm, in which the bound on what is admitted is proved.
    \<open>RateLimit_Memory\<close>: \<open>src/ratelimit/memory/store.go\<close> with its shared records and heap, which interprets both
    locales. The rate bound, exactness of \<open>RetryAfter\<close> and \<open>Remaining\<close>, and cleanup follow.
  \<^item> \<open>Retry\<close>, \<open>Poll\<close>: backoff strategies, markers of errors and the loops. The loops return when they should, and
    the trace of executions, waits and notifications is characterised. The delays are exact, of a jitter in terms of the
    number drawn.
  \<^item> \<open>Idempotency\<close>: configuration, \<open>Store\<close>, \<open>Do\<close> and \<open>DoValue\<close>, with the locales \<open>idempotency_store\<close> and
    \<open>idempotency_executor\<close>. \<open>Idempotency_Memory\<close> interprets them: claims are exclusive, every branch of \<open>Do\<close> is
    described, a stored value is replayed.
  \<^item> \<open>Slices\<close>: every function of the package, equal to a list function or described by its elements.
  \<^item> \<open>Codec\<close>, \<open>Queue\<close>, \<open>Queue_Worker\<close>, \<open>Queue_Memory\<close>, \<open>Queue_System\<close>, \<open>Queue_Run\<close>: producers and typed
    definitions, the worker's handling and settlement of a delivery over the locale \<open>task_queue\<close>, the memory queue,
    which interprets it, the system of producers and worker goroutines on one queue, and the goroutines of
    \<open>Run\<close> and \<open>Stop\<close>. A task is settled once and by the right action; it is lost only when the context of its settlement has
    ended, since the memory queue forgets a task that it delivers (\<open>s_ended\<close> holds these tasks); each is settled after at
    most the allowed deliveries; \<open>Run\<close> waits for its loops and returns.
  \<^item> \<open>Batcher\<close>: admission, the worker and shutdown. Batches hold exactly the accepted items in order; after \<open>Shutdown\<close>
    nothing but calls already submitting is accepted, the worker can always finish, and then every accepted item was
    handled. \<open>New\<close> accepts exactly the documented arguments.
  \<^item> \<open>Strings\<close>: every function but \<open>UUID\<close>. \<open>Is\<close> decides the recursive meaning \<open>glob\<close> of a pattern;
    \<open>SubstrCount\<close> panics exactly when its bounds overflow.
  \<^item> \<open>Lifecycle\<close>: \<open>Bootstrap\<close>, \<open>Shutdown\<close> and \<open>Run\<close>. The calls of the providers are logged with their errors: exactly those
    that started without error are stopped, in reverse order, and all errors are reported.
  \<^item> \<open>Event\<close>: subscriptions, serial and concurrent dispatch. Concurrent dispatch calls every handler once and reports
    errors in order; the workers can always finish.
  \<^item> \<open>Crypto\<close>, \<open>Strconv\<close>: SHA-256, HMAC, base64 and decimal numbers of the standard library, with the round trips of
    base64 and of numbers.
  \<^item> \<open>Webhook\<close>: secrets, options, \<open>Sign\<close> and \<open>Verify\<close>. What is signed is accepted within the tolerance; what is
    accepted has a signature of exactly its ID, timestamp and payload under a configured secret.
  \<^item> \<open>Filesystem\<close>: \<open>ValidPath\<close>, the prefixer, \<open>ResolveContentLength\<close>, \<open>Normalize\<close> and the repository over a record
    of a driver's methods. A valid path comes back from its key, and its key stays below the prefix.
  \<^item> \<open>Locker\<close>: \<open>Do\<close>, \<open>Try\<close> and the no-op lock. What is acquired is released, also on a panic, and the handler runs only
    under the lock.
  \<^item> \<open>Cache\<close>: the repository, typed views, the null store and the snapshots, with goroutines that look up one snapshot. The
    function of a key is called once between resets; the two ways to remember a value differ in unconfirmed writes only.

  \<^bold>\<open>Termination and bounds.\<close> There is no fuel. A loop whose end is not structural is a \<open>function\<close> with a termination
  proof, or a \<open>partial_function\<close> into \<open>option\<close> whose value is \<open>None\<close> when it runs forever: \<open>retry_loop\<close>,
  \<open>is_loop\<close> (both proved to return), \<open>until_loop\<close>, \<open>Receive\<close> and \<open>receive_loop\<close> (which may wait forever). Of a step
  relation a measure shows that the goroutines reach their end (\<open>tasks_settle\<close>, \<open>Run_returns\<close>, \<open>shutdown_drains\<close>,
  \<open>workers_finish\<close>). Lengths and indices of slices and strings are far below the range of an \<open>int\<close> and do not wrap;
  the sum of an offset and a length given by the caller of \<open>SubstrCount\<close> does.

  \<^bold>\<open>Hypotheses.\<close> Codecs, the hash functions of \<open>Strings\<close> and random sources are parameters. \<open>codec_roundtrip\<close> says that decoding reads
  what was encoded, \<open>rand_ok\<close> that bytes read are not none; \<open>no_panic\<close> and \<open>never_panics\<close> exclude a panic of a
  provider and of an event handler; \<open>lock_ok\<close> is the contract of a lock, whose leases are counted. What happens without them is in the definitions: a provider that panics while it
  starts leaves the runner starting, and \<open>Shutdown\<close> then waits forever (\<open>Bootstrap_panic_blocks\<close>).

  \<^bold>\<open>Atomicity.\<close> One call of a handler is one step of the step relations. In \<open>Lifecycle\<close> the calls of one goroutine are
  modelled and a call that waits for another goroutine is the result \<open>None\<close>. Making a context with a timeout and the first check of it
  by a store or a queue (\<open>finalizationContext\<close>, the settlements of a worker) are one step in which the clock does not move, so
  that such a timeout does not fire in between; a context that has ended before is modelled.

  \<^bold>\<open>Equality.\<close> The operator \<open>==\<close> of Go on items and keys (\<open>Slices\<close>, \<open>Cache\<close>) is equality here. The two differ on
  floating-point NaN, which is not equal to itself in Go and is excluded.

  \<^bold>\<open>Not modelled.\<close> Stores and queues whose state is in a server (Redis, RabbitMQ). Packages that adapt third-party
  libraries: \<open>kratos\<close>, \<open>gorm\<close>, \<open>ent\<close>, \<open>mysql\<close>, \<open>otel\<close>, \<open>cloudevents\<close>, \<open>eino\<close>, \<open>chi\<close>, \<open>gin\<close>, \<open>crontab\<close>. The
  codecs and \<open>encrypter\<close>, thin layers over encoders and ciphers of the standard library or of third parties. Servers and
  clients that are input and output: \<open>udp\<close>, \<open>http/server\<close>, the transports of \<open>hyperf\<close> and \<open>jsonrpc\<close>, the drivers of
  \<open>filesystem\<close>, \<open>webhook/sender\<close>. Type constraints, interfaces and development tools (\<open>constraints\<close>, \<open>capability\<close>, \<open>ptr\<close>,
  \<open>internal\<close>). Packages that could be modelled and are not yet: \<open>debounce\<close>,
  \<open>parallel\<close>, \<open>signal\<close>, \<open>health\<close>, \<open>hashing\<close>, \<open>errors\<close>, \<open>recovery\<close>, \<open>support\<close>,
  \<open>x\<close>, \<open>log/slog\<close>, \<open>http/response\<close>, the clients of \<open>jsonrpc\<close> and \<open>hyperf\<close>, the
  recovery middleware of \<open>event\<close>, which resembles that of \<open>queue\<close>, and the small packages that
  keep a value in a context or a global variable (\<open>config\<close>, \<open>env\<close>, \<open>timezone\<close>, the default dispatcher of \<open>event\<close>).
  Of the worker of a queue, the events it reports when it starts and stops are left out of the system of goroutines.
\<close>

end
